(* ===== verification/Prelude.thy ===== *)
theory Prelude
  imports
    Main
    "HOL-Library.Word"
    "HOL-Library.Sublist"
    "HOL-Library.AList"
    "HOL-Library.Multiset"
    "HOL-Library.Char_ord"
    "HOL-Library.List_Lexorder"
begin

text \<open>
  Shared vocabulary of the evix development.

  \<^item> machine integers: \<open>usize\<close> and \<open>u64\<close> are 64-bit words, \<open>u32\<close> a 32-bit word (the
    supported targets are 64-bit Linux, and the release profile wraps on overflow);
  \<^item> a Rust \<open>String\<close> is its UTF-8 byte sequence, a HOL \<open>string\<close>; \<open>chars\<close> decodes it to
    Unicode scalar values where the source iterates over characters;
  \<^item> \<open>misstep::Result\<close> is \<open>'a result\<close>, with the rendered report as the error value;
  \<^item> \<open>BTreeMap<String, V>\<close> is a key-sorted association list built by \<open>bt_insert\<close>;
    \<open>HashMap\<close> is an association list with distinct keys whose order stands for the
    unspecified iteration order;
  \<^item> the string operations of the Rust standard library that the sources call.

  The collections \<open>result_simps\<close>, \<open>btree_simps\<close> and \<open>codec_simps\<close> carry the component
  proofs.
\<close>

named_theorems result_simps \<open>evaluation of fallible pipelines\<close>
named_theorems btree_simps \<open>ordered maps\<close>
named_theorems codec_simps \<open>what a decoder gives on an encoded value\<close>

section \<open>Machine integers\<close>

type_synonym usize = "64 word"
type_synonym u64 = "64 word"
type_synonym u32 = "32 word"

text \<open>\<open>usize::saturating_mul\<close>.\<close>

definition saturating_mul :: "usize \<Rightarrow> usize \<Rightarrow> usize" where
  "saturating_mul a b = (if unat a * unat b < 2 ^ 64 then a * b else - 1)"

lemma unat_saturating_mul: "unat (saturating_mul a b) = min (unat a * unat b) (2 ^ 64 - 1)"
proof (cases "unat a * unat b < 2 ^ 64")
  case True
  then show ?thesis
    by (simp add: saturating_mul_def unat_word_ariths)
next
  case False
  have "unat (- 1 :: usize) = 2 ^ 64 - 1"
    by (simp add: unat_eq_nat_uint uint_word_ariths)
  with False show ?thesis
    by (simp add: saturating_mul_def)
qed

text \<open>For evaluation: on integers, whose arithmetic is binary.\<close>

lemma saturating_mul_code [code]:
  "saturating_mul a b = (if uint a * uint b < 18446744073709551616 then a * b else - 1)"
proof -
  have "unat a * unat b < 2 ^ 64 \<longleftrightarrow> int (unat a * unat b) < int (2 ^ 64)"
    by (simp only: of_nat_less_iff)
  also have "int (unat a * unat b) = uint a * uint b" by simp
  also have "int (2 ^ 64) = 18446744073709551616" by simp
  finally have "unat a * unat b < 2 ^ 64 \<longleftrightarrow> uint a * uint b < 18446744073709551616" .
  then show ?thesis by (simp add: saturating_mul_def)
qed

section \<open>Fallible results\<close>

text \<open>
  A \<open>misstep::Report\<close> is a cause under a stack of contexts, outermost first. The cause is
  the text of a \<open>bail!\<close> or \<open>report!\<close>, a format template with its arguments where the
  source prints them with \<open>{:?}\<close>, or the failure of a library call, named after the
  library, whose own text is not part of the model. How a report is rendered
  (\<open>Report::to_string\<close>) is misstep's business: definitions that render one take the
  renderer as an argument.
\<close>

datatype cause = Message string | Template string "string list" | External string

datatype report = Report (rp_contexts: "string list") (rp_cause: cause)

type_synonym 'a result = "report + 'a"

abbreviation Err :: "'e \<Rightarrow> 'e + 'a" where
  "Err \<equiv> Inl"

abbreviation Ok :: "'a \<Rightarrow> 'e + 'a" where
  "Ok \<equiv> Inr"

text \<open>The \<open>?\<close> operator: the first error ends the function.\<close>

definition and_then :: "'e + 'a \<Rightarrow> ('a \<Rightarrow> 'e + 'b) \<Rightarrow> 'e + 'b" where
  "and_then r f = (case r of Inl e \<Rightarrow> Inl e | Inr x \<Rightarrow> f x)"

lemma and_then_simps [simp, result_simps]:
  "and_then (Inl e) f = Inl e"
  "and_then (Inr x) f = f x"
  by (simp_all add: and_then_def)

lemma and_then_Ok_iff [result_simps]:
  "and_then r f = Inr y \<longleftrightarrow> (\<exists>x. r = Inr x \<and> f x = Inr y)"
  by (cases r) simp_all

lemma and_then_Err_iff:
  "and_then r f = Inl e \<longleftrightarrow> r = Inl e \<or> (\<exists>x. r = Inr x \<and> f x = Inl e)"
  by (cases r) simp_all

lemma and_then_cong [fundef_cong]:
  "r = r' \<Longrightarrow> (\<And>x. r' = Inr x \<Longrightarrow> f x = g x) \<Longrightarrow> and_then r f = and_then r' g"
  by (cases r') simp_all

text \<open>\<open>bail!\<close>, a failed library call, and \<open>ResultExt::context\<close>.\<close>

definition bail :: "string \<Rightarrow> 'a result" where
  "bail msg = Inl (Report [] (Message msg))"

definition bail_fmt :: "string \<Rightarrow> string list \<Rightarrow> 'a result" where
  "bail_fmt template args = Inl (Report [] (Template template args))"

definition external :: "string \<Rightarrow> 'a result" where
  "external lib = Inl (Report [] (External lib))"

text \<open>A panic (an index out of bounds, an \<open>expect\<close> that fails) ends the task.\<close>

definition panic :: "'a result" where
  "panic = external ''panic''"

fun with_context :: "string \<Rightarrow> 'a result \<Rightarrow> 'a result" where
  "with_context c (Inl (Report cs m)) = Inl (Report (c # cs) m)"
| "with_context c (Inr x) = Inr x"

lemma bail_neq_Ok [simp, result_simps]:
  "bail m \<noteq> Inr x" "bail_fmt t as \<noteq> Inr x" "external l \<noteq> Inr x"
  "Inr x \<noteq> bail m" "Inr x \<noteq> bail_fmt t as" "Inr x \<noteq> external l"
  by (simp_all add: bail_def bail_fmt_def external_def)

lemma bail_neq_panic [simp]:
  "panic \<noteq> bail m" "bail m \<noteq> panic" "panic \<noteq> Inr x" "Inr x \<noteq> panic"
  by (simp_all add: panic_def bail_def external_def)

lemma and_then_bail [simp, result_simps]:
  "and_then (bail m) f = bail m" "and_then (bail_fmt t as) f = bail_fmt t as"
  "and_then (external l) f = external l"
  by (simp_all add: bail_def bail_fmt_def external_def)

lemma with_context_Ok_iff [simp, result_simps]: "with_context c r = Inr x \<longleftrightarrow> r = Inr x"
proof (cases r)
  case (Inl e)
  then show ?thesis by (cases e) simp
qed simp

lemma with_context_is_Ok [simp, result_simps]: "isl (with_context c r) \<longleftrightarrow> isl r"
proof (cases r)
  case (Inl e)
  then show ?thesis by (cases e) simp
qed simp

text \<open>Collecting an iterator of results into a \<open>Result<Vec<_>>\<close>.\<close>

fun collect_results :: "('a \<Rightarrow> 'e + 'b) \<Rightarrow> 'a list \<Rightarrow> 'e + 'b list" where
  "collect_results f [] = Inr []"
| "collect_results f (x # xs) =
     and_then (f x) (\<lambda>y. and_then (collect_results f xs) (\<lambda>ys. Inr (y # ys)))"

lemma collect_results_Ok_iff:
  "collect_results f xs = Inr ys \<longleftrightarrow> list_all2 (\<lambda>x y. f x = Inr y) xs ys"
  by (induction xs arbitrary: ys) (auto simp: and_then_Ok_iff list_all2_Cons1)

lemma collect_results_map_Ok [simp, result_simps]:
  "(\<And>x. x \<in> set xs \<Longrightarrow> f (g x) = Inr (h x)) \<Longrightarrow>
    collect_results f (map g xs) = Inr (map h xs)"
  by (induction xs) simp_all

lemma collect_results_id [simp, result_simps]:
  "(\<And>x. x \<in> set xs \<Longrightarrow> f x = Inr x) \<Longrightarrow> collect_results f xs = Inr xs"
  using collect_results_map_Ok [of xs f id id] by simp

text \<open>\<open>Option<Result<_>>::transpose\<close>.\<close>

definition transpose_option :: "('e + 'a) option \<Rightarrow> 'e + 'a option" where
  "transpose_option x =
     (case x of None \<Rightarrow> Inr None | Some r \<Rightarrow> and_then r (\<lambda>y. Inr (Some y)))"

lemma transpose_option_simps [simp, result_simps]:
  "transpose_option None = Inr None"
  "transpose_option (Some (Inl e)) = Inl e"
  "transpose_option (Some (Inr y)) = Inr (Some y)"
  by (simp_all add: transpose_option_def)

text \<open>\<open>Option::ok_or_else\<close> and \<open>Result::unwrap_or\<close>.\<close>

definition ok_or :: "'a option \<Rightarrow> 'e \<Rightarrow> 'e + 'a" where
  "ok_or x e = (case x of None \<Rightarrow> Inl e | Some y \<Rightarrow> Inr y)"

lemma ok_or_simps [simp, result_simps]:
  "ok_or None e = Inl e"
  "ok_or (Some y) e = Inr y"
  by (simp_all add: ok_or_def)

definition result_or :: "'e + 'a \<Rightarrow> 'a \<Rightarrow> 'a" where
  "result_or r d = (case r of Inl _ \<Rightarrow> d | Inr x \<Rightarrow> x)"

lemma result_or_simps [simp, result_simps]:
  "result_or (Inl e) d = d"
  "result_or (Inr x) d = x"
  by (simp_all add: result_or_def)

definition option_or :: "'a option \<Rightarrow> 'a \<Rightarrow> 'a" where
  "option_or x d = (case x of None \<Rightarrow> d | Some y \<Rightarrow> y)"

lemma option_or_simps [simp, result_simps]:
  "option_or None d = d"
  "option_or (Some y) d = y"
  by (simp_all add: option_or_def)

text \<open>\<open>Option::is_none_or\<close>.\<close>

definition is_none_or :: "'a option \<Rightarrow> ('a \<Rightarrow> bool) \<Rightarrow> bool" where
  "is_none_or x p = (case x of None \<Rightarrow> True | Some y \<Rightarrow> p y)"

lemma is_none_or_iff [simp]: "is_none_or x p \<longleftrightarrow> (\<forall>y. x = Some y \<longrightarrow> p y)"
  by (cases x) (simp_all add: is_none_or_def)

section \<open>Strings\<close>

text \<open>\<open>[String]::join\<close>.\<close>

fun join :: "string \<Rightarrow> string list \<Rightarrow> string" where
  "join sep [] = []"
| "join sep [x] = x"
| "join sep (x # y # ys) = x @ sep @ join sep (y # ys)"

definition starts_with :: "'a list \<Rightarrow> 'a list \<Rightarrow> bool" where
  "starts_with s p = (take (length p) s = p)"

lemma starts_with_iff_prefix: "starts_with s p \<longleftrightarrow> prefix p s"
  by (auto simp: starts_with_def prefix_def) (metis append_take_drop_id)

lemma starts_with_append [simp]: "starts_with (p @ s) p"
  by (simp add: starts_with_def)

definition strip_prefix :: "string \<Rightarrow> string \<Rightarrow> string option" where
  "strip_prefix p s = (if starts_with s p then Some (drop (length p) s) else None)"

lemma strip_prefix_append [simp]: "strip_prefix p (p @ s) = Some s"
  by (simp add: strip_prefix_def)

lemma strip_prefix_Some_iff: "strip_prefix p s = Some t \<longleftrightarrow> s = p @ t"
  by (auto simp: strip_prefix_def starts_with_def) (metis append_take_drop_id)

text \<open>\<open>str::split_once\<close> on a one-byte separator.\<close>

fun split_once :: "char \<Rightarrow> string \<Rightarrow> (string \<times> string) option" where
  "split_once c [] = None"
| "split_once c (x # xs) =
     (if x = c then Some ([], xs)
      else map_option (\<lambda>(a, b). (x # a, b)) (split_once c xs))"

lemma split_once_None_iff: "split_once c s = None \<longleftrightarrow> c \<notin> set s"
  by (induction s) auto

lemma split_once_Some_iff:
  "split_once c s = Some (a, b) \<longleftrightarrow> s = a @ c # b \<and> c \<notin> set a"
proof (induction s arbitrary: a)
  case (Cons x xs)
  then show ?case by (cases a) auto
qed simp

lemma split_once_append [simp]:
  "c \<notin> set a \<Longrightarrow> split_once c (a @ c # b) = Some (a, b)"
  by (simp add: split_once_Some_iff)

text \<open>\<open>str::split\<close> on a one-byte separator: never empty.\<close>

fun split_char :: "char \<Rightarrow> string \<Rightarrow> string list" where
  "split_char c [] = [[]]"
| "split_char c (x # xs) =
     (if x = c then [] # split_char c xs
      else (case split_char c xs of [] \<Rightarrow> [[x]] | y # ys \<Rightarrow> (x # y) # ys))"

lemma split_char_nonempty [simp]: "split_char c s \<noteq> []"
  by (induction s) (auto split: list.splits)

lemma split_char_no_sep: "c \<notin> set s \<Longrightarrow> split_char c s = [s]"
  by (induction s) auto

lemma split_char_append_sep:
  "c \<notin> set a \<Longrightarrow> split_char c (a @ c # b) = a # split_char c b"
  by (induction a) auto

lemma split_char_join:
  "xs \<noteq> [] \<Longrightarrow> (\<And>x. x \<in> set xs \<Longrightarrow> c \<notin> set x) \<Longrightarrow> split_char c (join [c] xs) = xs"
  by (induction "[c]" xs rule: join.induct)
    (auto simp: split_char_no_sep split_char_append_sep)

lemma split_char_parts: "y \<in> set (split_char c s) \<Longrightarrow> c \<notin> set y"
proof (induction s arbitrary: y)
  case (Cons x xs)
  then show ?case
    by (cases "split_char c xs") (auto split: if_splits)
qed simp

lemma join_split_char: "join [c] (split_char c s) = s"
proof (induction s)
  case (Cons x xs)
  then show ?case
    by (cases "split_char c xs"; cases "tl (split_char c xs)") auto
qed simp

subsection \<open>UTF-8\<close>

text \<open>
  \<open>chars\<close> is \<open>str::chars\<close>: the Unicode scalar values of a UTF-8 byte sequence. A Rust
  \<open>String\<close> is well-formed UTF-8, so the decoder reads the length from the lead byte.
\<close>

definition cont :: "char \<Rightarrow> nat" where
  "cont c = of_char c mod 64"

fun chars :: "string \<Rightarrow> nat list" where
  "chars [] = []"
| "chars (a # s) =
     (let n = (of_char a :: nat) in
      if n < 128 then n # chars s
      else if n < 224 then
        (case s of b # t \<Rightarrow> ((n mod 32) * 64 + cont b) # chars t | [] \<Rightarrow> [])
      else if n < 240 then
        (case s of b # c # t \<Rightarrow> ((n mod 16) * 4096 + cont b * 64 + cont c) # chars t
         | _ \<Rightarrow> [])
      else
        (case s of b # c # d # t \<Rightarrow>
           ((n mod 8) * 262144 + cont b * 4096 + cont c * 64 + cont d) # chars t
         | _ \<Rightarrow> []))"

lemma chars_ascii: "(\<And>c. c \<in> set s \<Longrightarrow> (of_char c :: nat) < 128) \<Longrightarrow> chars s = map of_char s"
  by (induction s) (auto simp: Let_def)

text \<open>\<open>str::from_utf8\<close> accepts exactly the well-formed sequences of RFC 3629.\<close>

definition byte_in :: "nat \<Rightarrow> nat \<Rightarrow> char \<Rightarrow> bool" where
  "byte_in lo hi c \<longleftrightarrow> lo \<le> of_char c \<and> of_char c \<le> hi"

fun valid_utf8 :: "string \<Rightarrow> bool" where
  "valid_utf8 [] = True"
| "valid_utf8 (a # s) =
     (let n = (of_char a :: nat) in
      if n < 128 then valid_utf8 s
      else if n < 194 then False
      else if n < 224 then
        (case s of b # t \<Rightarrow> byte_in 128 191 b \<and> valid_utf8 t | [] \<Rightarrow> False)
      else if n < 240 then
        (case s of b # c # t \<Rightarrow>
           byte_in (if n = 224 then 160 else 128) (if n = 237 then 159 else 191) b \<and>
           byte_in 128 191 c \<and> valid_utf8 t
         | _ \<Rightarrow> False)
      else if n < 245 then
        (case s of b # c # d # t \<Rightarrow>
           byte_in (if n = 240 then 144 else 128) (if n = 244 then 143 else 191) b \<and>
           byte_in 128 191 c \<and> byte_in 128 191 d \<and> valid_utf8 t
         | _ \<Rightarrow> False)
      else False)"

lemma valid_utf8_ascii: "(\<And>c. c \<in> set s \<Longrightarrow> (of_char c :: nat) < 128) \<Longrightarrow> valid_utf8 s"
  by (induction s) (auto simp: Let_def)

subsection \<open>Decimal numbers\<close>

text \<open>\<open>Display\<close> of an unsigned integer.\<close>

fun show_nat :: "nat \<Rightarrow> string" where
  "show_nat n =
     (if n < 10 then [char_of (48 + n)] else show_nat (n div 10) @ [char_of (48 + n mod 10)])"

declare show_nat.simps [simp del]

section \<open>Ordered maps\<close>

type_synonym 'v btree = "(string \<times> 'v) list"

definition bt_ok :: "'v btree \<Rightarrow> bool" where
  "bt_ok m = sorted_wrt (<) (map fst m)"

fun bt_insert :: "string \<Rightarrow> 'v \<Rightarrow> 'v btree \<Rightarrow> 'v btree" where
  "bt_insert k v [] = [(k, v)]"
| "bt_insert k v ((k', v') # m) =
     (if k < k' then (k, v) # (k', v') # m
      else if k = k' then (k, v) # m
      else (k', v') # bt_insert k v m)"

text \<open>Collecting an iterator of pairs into a \<open>BTreeMap\<close>: later entries win.\<close>

definition bt_of_list :: "(string \<times> 'v) list \<Rightarrow> 'v btree" where
  "bt_of_list kvs = foldl (\<lambda>m (k, v). bt_insert k v m) [] kvs"

lemma bt_ok_simps [simp, btree_simps]:
  "bt_ok []"
  "bt_ok ((k, v) # m) \<longleftrightarrow> (\<forall>k' \<in> fst ` set m. k < k') \<and> bt_ok m"
  by (auto simp: bt_ok_def)

lemma bt_insert_keys [btree_simps]: "fst ` set (bt_insert k v m) = insert k (fst ` set m)"
proof (induction m)
  case (Cons kv m)
  obtain k' v' where "kv = (k', v')" by force
  with Cons.IH show ?case by (simp add: insert_commute)
qed simp

lemma bt_insert_ok [simp, intro, btree_simps]: "bt_ok m \<Longrightarrow> bt_ok (bt_insert k v m)"
proof (induction m)
  case (Cons kv m)
  obtain k' v' where kv: "kv = (k', v')" by force
  consider "k < k'" | "k = k'" | "k' < k" by force
  then show ?case
    using Cons by cases (auto simp: kv bt_insert_keys intro: order_less_trans)
qed simp

lemma bt_insert_lookup [simp, btree_simps]:
  "bt_ok m \<Longrightarrow> map_of (bt_insert k v m) = (map_of m)(k \<mapsto> v)"
  by (induction m) (auto simp: fun_eq_iff)

lemma bt_insert_append_max:
  "(\<forall>k' \<in> fst ` set m. k' < k) \<Longrightarrow> bt_insert k v m = m @ [(k, v)]"
  by (induction m) (auto dest: order_less_asym)

lemma bt_ok_append:
  "bt_ok (m @ n) \<longleftrightarrow> bt_ok m \<and> bt_ok n \<and> (\<forall>a \<in> fst ` set m. \<forall>b \<in> fst ` set n. a < b)"
  by (auto simp: bt_ok_def sorted_wrt_append)

lemma bt_of_list_ok [simp, btree_simps]: "bt_ok (bt_of_list kvs)"
proof -
  have "bt_ok m \<Longrightarrow> bt_ok (foldl (\<lambda>m (k, v). bt_insert k v m) m kvs)" for m
    by (induction kvs arbitrary: m) auto
  then show ?thesis by (simp add: bt_of_list_def)
qed

lemma bt_of_list_foldl_append:
  "bt_ok (m @ n) \<Longrightarrow> foldl (\<lambda>m (k, v). bt_insert k v m) m n = m @ n"
proof (induction n arbitrary: m)
  case (Cons kv n)
  obtain k v where kv: "kv = (k, v)" by force
  from Cons.prems have "bt_insert k v m = m @ [(k, v)]"
    by (intro bt_insert_append_max) (auto simp: bt_ok_append kv)
  with Cons show ?case by (simp add: kv)
qed simp

text \<open>Re-inserting the entries of an ordered map in order rebuilds it.\<close>

lemma bt_of_list_id [simp, btree_simps]: "bt_ok m \<Longrightarrow> bt_of_list m = m"
  using bt_of_list_foldl_append [of "[]" m] by (simp add: bt_of_list_def)

lemma bt_ok_map [simp, btree_simps]:
  "bt_ok (map (\<lambda>(k, v). (k, f k v)) m) \<longleftrightarrow> bt_ok m"
  by (induction m) (force simp: image_image split_beta)+

lemma bt_ok_distinct: "bt_ok m \<Longrightarrow> distinct (map fst m)"
  by (auto simp: bt_ok_def strict_sorted_iff)

section \<open>Transition systems\<close>

text \<open>
  The safety argument every state machine of the development uses: an invariant that
  holds initially and is kept by every step holds in every reachable state.
\<close>

locale inductive_invariant =
  fixes init :: "'s \<Rightarrow> bool"
    and step :: "'s \<Rightarrow> 's \<Rightarrow> bool"
    and inv :: "'s \<Rightarrow> bool"
  assumes init_inv: "init s \<Longrightarrow> inv s"
    and step_inv: "inv s \<Longrightarrow> step s t \<Longrightarrow> inv t"
begin

lemma steps_inv: "step\<^sup>*\<^sup>* s t \<Longrightarrow> inv s \<Longrightarrow> inv t"
  by (induction rule: rtranclp_induct) (auto intro: step_inv)

lemma reach_inv: "init s \<Longrightarrow> step\<^sup>*\<^sup>* s t \<Longrightarrow> inv t"
  by (auto intro: steps_inv init_inv)

end

end
