(* ===== verification/Protocol.thy ===== *)
theory Protocol
  imports Prelude
begin

text \<open>
  The shared types of the \<open>evix-protocol\<close> crate: evaluation input and configuration with
  its builder, derivations, evaluation errors, events, diffs, query filters, and the
  daemon's requests and responses with their protocol-version check
  (\<open>crates/evix-protocol/src/lib.rs\<close>), together with the conversions between the wire
  configuration and \<open>evix::Config\<close> (\<open>crates/evix/src/config.rs\<close>). JSON values are the
  public enum \<open>serde_json::Value\<close>; its object map is a \<open>BTreeMap\<close>, as the workspace does
  not enable \<open>preserve_order\<close>.
\<close>

section \<open>JSON values\<close>

datatype number = PosInt u64 | NegInt u64 | Float u64

datatype json =
    JNull
  | JBool bool
  | JNumber number
  | JString string
  | JArray "json list"
  | JObject "(string \<times> json) list"

type_synonym json_map = "json btree"

text \<open>\<open>Value::get\<close> on a string index, \<open>as_str\<close>, \<open>as_bool\<close>, \<open>as_object\<close>, \<open>is_null\<close>.\<close>

fun json_get :: "json \<Rightarrow> string \<Rightarrow> json option" where
  "json_get (JObject m) k = map_of m k"
| "json_get _ k = None"

fun as_str :: "json \<Rightarrow> string option" where
  "as_str (JString s) = Some s"
| "as_str _ = None"

fun as_bool :: "json \<Rightarrow> bool option" where
  "as_bool (JBool b) = Some b"
| "as_bool _ = None"

fun as_object :: "json \<Rightarrow> json_map option" where
  "as_object (JObject m) = Some m"
| "as_object _ = None"

text \<open>\<open>json!\<close> of a string list, and \<open>from_value::<Vec<String>>\<close>.\<close>

definition json_strings :: "string list \<Rightarrow> json" where
  "json_strings xs = JArray (map JString xs)"

definition strings_of_json :: "json \<Rightarrow> string list result" where
  "strings_of_json v =
     (case v of
        JArray vs \<Rightarrow> collect_results (\<lambda>x. case as_str x of Some s \<Rightarrow> Inr s | None \<Rightarrow> external ''serde_json'') vs
      | _ \<Rightarrow> external ''serde_json'')"

lemma strings_of_json_strings [simp, codec_simps]: "strings_of_json (json_strings xs) = Inr xs"
  by (induction xs) (simp_all add: strings_of_json_def json_strings_def)

lemma strings_of_json_inverse: "strings_of_json v = Inr xs \<Longrightarrow> v = json_strings xs"
proof (cases v)
  case (JArray vs)
  assume "strings_of_json v = Inr xs"
  with JArray have "list_all2 (\<lambda>x y. x = JString y) vs xs"
    by (auto simp: strings_of_json_def collect_results_Ok_iff list_all2_conv_all_nth
        split: option.splits elim!: as_str.elims)
  then have "vs = map JString xs"
    by (induction rule: list_all2_induct) auto
  with JArray show ?thesis by (simp add: json_strings_def)
qed (simp_all add: strings_of_json_def)

section \<open>Evaluation configuration\<close>

type_synonym path = string

datatype input = InputFlake string | InputExpr string | InputFile path

datatype auto_arg = ArgExpr string | ArgStr string

record remote =
  r_endpoint :: string
  r_systems :: "string list"
  r_workers :: usize
  r_token :: "string option"

record wire_config =
  c_input :: input
  c_auto_args :: "(string \<times> auto_arg) list"
  c_force_recurse :: bool
  c_gc_roots_dir :: "path option"
  c_workers :: usize
  c_max_memory_size :: usize
  c_item_timeout_seconds :: u64
  c_meta :: bool
  c_show_input_drvs :: bool
  c_override_inputs :: "(string \<times> string) list"
  c_nix_options :: "(string \<times> string) list"
  c_remotes :: "remote list"

text \<open>\<open>evix::Config\<close> has one more field, which never crosses the wire.\<close>

record config = wire_config +
  c_worker_exe :: "path option"

definition DAEMON_PROTOCOL_VERSION :: u32 where
  "DAEMON_PROTOCOL_VERSION = 2"

definition DEFAULT_ITEM_TIMEOUT_SECONDS :: u64 where
  "DEFAULT_ITEM_TIMEOUT_SECONDS = 30 * 60"

definition default_wire_config :: wire_config where
  "default_wire_config = \<lparr>
     c_input = InputExpr ''{}'',
     c_auto_args = [],
     c_force_recurse = False,
     c_gc_roots_dir = None,
     c_workers = 1,
     c_max_memory_size = 4096,
     c_item_timeout_seconds = DEFAULT_ITEM_TIMEOUT_SECONDS,
     c_meta = False,
     c_show_input_drvs = False,
     c_override_inputs = [],
     c_nix_options = [],
     c_remotes = []\<rparr>"

definition wire_config_expr :: "string \<Rightarrow> wire_config" where
  "wire_config_expr e = default_wire_config\<lparr>c_input := InputExpr e\<rparr>"

definition wire_config_file :: "path \<Rightarrow> wire_config" where
  "wire_config_file p = default_wire_config\<lparr>c_input := InputFile p\<rparr>"

definition wire_config_flake :: "string \<Rightarrow> wire_config" where
  "wire_config_flake r = default_wire_config\<lparr>c_input := InputFlake r\<rparr>"

text \<open>
  The chainable builder. \<open>ConfigBuilder\<close> wraps the configuration it changes, so each method
  is a function on (any extension of) the configuration record; \<open>build\<close> returns it.
\<close>

definition builder_force_recurse :: "bool \<Rightarrow> 'a wire_config_scheme \<Rightarrow> 'a wire_config_scheme" where
  "builder_force_recurse b c = c\<lparr>c_force_recurse := b\<rparr>"

definition builder_gc_roots_dir :: "path \<Rightarrow> 'a wire_config_scheme \<Rightarrow> 'a wire_config_scheme" where
  "builder_gc_roots_dir p c = c\<lparr>c_gc_roots_dir := Some p\<rparr>"

definition builder_workers :: "usize \<Rightarrow> 'a wire_config_scheme \<Rightarrow> 'a wire_config_scheme" where
  "builder_workers n c = c\<lparr>c_workers := n\<rparr>"

definition builder_max_memory_size :: "usize \<Rightarrow> 'a wire_config_scheme \<Rightarrow> 'a wire_config_scheme" where
  "builder_max_memory_size n c = c\<lparr>c_max_memory_size := n\<rparr>"

definition builder_item_timeout_seconds :: "u64 \<Rightarrow> 'a wire_config_scheme \<Rightarrow> 'a wire_config_scheme" where
  "builder_item_timeout_seconds n c = c\<lparr>c_item_timeout_seconds := n\<rparr>"

definition builder_meta :: "bool \<Rightarrow> 'a wire_config_scheme \<Rightarrow> 'a wire_config_scheme" where
  "builder_meta b c = c\<lparr>c_meta := b\<rparr>"

definition builder_show_input_drvs :: "bool \<Rightarrow> 'a wire_config_scheme \<Rightarrow> 'a wire_config_scheme" where
  "builder_show_input_drvs b c = c\<lparr>c_show_input_drvs := b\<rparr>"

definition builder_auto_arg_expr :: "string \<Rightarrow> string \<Rightarrow> 'a wire_config_scheme \<Rightarrow> 'a wire_config_scheme" where
  "builder_auto_arg_expr n v c = c\<lparr>c_auto_args := c_auto_args c @ [(n, ArgExpr v)]\<rparr>"

definition builder_auto_arg_str :: "string \<Rightarrow> string \<Rightarrow> 'a wire_config_scheme \<Rightarrow> 'a wire_config_scheme" where
  "builder_auto_arg_str n v c = c\<lparr>c_auto_args := c_auto_args c @ [(n, ArgStr v)]\<rparr>"

definition builder_override_input :: "string \<Rightarrow> string \<Rightarrow> 'a wire_config_scheme \<Rightarrow> 'a wire_config_scheme" where
  "builder_override_input n r c = c\<lparr>c_override_inputs := c_override_inputs c @ [(n, r)]\<rparr>"

definition builder_nix_option :: "string \<Rightarrow> string \<Rightarrow> 'a wire_config_scheme \<Rightarrow> 'a wire_config_scheme" where
  "builder_nix_option k v c = c\<lparr>c_nix_options := c_nix_options c @ [(k, v)]\<rparr>"

definition builder_remote :: "remote \<Rightarrow> 'a wire_config_scheme \<Rightarrow> 'a wire_config_scheme" where
  "builder_remote r c = c\<lparr>c_remotes := c_remotes c @ [r]\<rparr>"

definition builder_worker_exe :: "path \<Rightarrow> config \<Rightarrow> config" where
  "builder_worker_exe p c = c\<lparr>c_worker_exe := Some p\<rparr>"

text \<open>\<open>impl Default for evix::Config\<close>, and the conversions between the two types.\<close>

definition DEFAULT_WORKERS :: usize where
  "DEFAULT_WORKERS = 1"

definition DEFAULT_MAX_MEMORY_MB :: usize where
  "DEFAULT_MAX_MEMORY_MB = 4096"

definition default_config :: config where
  "default_config = \<lparr>
     c_input = InputExpr ''{}'',
     c_auto_args = [],
     c_force_recurse = False,
     c_gc_roots_dir = None,
     c_workers = DEFAULT_WORKERS,
     c_max_memory_size = DEFAULT_MAX_MEMORY_MB,
     c_item_timeout_seconds = DEFAULT_ITEM_TIMEOUT_SECONDS,
     c_meta = False,
     c_show_input_drvs = False,
     c_override_inputs = [],
     c_nix_options = [],
     c_remotes = [],
     c_worker_exe = None\<rparr>"

definition config_of_wire :: "wire_config \<Rightarrow> config" where
  "config_of_wire c = \<lparr>
     c_input = c_input c,
     c_auto_args = c_auto_args c,
     c_force_recurse = c_force_recurse c,
     c_gc_roots_dir = c_gc_roots_dir c,
     c_workers = c_workers c,
     c_max_memory_size = c_max_memory_size c,
     c_item_timeout_seconds = c_item_timeout_seconds c,
     c_meta = c_meta c,
     c_show_input_drvs = c_show_input_drvs c,
     c_override_inputs = c_override_inputs c,
     c_nix_options = c_nix_options c,
     c_remotes = c_remotes c,
     c_worker_exe = None\<rparr>"

definition wire_of_config :: "config \<Rightarrow> wire_config" where
  "wire_of_config c = \<lparr>
     c_input = c_input c,
     c_auto_args = c_auto_args c,
     c_force_recurse = c_force_recurse c,
     c_gc_roots_dir = c_gc_roots_dir c,
     c_workers = c_workers c,
     c_max_memory_size = c_max_memory_size c,
     c_item_timeout_seconds = c_item_timeout_seconds c,
     c_meta = c_meta c,
     c_show_input_drvs = c_show_input_drvs c,
     c_override_inputs = c_override_inputs c,
     c_nix_options = c_nix_options c,
     c_remotes = c_remotes c\<rparr>"

lemma wire_of_config_of_wire [simp, codec_simps]: "wire_of_config (config_of_wire c) = c"
  by (simp add: wire_of_config_def config_of_wire_def)

lemma config_of_wire_of_config [simp, codec_simps]:
  "config_of_wire (wire_of_config c) = c\<lparr>c_worker_exe := None\<rparr>"
  by (simp add: wire_of_config_def config_of_wire_def)

section \<open>Derivations, errors, events\<close>

record derivation =
  d_attr :: string
  d_attr_path :: "string list"
  d_name :: string
  d_system :: string
  d_drv_path :: string
  d_outputs :: "string option btree"
  d_meta :: "json option"
  d_input_drvs :: "string list btree"
  d_constituents :: "string list option"
  d_gc_root_error :: "string option"

record eval_error =
  e_attr :: string
  e_attr_path :: "string list"
  e_error :: string
  e_fatal :: bool

record diff =
  df_added :: "derivation list"
  df_removed :: "derivation list"
  df_errors :: "eval_error list"

record query_filter =
  f_systems :: "string list option"
  f_attr_prefix :: "string list option"
  f_attr_prefixes :: "string list list option"
  f_attrs :: "string list list option"
  f_names :: "string list option"
  f_drv_paths :: "string list option"
  f_include_patterns :: "string list option"
  f_exclude_patterns :: "string list option"

definition default_filter :: query_filter where
  "default_filter = \<lparr>f_systems = None, f_attr_prefix = None, f_attr_prefixes = None,
     f_attrs = None, f_names = None, f_drv_paths = None, f_include_patterns = None,
     f_exclude_patterns = None\<rparr>"

datatype event =
    Derivation derivation
  | AttrSet string "string list" "string list"
  | EventError eval_error

fun event_attr :: "event \<Rightarrow> string" where
  "event_attr (Derivation d) = d_attr d"
| "event_attr (AttrSet attr attr_path attrs) = attr"
| "event_attr (EventError e) = e_attr e"

fun event_attr_path :: "event \<Rightarrow> string list" where
  "event_attr_path (Derivation d) = d_attr_path d"
| "event_attr_path (AttrSet attr attr_path attrs) = attr_path"
| "event_attr_path (EventError e) = e_attr_path e"

text \<open>The Rust types hold \<open>BTreeMap\<close>s and JSON objects, so a value's maps are ordered.\<close>

fun json_ok :: "json \<Rightarrow> bool" where
  "json_ok (JArray vs) = (\<forall>v \<in> set vs. json_ok v)"
| "json_ok (JObject m) = (bt_ok m \<and> (\<forall>kv \<in> set m. json_ok (snd kv)))"
| "json_ok _ = True"

definition derivation_ok :: "derivation \<Rightarrow> bool" where
  "derivation_ok d \<longleftrightarrow> bt_ok (d_outputs d) \<and> bt_ok (d_input_drvs d) \<and>
     (\<forall>m. d_meta d = Some m \<longrightarrow> json_ok m)"

fun event_ok :: "event \<Rightarrow> bool" where
  "event_ok (Derivation d) = derivation_ok d"
| "event_ok _ = True"

section \<open>Daemon requests and responses\<close>

datatype request =
    RequestEval u32 wire_config
  | RequestReplay u32 wire_config
  | RequestWatch u32 wire_config
  | RequestQuery u32 wire_config query_filter
  | RequestDiff u32 wire_config

definition request_eval :: "wire_config \<Rightarrow> request" where
  "request_eval c = RequestEval DAEMON_PROTOCOL_VERSION c"

definition request_replay :: "wire_config \<Rightarrow> request" where
  "request_replay c = RequestReplay DAEMON_PROTOCOL_VERSION c"

definition request_watch :: "wire_config \<Rightarrow> request" where
  "request_watch c = RequestWatch DAEMON_PROTOCOL_VERSION c"

definition request_query :: "wire_config \<Rightarrow> query_filter \<Rightarrow> request" where
  "request_query c f = RequestQuery DAEMON_PROTOCOL_VERSION c f"

definition request_diff :: "wire_config \<Rightarrow> request" where
  "request_diff c = RequestDiff DAEMON_PROTOCOL_VERSION c"

record protocol_version_error =
  pv_actual :: u32
  pv_expected :: u32

fun request_version :: "request \<Rightarrow> u32" where
  "request_version (RequestEval v c) = v"
| "request_version (RequestReplay v c) = v"
| "request_version (RequestWatch v c) = v"
| "request_version (RequestQuery v c f) = v"
| "request_version (RequestDiff v c) = v"

definition validate_protocol :: "request \<Rightarrow> protocol_version_error + unit" where
  "validate_protocol r =
     (let actual = request_version r in
      if actual = DAEMON_PROTOCOL_VERSION then Inr ()
      else Inl \<lparr>pv_actual = actual, pv_expected = DAEMON_PROTOCOL_VERSION\<rparr>)"

datatype response =
    ResponseEvent event
  | ResponseDiff diff
  | ResponseDone
  | ResponseError string

definition response_derivation_event :: "derivation \<Rightarrow> response" where
  "response_derivation_event d = ResponseEvent (Derivation d)"

lemma validate_protocol_iff:
  "validate_protocol r = Inr () \<longleftrightarrow> request_version r = DAEMON_PROTOCOL_VERSION"
  by (simp add: validate_protocol_def Let_def)

end
