(* ===== verification/Warm_State.thy ===== *)
theory Warm_State
  imports Protocol
begin

text \<open>
  The warm evaluation state of \<open>crates/evix/src/state.rs\<close>: the derivation graph, the event
  accumulator, graph diffs, and the query filter with its dynamic-programming wildcard
  matcher. The matcher is shown equal to the language its pattern denotes, the filter to
  the intersection of its populated fields, and a diff to be a complete change set.
\<close>

section \<open>Graph and accumulator\<close>

type_synonym attr_path = "string list"

type_synonym eval_graph = "(attr_path \<times> derivation) list"

record warm_state =
  ws_graph :: eval_graph
  ws_errors :: "eval_error list"
  ws_completed :: bool
  ws_error :: "string option"

definition default_warm_state :: warm_state where
  "default_warm_state = \<lparr>ws_graph = [], ws_errors = [], ws_completed = False, ws_error = None\<rparr>"

record eval_accumulator =
  acc_graph :: eval_graph
  acc_errors :: "eval_error list"

definition default_accumulator :: eval_accumulator where
  "default_accumulator = \<lparr>acc_graph = [], acc_errors = []\<rparr>"

fun record_event :: "event \<Rightarrow> eval_accumulator \<Rightarrow> eval_accumulator" where
  "record_event (Derivation drv) acc =
     acc\<lparr>acc_graph := AList.update (d_attr_path drv) drv (acc_graph acc)\<rparr>"
| "record_event (EventError err) acc = acc\<lparr>acc_errors := acc_errors acc @ [err]\<rparr>"
| "record_event (AttrSet _ _ _) acc = acc"

definition accumulate :: "event list \<Rightarrow> eval_accumulator" where
  "accumulate evs = foldl (\<lambda>acc e. record_event e acc) default_accumulator evs"

text \<open>A graph keys every derivation by its own attribute path, once.\<close>

definition graph_ok :: "eval_graph \<Rightarrow> bool" where
  "graph_ok g \<longleftrightarrow> distinct (map fst g) \<and> (\<forall>(p, d) \<in> set g. d_attr_path d = p)"

lemma graph_ok_lookup: "graph_ok g \<Longrightarrow> map_of g p = Some d \<longleftrightarrow> (p, d) \<in> set g"
  by (simp add: graph_ok_def)

lemma graph_ok_path: "graph_ok g \<Longrightarrow> (p, d) \<in> set g \<Longrightarrow> d_attr_path d = p"
  by (auto simp: graph_ok_def)

lemma graph_ok_update [intro]: "graph_ok g \<Longrightarrow> graph_ok (AList.update (d_attr_path d) d g)"
  unfolding graph_ok_def
proof (intro conjI ballI)
  assume g: "distinct (map fst g) \<and> (\<forall>(p, d) \<in> set g. d_attr_path d = p)"
  then show "distinct (map fst (AList.update (d_attr_path d) d g))"
    by (simp add: distinct_update)
  fix x assume x: "x \<in> set (AList.update (d_attr_path d) d g)"
  obtain p e where pe: "x = (p, e)" by force
  have "distinct (map fst (AList.update (d_attr_path d) d g))"
    using g by (simp add: distinct_update)
  with x pe have "map_of (AList.update (d_attr_path d) d g) p = Some e" by simp
  then have "((map_of g)(d_attr_path d \<mapsto> d)) p = Some e"
    by (simp add: update_conv')
  then show "case x of (p, d) \<Rightarrow> d_attr_path d = p"
    using g pe by (auto split: if_splits dest: map_of_SomeD)
qed

lemma accumulate_snoc: "accumulate (evs @ [e]) = record_event e (accumulate evs)"
  by (simp add: accumulate_def)

lemma accumulate_Nil: "accumulate [] = default_accumulator"
  by (simp add: accumulate_def)

lemma accumulate_graph_ok: "graph_ok (acc_graph (accumulate evs))"
proof (induction evs rule: rev_induct)
  case Nil
  show ?case by (simp add: accumulate_Nil default_accumulator_def graph_ok_def)
next
  case (snoc e evs)
  then show ?case by (cases e) (auto simp: accumulate_snoc)
qed

definition event_errors :: "event list \<Rightarrow> eval_error list" where
  "event_errors evs = concat (map (\<lambda>e. case e of EventError x \<Rightarrow> [x] | _ \<Rightarrow> []) evs)"

definition event_derivations :: "event list \<Rightarrow> derivation list" where
  "event_derivations evs = concat (map (\<lambda>e. case e of Derivation d \<Rightarrow> [d] | _ \<Rightarrow> []) evs)"

lemma accumulate_errors: "acc_errors (accumulate evs) = event_errors evs"
proof (induction evs rule: rev_induct)
  case Nil
  show ?case by (simp add: accumulate_Nil default_accumulator_def event_errors_def)
next
  case (snoc e evs)
  then show ?case by (cases e) (simp_all add: accumulate_snoc event_errors_def)
qed

lemma accumulate_lookup:
  "map_of (acc_graph (accumulate evs)) =
     map_of (rev (map (\<lambda>d. (d_attr_path d, d)) (event_derivations evs)))"
proof (induction evs rule: rev_induct)
  case Nil
  show ?case by (simp add: accumulate_Nil default_accumulator_def event_derivations_def)
next
  case (snoc e evs)
  then show ?case
    by (cases e) (simp_all add: accumulate_snoc event_derivations_def update_conv')
qed

section \<open>Diffs\<close>

definition same_drv :: "eval_graph \<Rightarrow> attr_path \<times> derivation \<Rightarrow> bool" where
  "same_drv other = (\<lambda>(path, drv).
     case map_of other path of
       Some d \<Rightarrow> d_drv_path d = d_drv_path drv
     | None \<Rightarrow> False)"

definition diff_graphs :: "eval_graph \<Rightarrow> eval_graph \<Rightarrow> eval_error list \<Rightarrow> diff" where
  "diff_graphs previous current errors =
     (let removed = map snd (filter (\<lambda>e. \<not> same_drv current e) previous);
          added = map snd (filter (\<lambda>e. \<not> same_drv previous e) current)
      in \<lparr>df_added = added, df_removed = removed, df_errors = errors\<rparr>)"

lemma diff_graphs_simps [simp]:
  "df_removed (diff_graphs p c e) = map snd (filter (\<lambda>x. \<not> same_drv c x) p)"
  "df_added (diff_graphs p c e) = map snd (filter (\<lambda>x. \<not> same_drv p x) c)"
  "df_errors (diff_graphs p c e) = e"
  by (simp_all add: diff_graphs_def Let_def)

text \<open>The \<open>.drv\<close> path a graph gives an attribute path: what a diff compares.\<close>

definition drv_at :: "eval_graph \<Rightarrow> attr_path \<Rightarrow> string option" where
  "drv_at g p = map_option d_drv_path (map_of g p)"

lemma same_drv_iff: "same_drv g (p, d) \<longleftrightarrow> drv_at g p = Some (d_drv_path d)"
  by (auto simp: same_drv_def drv_at_def split: option.splits)

lemma diff_removed_iff:
  assumes "graph_ok previous"
  shows "d \<in> set (df_removed (diff_graphs previous current errors)) \<longleftrightarrow>
    map_of previous (d_attr_path d) = Some d \<and>
    drv_at current (d_attr_path d) \<noteq> Some (d_drv_path d)"
  using assms by (force simp: graph_ok_lookup same_drv_iff dest: graph_ok_path)

lemma diff_added_iff:
  assumes "graph_ok current"
  shows "d \<in> set (df_added (diff_graphs previous current errors)) \<longleftrightarrow>
    map_of current (d_attr_path d) = Some d \<and>
    drv_at previous (d_attr_path d) \<noteq> Some (d_drv_path d)"
  using assms by (force simp: graph_ok_lookup same_drv_iff dest: graph_ok_path)

text \<open>Consuming a diff: drop what was removed, then put in what was added.\<close>

definition apply_diff :: "diff \<Rightarrow> eval_graph \<Rightarrow> (attr_path \<rightharpoonup> derivation)" where
  "apply_diff df g =
     (map_of g |` (- d_attr_path ` set (df_removed df)))
       ++ map_of (map (\<lambda>d. (d_attr_path d, d)) (df_added df))"

lemma distinct_diff_paths:
  "graph_ok g \<Longrightarrow> distinct (map d_attr_path (map snd (filter P g)))"
proof -
  assume g: "graph_ok g"
  then have eq: "map d_attr_path (map snd (filter P g)) = map fst (filter P g)"
    by (auto simp: graph_ok_def)
  show ?thesis
    unfolding eq using g by (simp add: graph_ok_def distinct_map_filter)
qed

lemma map_of_by_path:
  assumes "distinct (map d_attr_path ds)"
  shows "map_of (map (\<lambda>d. (d_attr_path d, d)) ds) p = Some d \<longleftrightarrow> d \<in> set ds \<and> d_attr_path d = p"
proof -
  from assms have "distinct (map fst (map (\<lambda>d. (d_attr_path d, d)) ds))"
    by (simp add: comp_def)
  then show ?thesis by auto
qed

lemma apply_diff_drv:
  assumes "graph_ok previous" and "graph_ok current"
  shows "map_option d_drv_path (apply_diff (diff_graphs previous current errors) previous p) =
    drv_at current p"
proof -
  let ?df = "diff_graphs previous current errors"
  let ?add = "map_of (map (\<lambda>d. (d_attr_path d, d)) (df_added ?df))"
  have add: "?add p = Some d \<longleftrightarrow> d \<in> set (df_added ?df) \<and> d_attr_path d = p" for d
    using distinct_diff_paths [OF assms(2)] by (intro map_of_by_path) simp
  show ?thesis
  proof (cases "?add p")
    case (Some d)
    then have "d \<in> set (df_added ?df)" and "d_attr_path d = p"
      using add by blast+
    then have "map_of current p = Some d"
      using diff_added_iff [OF assms(2)] by blast
    with Some show ?thesis by (simp add: apply_diff_def drv_at_def)
  next
    case None
    then have notadd: "d \<notin> set (df_added ?df)" if "d_attr_path d = p" for d
      using add that by auto
    have path: "map_of g p = Some d \<Longrightarrow> graph_ok g \<Longrightarrow> d_attr_path d = p" for g d
      by (auto dest: map_of_SomeD graph_ok_path)
    have keep: "p \<notin> d_attr_path ` set (df_removed ?df) \<longleftrightarrow> (\<forall>d. map_of previous p = Some d
        \<longrightarrow> drv_at current p = Some (d_drv_path d))"
      unfolding image_iff Bex_def diff_removed_iff [OF assms(1)]
      using path [OF _ assms(1)] by metis
    have cur: "drv_at previous p = Some (d_drv_path d)" if "map_of current p = Some d" for d
      using notadd [of d] path [OF that assms(2)] that
      unfolding diff_added_iff [OF assms(2)] by metis
    from None have "apply_diff ?df previous p =
        (map_of previous |` (- d_attr_path ` set (df_removed ?df))) p"
      by (simp add: apply_diff_def map_add_def)
    then show ?thesis
      using keep cur
      by (cases "map_of current p"; cases "map_of previous p")
        (auto simp: restrict_map_def drv_at_def simp del: diff_graphs_simps)
  qed
qed

section \<open>Query filters\<close>

definition attr_path_starts_with :: "string list \<Rightarrow> string list \<Rightarrow> bool" where
  "attr_path_starts_with attr_path pre \<longleftrightarrow>
     length pre \<le> length attr_path \<and>
     list_all (\<lambda>(actual, expected). actual = expected) (zip attr_path pre)"

lemma attr_path_starts_with_prefix: "attr_path_starts_with p pre \<longleftrightarrow> prefix pre p"
proof (induction pre arbitrary: p)
  case Nil
  show ?case by (simp add: attr_path_starts_with_def)
next
  case (Cons x pre)
  then show ?case by (cases p) (auto simp: attr_path_starts_with_def)
qed

subsection \<open>The wildcard matcher\<close>

type_synonym table = "bool list list"

definition WILD_STAR :: nat where "WILD_STAR = 42"

definition WILD_ANY :: nat where "WILD_ANY = 63"

definition cell_get :: "table \<Rightarrow> nat \<Rightarrow> nat \<Rightarrow> bool" where
  "cell_get m i j = m ! i ! j"

definition cell_set :: "table \<Rightarrow> nat \<Rightarrow> nat \<Rightarrow> bool \<Rightarrow> table" where
  "cell_set m i j b = m[i := (m ! i)[j := b]]"

definition wildcard_table :: "nat list \<Rightarrow> nat list \<Rightarrow> table" where
  "wildcard_table p v =
     cell_set (replicate (length p + 1) (replicate (length v + 1) False)) 0 0 True"

definition wildcard_column :: "nat list \<Rightarrow> table \<Rightarrow> nat \<Rightarrow> table" where
  "wildcard_column p m i =
     (if p ! (i - 1) = WILD_STAR then cell_set m i 0 (cell_get m (i - 1) 0) else m)"

definition wildcard_cell :: "nat list \<Rightarrow> nat list \<Rightarrow> nat \<Rightarrow> table \<Rightarrow> nat \<Rightarrow> table" where
  "wildcard_cell p v i m j =
     cell_set m i j
       (if p ! (i - 1) = WILD_STAR then cell_get m (i - 1) j \<or> cell_get m i (j - 1)
        else if p ! (i - 1) = WILD_ANY then cell_get m (i - 1) (j - 1)
        else p ! (i - 1) = v ! (j - 1) \<and> cell_get m (i - 1) (j - 1))"

definition wildcard_row :: "nat list \<Rightarrow> nat list \<Rightarrow> table \<Rightarrow> nat \<Rightarrow> table" where
  "wildcard_row p v m i = foldl (wildcard_cell p v i) m [1..<length v + 1]"

definition wildcard_matches :: "string \<Rightarrow> string \<Rightarrow> bool" where
  "wildcard_matches pattern val =
     (let p = chars pattern;
          v = chars val;
          m0 = wildcard_table p v;
          m1 = foldl (wildcard_column p) m0 [1..<length p + 1];
          m2 = foldl (wildcard_row p v) m1 [1..<length p + 1]
      in cell_get m2 (length p) (length v))"

text \<open>The language a pattern denotes: \<open>*\<close> any string, \<open>?\<close> any one character.\<close>

definition wild_piece :: "nat \<Rightarrow> nat list set" where
  "wild_piece c =
     (if c = WILD_STAR then UNIV else if c = WILD_ANY then {[x] | x. True} else {[c]})"

fun wild_lang :: "nat list \<Rightarrow> nat list set" where
  "wild_lang [] = {[]}"
| "wild_lang (c # p) = {a @ b | a b. a \<in> wild_piece c \<and> b \<in> wild_lang p}"

lemma wild_lang_append:
  "wild_lang (p @ q) = {a @ b | a b. a \<in> wild_lang p \<and> b \<in> wild_lang q}"
proof (induction p)
  case (Cons c p)
  have "wild_lang ((c # p) @ q) =
      {a @ b @ d | a b d. a \<in> wild_piece c \<and> b \<in> wild_lang p \<and> d \<in> wild_lang q}"
    using Cons.IH by auto
  also have "\<dots> = {a @ b | a b. a \<in> wild_lang (c # p) \<and> b \<in> wild_lang q}"
    by (auto) (metis append.assoc, blast)
  finally show ?case .
qed auto

lemma wild_lang_snoc:
  "v \<in> wild_lang (p @ [c]) \<longleftrightarrow> (\<exists>a b. v = a @ b \<and> a \<in> wild_lang p \<and> b \<in> wild_piece c)"
  by (auto simp: wild_lang_append)

lemma wild_lang_snoc_star:
  "v @ [x] \<in> wild_lang (p @ [WILD_STAR]) \<longleftrightarrow>
     v @ [x] \<in> wild_lang p \<or> v \<in> wild_lang (p @ [WILD_STAR])"
proof -
  have "v @ [x] = a @ b \<longleftrightarrow> (b = [] \<and> a = v @ [x]) \<or> (\<exists>b'. b = b' @ [x] \<and> v = a @ b')" for a b
    by (cases b rule: rev_cases) auto
  then show ?thesis
    by (auto simp: wild_lang_snoc wild_piece_def)
qed

lemma wild_lang_snoc_star_Nil: "[] \<in> wild_lang (p @ [WILD_STAR]) \<longleftrightarrow> [] \<in> wild_lang p"
  by (auto simp: wild_lang_snoc wild_piece_def)

lemma wild_lang_snoc_other:
  "c \<noteq> WILD_STAR \<Longrightarrow> v @ [x] \<in> wild_lang (p @ [c]) \<longleftrightarrow> (c = WILD_ANY \<or> c = x) \<and> v \<in> wild_lang p"
  by (auto simp: wild_lang_snoc wild_piece_def)

lemma wild_lang_snoc_other_Nil: "c \<noteq> WILD_STAR \<Longrightarrow> [] \<notin> wild_lang (p @ [c])"
  by (auto simp: wild_lang_snoc wild_piece_def split: if_splits)

lemmas wild_lang_snocs =
  wild_lang_snoc_star wild_lang_snoc_star_Nil wild_lang_snoc_other wild_lang_snoc_other_Nil

text \<open>Table bookkeeping.\<close>

definition table_dims :: "nat \<Rightarrow> nat \<Rightarrow> table \<Rightarrow> bool" where
  "table_dims n k m \<longleftrightarrow> length m = Suc n \<and> (\<forall>i \<le> n. length (m ! i) = Suc k)"

lemma table_dims_set [simp]: "table_dims n k m \<Longrightarrow> table_dims n k (cell_set m i j b)"
  by (cases "i < length m")
    (auto simp: table_dims_def cell_set_def nth_list_update list_update_beyond)

lemma cell_get_set [simp]:
  "table_dims n k m \<Longrightarrow> i \<le> n \<Longrightarrow> j \<le> k \<Longrightarrow>
    cell_get (cell_set m i j b) i' j' = (if i' = i \<and> j' = j then b else cell_get m i' j')"
  by (auto simp: table_dims_def cell_get_def cell_set_def nth_list_update)

text \<open>What a cell must hold: whether the value prefix is in the pattern prefix's language.\<close>

definition wild_at :: "nat list \<Rightarrow> nat list \<Rightarrow> nat \<Rightarrow> nat \<Rightarrow> bool" where
  "wild_at p v i j \<longleftrightarrow> take j v \<in> wild_lang (take i p)"

lemma wild_at_row_Suc:
  assumes "i < length p" and "j < length v"
  shows "wild_at p v (Suc i) (Suc j) \<longleftrightarrow>
    (if p ! i = WILD_STAR then wild_at p v i (Suc j) \<or> wild_at p v (Suc i) j
     else if p ! i = WILD_ANY then wild_at p v i j
     else p ! i = v ! j \<and> wild_at p v i j)"
  using assms
  by (cases "p ! i = WILD_STAR") (auto simp: wild_at_def take_Suc_conv_app_nth wild_lang_snocs)

lemma wild_at_col_Suc:
  "i < length p \<Longrightarrow> wild_at p v (Suc i) 0 \<longleftrightarrow> p ! i = WILD_STAR \<and> wild_at p v i 0"
  by (cases "p ! i = WILD_STAR") (auto simp: wild_at_def take_Suc_conv_app_nth wild_lang_snocs)

lemma wild_at_0_0 [simp]: "wild_at p v 0 0"
  by (simp add: wild_at_def)

lemma wild_at_0_Suc [simp]: "j < length v \<Longrightarrow> \<not> wild_at p v 0 (Suc j)"
  by (auto simp: wild_at_def)

lemma wildcard_table_spec:
  "table_dims (length p) (length v) (wildcard_table p v)"
  "i \<le> length p \<Longrightarrow> j \<le> length v \<Longrightarrow> cell_get (wildcard_table p v) i j \<longleftrightarrow> i = 0 \<and> j = 0"
proof -
  let ?m = "replicate (length p + 1) (replicate (length v + 1) False)"
  have d: "table_dims (length p) (length v) ?m"
    by (auto simp: table_dims_def nth_Cons' simp del: replicate_Suc)
  show "table_dims (length p) (length v) (wildcard_table p v)"
    using d by (simp add: wildcard_table_def)
  assume "i \<le> length p" and "j \<le> length v"
  then have "cell_get ?m i j = False"
    by (simp add: cell_get_def less_Suc_eq_le nth_replicate del: replicate_Suc)
  then show "cell_get (wildcard_table p v) i j \<longleftrightarrow> i = 0 \<and> j = 0"
    using cell_get_set [OF d, of 0 0 True i j] by (auto simp: wildcard_table_def)
qed

text \<open>The three loops keep these facts, one iteration at a time.\<close>

definition columns_done :: "nat list \<Rightarrow> nat list \<Rightarrow> nat \<Rightarrow> table \<Rightarrow> bool" where
  "columns_done p v n m \<longleftrightarrow> table_dims (length p) (length v) m \<and>
     (\<forall>i \<le> length p. \<forall>j \<le> length v.
        cell_get m i j = (if j = 0 \<and> i \<le> n then wild_at p v i 0 else i = 0 \<and> j = 0))"

definition cells_done :: "nat list \<Rightarrow> nat list \<Rightarrow> nat \<Rightarrow> table \<Rightarrow> nat \<Rightarrow> table \<Rightarrow> bool" where
  "cells_done p v i m n m' \<longleftrightarrow> table_dims (length p) (length v) m' \<and>
     (\<forall>j \<le> n. cell_get m' (Suc i) j = wild_at p v (Suc i) j) \<and>
     (\<forall>i' j. i' \<noteq> Suc i \<longrightarrow> cell_get m' i' j = cell_get m i' j)"

definition rows_done :: "nat list \<Rightarrow> nat list \<Rightarrow> nat \<Rightarrow> table \<Rightarrow> bool" where
  "rows_done p v n m \<longleftrightarrow> table_dims (length p) (length v) m \<and>
     (\<forall>i \<le> n. \<forall>j \<le> length v. cell_get m i j = wild_at p v i j) \<and>
     (\<forall>i \<le> length p. cell_get m i 0 = wild_at p v i 0)"

lemma columns_done_0: "columns_done p v 0 (wildcard_table p v)"
  by (auto simp: columns_done_def wildcard_table_spec)

lemma columns_done_step:
  assumes "columns_done p v n m" and "n < length p"
  shows "columns_done p v (Suc n) (wildcard_column p m (Suc n))"
proof -
  from assms have d: "table_dims (length p) (length v) m"
    and c: "\<And>i j. i \<le> length p \<Longrightarrow> j \<le> length v \<Longrightarrow>
       cell_get m i j = (if j = 0 \<and> i \<le> n then wild_at p v i 0 else i = 0 \<and> j = 0)"
    by (auto simp: columns_done_def)
  show ?thesis
  proof (cases "p ! n = WILD_STAR")
    case True
    then have m: "wildcard_column p m (Suc n) = cell_set m (Suc n) 0 (wild_at p v (Suc n) 0)"
      using c [of n 0] assms(2) by (simp add: wildcard_column_def wild_at_col_Suc)
    show ?thesis
      unfolding columns_done_def m using d c assms(2) by (auto simp: le_Suc_eq)
  next
    case False
    then show ?thesis
      using d c assms(2) by (auto simp: columns_done_def wildcard_column_def wild_at_col_Suc le_Suc_eq)
  qed
qed

lemma columns_done_all:
  "n \<le> length p \<Longrightarrow> columns_done p v n (foldl (wildcard_column p) (wildcard_table p v) [1..<Suc n])"
proof (induction n)
  case (Suc n)
  then have "columns_done p v (Suc n)
      (wildcard_column p (foldl (wildcard_column p) (wildcard_table p v) [1..<Suc n]) (Suc n))"
    by (intro columns_done_step) auto
  then show ?case by simp
qed (simp add: columns_done_0)

lemma cells_done_step:
  assumes "cells_done p v i m n m'" and "i < length p" and "n < length v"
    and row: "\<And>j. j \<le> length v \<Longrightarrow> cell_get m i j = wild_at p v i j"
  shows "cells_done p v i m (Suc n) (wildcard_cell p v (Suc i) m' (Suc n))"
proof -
  from assms(1) have d: "table_dims (length p) (length v) m'"
    and l: "\<And>j. j \<le> n \<Longrightarrow> cell_get m' (Suc i) j = wild_at p v (Suc i) j"
    and o: "\<And>i' j. i' \<noteq> Suc i \<Longrightarrow> cell_get m' i' j = cell_get m i' j"
    by (auto simp: cells_done_def)
  have "wildcard_cell p v (Suc i) m' (Suc n) = cell_set m' (Suc i) (Suc n) (wild_at p v (Suc i) (Suc n))"
    using assms(2,3) l [of n] o [of i] row by (simp add: wildcard_cell_def wild_at_row_Suc)
  then show ?thesis
    using d l o assms(2,3) by (auto simp: cells_done_def le_Suc_eq)
qed

lemma cells_done_all:
  assumes "table_dims (length p) (length v) m" and "i < length p"
    and "\<And>j. j \<le> length v \<Longrightarrow> cell_get m i j = wild_at p v i j"
    and "cell_get m (Suc i) 0 = wild_at p v (Suc i) 0"
  shows "n \<le> length v \<Longrightarrow> cells_done p v i m n (foldl (wildcard_cell p v (Suc i)) m [1..<Suc n])"
proof (induction n)
  case 0
  show ?case using assms by (simp add: cells_done_def)
next
  case (Suc n)
  then have "cells_done p v i m (Suc n)
      (wildcard_cell p v (Suc i) (foldl (wildcard_cell p v (Suc i)) m [1..<Suc n]) (Suc n))"
    using assms by (intro cells_done_step) auto
  then show ?case by simp
qed

lemma rows_done_step:
  assumes "rows_done p v n m" and "n < length p"
  shows "rows_done p v (Suc n) (wildcard_row p v m (Suc n))"
proof -
  from assms have "cells_done p v n m (length v) (wildcard_row p v m (Suc n))"
    unfolding wildcard_row_def rows_done_def
    using cells_done_all [of p v m n "length v"] by auto
  then have *: "table_dims (length p) (length v) (wildcard_row p v m (Suc n))"
    "\<And>i j. j \<le> length v \<Longrightarrow> cell_get (wildcard_row p v m (Suc n)) i j =
       (if i = Suc n then wild_at p v i j else cell_get m i j)"
    by (auto simp: cells_done_def)
  show ?thesis
    using assms(1) * unfolding rows_done_def by (auto simp: le_Suc_eq)
qed

lemma rows_done_0:
  assumes "columns_done p v (length p) m"
  shows "rows_done p v 0 m"
proof -
  have "0 < j \<Longrightarrow> j \<le> length v \<Longrightarrow> \<not> wild_at p v 0 j" for j
    by (cases j) auto
  with assms show ?thesis by (auto simp: rows_done_def columns_done_def)
qed

lemma rows_done_all:
  "rows_done p v 0 m \<Longrightarrow> n \<le> length p \<Longrightarrow> rows_done p v n (foldl (wildcard_row p v) m [1..<Suc n])"
proof (induction n)
  case (Suc n)
  then have "rows_done p v (Suc n)
      (wildcard_row p v (foldl (wildcard_row p v) m [1..<Suc n]) (Suc n))"
    by (intro rows_done_step) auto
  then show ?case by simp
qed simp

lemma wildcard_matches_lang:
  "wildcard_matches pattern val \<longleftrightarrow> chars val \<in> wild_lang (chars pattern)"
proof -
  let ?p = "chars pattern" and ?v = "chars val"
  have "rows_done ?p ?v (length ?p) (foldl (wildcard_row ?p ?v)
     (foldl (wildcard_column ?p) (wildcard_table ?p ?v) [1..<Suc (length ?p)]) [1..<Suc (length ?p)])"
    by (intro rows_done_all rows_done_0 columns_done_all) auto
  then show ?thesis
    by (simp add: wildcard_matches_def Let_def rows_done_def wild_at_def)
qed

subsection \<open>The filter\<close>

definition matches_filter :: "derivation \<Rightarrow> query_filter \<Rightarrow> bool" where
  "matches_filter drv f =
     (let system_matches = is_none_or (f_systems f) (\<lambda>systems. list_ex (\<lambda>s. s = d_system drv) systems);
          attr_prefix_matches =
            is_none_or (f_attr_prefix f) (\<lambda>pre. attr_path_starts_with (d_attr_path drv) pre);
          attr_prefixes_match =
            is_none_or (f_attr_prefixes f)
              (\<lambda>pres. list_ex (\<lambda>pre. attr_path_starts_with (d_attr_path drv) pre) pres);
          attrs_match = is_none_or (f_attrs f) (\<lambda>attrs. list_ex (\<lambda>a. a = d_attr_path drv) attrs);
          names_match = is_none_or (f_names f) (\<lambda>names. list_ex (\<lambda>n. n = d_name drv) names);
          drv_paths_match =
            is_none_or (f_drv_paths f) (\<lambda>paths. list_ex (\<lambda>p. p = d_drv_path drv) paths);
          include_patterns_match =
            is_none_or (f_include_patterns f)
              (\<lambda>pats. list_ex (\<lambda>pat. wildcard_matches pat (d_attr drv)) pats);
          exclude_patterns_match =
            is_none_or (f_exclude_patterns f)
              (\<lambda>pats. \<not> list_ex (\<lambda>pat. wildcard_matches pat (d_attr drv)) pats)
      in system_matches \<and> attr_prefix_matches \<and> attr_prefixes_match \<and> attrs_match \<and>
         names_match \<and> drv_paths_match \<and> include_patterns_match \<and> exclude_patterns_match)"

text \<open>A populated field as the set it admits; an absent one admits everything.\<close>

definition admits :: "'a option \<Rightarrow> ('a \<Rightarrow> 'b set) \<Rightarrow> 'b set" where
  "admits x f = (case x of None \<Rightarrow> UNIV | Some y \<Rightarrow> f y)"

lemma in_admits [simp]: "d \<in> admits x f \<longleftrightarrow> (\<forall>y. x = Some y \<longrightarrow> d \<in> f y)"
  by (cases x) (simp_all add: admits_def)

section \<open>What the component promises\<close>

text \<open>
  C9. The dynamic-programming matcher decides the glob language: a value matches a pattern
  exactly when it can be cut into pieces, one per pattern character, with any string for
  \<open>*\<close>, any one character for \<open>?\<close> and the character itself otherwise.
\<close>

theorem wildcard_matches_decides_glob:
  "wildcard_matches pattern val \<longleftrightarrow> chars val \<in> wild_lang (chars pattern)"
  by (rule wildcard_matches_lang)

text \<open>
  A query filter is the intersection of its populated fields: a derivation passes exactly
  when each field that is present admits it, an absent field admitting everything, and an
  excluded pattern removing what an included one let in.
\<close>

theorem matches_filter_intersection:
  "matches_filter drv f \<longleftrightarrow>
     drv \<in> admits (f_systems f) (\<lambda>systems. {d. d_system d \<in> set systems}) \<inter>
       admits (f_attr_prefix f) (\<lambda>pre. {d. prefix pre (d_attr_path d)}) \<inter>
       admits (f_attr_prefixes f) (\<lambda>pres. {d. \<exists>pre \<in> set pres. prefix pre (d_attr_path d)}) \<inter>
       admits (f_attrs f) (\<lambda>attrs. {d. d_attr_path d \<in> set attrs}) \<inter>
       admits (f_names f) (\<lambda>names. {d. d_name d \<in> set names}) \<inter>
       admits (f_drv_paths f) (\<lambda>paths. {d. d_drv_path d \<in> set paths}) \<inter>
       (admits (f_include_patterns f)
          (\<lambda>pats. {d. \<exists>pat \<in> set pats. chars (d_attr d) \<in> wild_lang (chars pat)}) -
        (case f_exclude_patterns f of None \<Rightarrow> {} | Some pats \<Rightarrow>
           {d. \<exists>pat \<in> set pats. chars (d_attr d) \<in> wild_lang (chars pat)}))"
  by (cases "f_exclude_patterns f")
    (auto simp: matches_filter_def Let_def list_ex_iff attr_path_starts_with_prefix wildcard_matches_lang)

text \<open>
  Recording a run keeps, for every attribute path, the last derivation the run reported
  for it, and every error in the order it came; the graph stays keyed by attribute path.
\<close>

theorem accumulate_keeps_last_derivations:
  "graph_ok (acc_graph (accumulate evs)) \<and>
   acc_errors (accumulate evs) = event_errors evs \<and>
   map_of (acc_graph (accumulate evs)) p =
     find (\<lambda>d. d_attr_path d = p) (rev (event_derivations evs))"
proof -
  have "map_of (map (\<lambda>d. (d_attr_path d, d)) ds) p = find (\<lambda>d. d_attr_path d = p) ds" for ds
    by (induction ds) auto
  then show ?thesis
    by (simp add: accumulate_graph_ok accumulate_errors accumulate_lookup rev_map)
qed

text \<open>
  C10. A diff is a complete patch: dropping the removed derivations from the previous graph
  and adding the added ones gives, at every attribute path, the \<open>.drv\<close> path of the current
  graph; and the two lists are exactly the entries whose \<open>.drv\<close> path differs.
\<close>

theorem diff_patches_previous_to_current:
  assumes "graph_ok previous" and "graph_ok current"
  shows "map_option d_drv_path (apply_diff (diff_graphs previous current errors) previous p) =
      drv_at current p \<and>
    (d \<in> set (df_removed (diff_graphs previous current errors)) \<longleftrightarrow>
      map_of previous (d_attr_path d) = Some d \<and> drv_at current (d_attr_path d) \<noteq> Some (d_drv_path d)) \<and>
    (d \<in> set (df_added (diff_graphs previous current errors)) \<longleftrightarrow>
      map_of current (d_attr_path d) = Some d \<and> drv_at previous (d_attr_path d) \<noteq> Some (d_drv_path d))"
  using apply_diff_drv [OF assms] diff_removed_iff [OF assms(1)] diff_added_iff [OF assms(2)] by blast

definition ex_graph_drv :: "string \<Rightarrow> string \<Rightarrow> derivation" where
  "ex_graph_drv attr drv_path = \<lparr>d_attr = attr, d_attr_path = [attr], d_name = attr, d_system = ''s'',
     d_drv_path = drv_path, d_outputs = [], d_meta = None, d_input_drvs = [], d_constituents = None,
     d_gc_root_error = None\<rparr>"

theorem diff_patches_previous_to_current_witness:
  "map_option d_drv_path
     (apply_diff (diff_graphs [([''a''], ex_graph_drv ''a'' ''1''), ([''b''], ex_graph_drv ''b'' ''1'')]
        [([''a''], ex_graph_drv ''a'' ''2'')] [])
      [([''a''], ex_graph_drv ''a'' ''1''), ([''b''], ex_graph_drv ''b'' ''1'')] [''a'']) = Some ''2''"
proof -
  have "graph_ok [([''a''], ex_graph_drv ''a'' ''1''), ([''b''], ex_graph_drv ''b'' ''1'')]"
    and "graph_ok [([''a''], ex_graph_drv ''a'' ''2'')]"
    by (simp_all add: graph_ok_def ex_graph_drv_def)
  from diff_patches_previous_to_current [OF this, of "[]" "[''a'']"] show ?thesis
    by (simp add: drv_at_def ex_graph_drv_def)
qed

text \<open>
  A diff is empty exactly when the two evaluations gave every attribute path the same
  \<open>.drv\<close> path.
\<close>

theorem diff_empty_iff_same_drvs:
  assumes "graph_ok previous" and "graph_ok current"
  shows "(df_added (diff_graphs previous current errors) = [] \<and>
      df_removed (diff_graphs previous current errors) = []) \<longleftrightarrow>
    drv_at previous = drv_at current"
proof
  assume empty: "df_added (diff_graphs previous current errors) = [] \<and>
      df_removed (diff_graphs previous current errors) = []"
  then have "drv_at current p = map_option d_drv_path (map_of previous p)" for p
    using apply_diff_drv [OF assms, of errors p]
    by (simp add: apply_diff_def del: diff_graphs_simps)
  then show "drv_at previous = drv_at current" by (auto simp: drv_at_def)
next
  assume same: "drv_at previous = drv_at current"
  have "d \<notin> set (df_added (diff_graphs previous current errors))"
    and "d \<notin> set (df_removed (diff_graphs previous current errors))" for d
    using diff_added_iff [OF assms(2)] diff_removed_iff [OF assms(1)] same
    by (metis drv_at_def option.simps(9))+
  then show "df_added (diff_graphs previous current errors) = [] \<and>
      df_removed (diff_graphs previous current errors) = []"
    by (metis list.set_intros(1) neq_Nil_conv)
qed

theorem diff_empty_iff_same_drvs_witness:
  "\<not> (df_added (diff_graphs [([''a''], ex_graph_drv ''a'' ''1'')] [] []) = [] \<and>
      df_removed (diff_graphs [([''a''], ex_graph_drv ''a'' ''1'')] [] []) = [])"
proof -
  have "graph_ok [([''a''], ex_graph_drv ''a'' ''1'')]" and "graph_ok []"
    by (simp_all add: graph_ok_def ex_graph_drv_def)
  moreover have "drv_at [([''a''], ex_graph_drv ''a'' ''1'')] [''a''] \<noteq> drv_at [] [''a'']"
    by (simp add: drv_at_def)
  ultimately show ?thesis using diff_empty_iff_same_drvs by metis
qed

end
