(* ===== verification/Scheduler.thy ===== *)
theory Scheduler
  imports Warm_State
begin

text \<open>
  Work distribution in \<open>crates/evix/src/async_master.rs\<close>: the validation of a
  configuration, the worker specifications built from it, and the scheduler's two
  operations, \<open>next_for\<close> and \<open>complete\<close>, with the system-routing decision. A fork slot is
  named by the number its sockets were created under; opening it is an operating-system
  call and a parameter.
\<close>

section \<open>Workers\<close>

datatype work_item = WorkItem (wi_path: attr_path)

datatype local_fork = ForkNone | ForkParent "nat list" | ForkChild nat

datatype worker_kind = Local "path option" local_fork | Remote remote

record worker_spec =
  sp_id :: nat
  sp_label :: string
  sp_kind :: worker_kind

datatype run_outcome = Completed | Cancelled

definition validate_config :: "config \<Rightarrow> unit result" where
  "validate_config c =
     (if c_item_timeout_seconds c = 0 then bail ''item timeout must be greater than zero''
      else
        let file_check = (case c_input c of
              InputFile p \<Rightarrow>
                if valid_utf8 p then Inr ()
                else bail_fmt ''input file {path:?} is not valid UTF-8'' [p]
            | _ \<Rightarrow> Inr ());
            dir_check = (case c_gc_roots_dir c of
              Some d \<Rightarrow>
                if valid_utf8 d then Inr ()
                else bail_fmt ''gc roots directory {dir:?} is not valid UTF-8'' [d]
            | None \<Rightarrow> Inr ());
            remote_check = (case find (\<lambda>r. r_workers r = 0) (c_remotes c) of
              Some r \<Rightarrow>
                bail (''remote worker count for '' @ r_endpoint r @ '' must be greater than zero'')
            | None \<Rightarrow> Inr ())
        in and_then file_check (\<lambda>_. and_then dir_check (\<lambda>_. remote_check)))"

definition remote_workers :: "'a wire_config_scheme \<Rightarrow> usize" where
  "remote_workers c = sum_list (map r_workers (c_remotes c))"

definition local_workers :: "'a wire_config_scheme \<Rightarrow> usize" where
  "local_workers c =
     (if c_workers c = 0 \<and> 0 < remote_workers c then 0 else max (c_workers c) 1)"

definition push_spec :: "string \<Rightarrow> worker_kind \<Rightarrow> worker_spec list \<Rightarrow> worker_spec list" where
  "push_spec label kind specs =
     specs @ [\<lparr>sp_id = length specs, sp_label = label, sp_kind = kind\<rparr>]"

definition local_forks :: "nat list \<Rightarrow> local_fork list" where
  "local_forks slots =
     (let forks = map ForkChild slots in
      if slots \<noteq> [] then ForkParent slots # forks else forks)"

definition push_local_specs :: "config \<Rightarrow> nat \<Rightarrow> local_fork list \<Rightarrow> worker_spec list \<Rightarrow> worker_spec list" where
  "push_local_specs c n forks specs =
     foldl (\<lambda>specs index.
         push_spec ''local''
           (Local (c_worker_exe c) (if index < length forks then forks ! index else ForkNone)) specs)
       specs [0..<n]"

definition push_remote_specs :: "remote list \<Rightarrow> worker_spec list \<Rightarrow> worker_spec list" where
  "push_remote_specs remotes specs =
     foldl (\<lambda>specs r.
         foldl (\<lambda>specs index.
             push_spec (''remote:'' @ r_endpoint r @ ''#'' @ show_nat index) (Remote r) specs)
           specs [0..<unat (r_workers r)])
       specs remotes"

definition worker_specs :: "(nat \<Rightarrow> nat result) \<Rightarrow> config \<Rightarrow> worker_spec list result" where
  "worker_specs open_slot c =
     (let n = unat (local_workers c) in
      and_then (collect_results open_slot [1..<n]) (\<lambda>slots.
        Inr (push_remote_specs (c_remotes c)
               (push_local_specs c n (local_forks slots) []))))"

definition is_forked :: "worker_spec \<Rightarrow> bool" where
  "is_forked spec = (case sp_kind spec of Local _ (ForkChild _) \<Rightarrow> True | _ \<Rightarrow> False)"

section \<open>The scheduler\<close>

text \<open>
  \<open>active\<close> is a \<open>usize\<close> that counts items handed out. It is a natural number here: it is taken
  down only when an item that was handed out comes back, so it never goes below zero (the
  coordinator's invariant that every busy worker holds one counted item), and it is at most the
  number of workers.
\<close>

record scheduler =
  s_todo :: "work_item list"
  s_active :: nat
  s_error :: "string option"

datatype next_work = Dispatch work_item | Wait | WorkDone | Fatal string

record completed_work =
  cw_emit :: bool
  cw_fatal_error :: "string option"

datatype event_disposition = Emit | Unowned string

definition initial_scheduler :: scheduler where
  "initial_scheduler = \<lparr>s_todo = [WorkItem []], s_active = 0, s_error = None\<rparr>"

definition is_done :: "scheduler \<Rightarrow> bool" where
  "is_done s \<longleftrightarrow> s_todo s = [] \<and> s_active s = 0"

definition has_active_work :: "scheduler \<Rightarrow> bool" where
  "has_active_work s \<longleftrightarrow> s_active s > 0"

definition next_for :: "nat \<Rightarrow> scheduler \<Rightarrow> next_work \<times> scheduler" where
  "next_for worker_id s =
     (case s_error s of
        Some e \<Rightarrow> (Fatal e, s)
      | None \<Rightarrow>
          (case s_todo s of
             item # rest \<Rightarrow> (Dispatch item, s\<lparr>s_todo := rest, s_active := s_active s + 1\<rparr>)
           | [] \<Rightarrow> if s_active s = 0 then (WorkDone, s) else (Wait, s)))"

definition display_attr :: "attr_path \<Rightarrow> string" where
  "display_attr p = (if p = [] then ''<root>'' else join ''.'' p)"

definition remote_accepts_system :: "remote \<Rightarrow> string \<Rightarrow> bool" where
  "remote_accepts_system r system \<longleftrightarrow>
     r_systems r = [] \<or> list_ex (\<lambda>owned. owned = system) (r_systems r)"

definition worker_accepts_system :: "worker_spec \<Rightarrow> string \<Rightarrow> bool" where
  "worker_accepts_system w system =
     (case sp_kind w of
        Local _ _ \<Rightarrow> True
      | Remote r \<Rightarrow> remote_accepts_system r system)"

definition disposition_of :: "worker_spec \<Rightarrow> worker_spec list \<Rightarrow> event \<Rightarrow> event_disposition" where
  "disposition_of spec workers event =
     (case sp_kind spec of
        Local _ _ \<Rightarrow> Emit
      | Remote _ \<Rightarrow>
          (case event of
             Derivation drv \<Rightarrow>
               if list_ex (\<lambda>w. worker_accepts_system w (d_system drv)) workers then Emit
               else Unowned (d_system drv)
           | _ \<Rightarrow> Emit))"

definition child_items :: "attr_path \<Rightarrow> string list \<Rightarrow> work_item list" where
  "child_items p attrs = map (\<lambda>name. WorkItem (p @ [name])) attrs"

definition complete ::
  "worker_spec \<Rightarrow> worker_spec list \<Rightarrow> work_item \<Rightarrow> event \<Rightarrow> scheduler \<Rightarrow> completed_work \<times> scheduler"
where
  "complete spec workers item event s0 =
     (let attr = display_attr (wi_path item);
          s = s0\<lparr>s_active := s_active s0 - 1\<rparr>
      in case event of
           AttrSet _ _ attrs \<Rightarrow>
             (\<lparr>cw_emit = True, cw_fatal_error = None\<rparr>,
              s\<lparr>s_todo := s_todo s @ child_items (wi_path item) attrs\<rparr>)
         | EventError err \<Rightarrow>
             if e_fatal err then
               (\<lparr>cw_emit = True, cw_fatal_error = Some (e_error err)\<rparr>,
                s\<lparr>s_error := Some (e_error err)\<rparr>)
             else (\<lparr>cw_emit = True, cw_fatal_error = None\<rparr>, s)
         | Derivation _ \<Rightarrow>
             (case disposition_of spec workers event of
                Emit \<Rightarrow> (\<lparr>cw_emit = True, cw_fatal_error = None\<rparr>, s)
              | Unowned system \<Rightarrow>
                  let error = ''no worker accepted derivation at '' @ attr @ '' for system '' @ system
                  in (\<lparr>cw_emit = False, cw_fatal_error = Some error\<rparr>,
                      s\<lparr>s_error := Some error\<rparr>)))"

definition worker_failure_event :: "(report \<Rightarrow> string) \<Rightarrow> worker_spec \<Rightarrow> work_item \<Rightarrow> report \<Rightarrow> event" where
  "worker_failure_event render spec item error =
     EventError \<lparr>e_attr = display_attr (wi_path item), e_attr_path = wi_path item,
       e_error = ''worker '' @ sp_label spec @ '' failed: '' @ render error, e_fatal = False\<rparr>"

section \<open>Worker specifications\<close>

text \<open>Specifications are pushed in order, so a worker's id is its index.\<close>

definition ids_are_indices :: "worker_spec list \<Rightarrow> bool" where
  "ids_are_indices specs \<longleftrightarrow> map sp_id specs = [0..<length specs]"

lemma push_spec_ids [simp, intro]: "ids_are_indices specs \<Longrightarrow> ids_are_indices (push_spec l k specs)"
  by (simp add: ids_are_indices_def push_spec_def)

lemma foldl_invariant:
  assumes "\<And>x s. x \<in> set xs \<Longrightarrow> P s \<Longrightarrow> P (f s x)" and "P s"
  shows "P (foldl f s xs)"
  using assms by (induction xs arbitrary: s) auto

lemma push_remote_specs_invariant:
  assumes "P specs"
    and "\<And>r label specs. r \<in> set rs \<Longrightarrow> P specs \<Longrightarrow> P (push_spec label (Remote r) specs)"
  shows "P (push_remote_specs rs specs)"
  unfolding push_remote_specs_def
proof (rule foldl_invariant [where P = P])
  show "P specs" by (rule assms(1))
  fix r specs assume "r \<in> set rs" and "P specs"
  then show "P (foldl (\<lambda>specs i.
      push_spec (''remote:'' @ r_endpoint r @ ''#'' @ show_nat i) (Remote r) specs) specs
        [0..<unat (r_workers r)])"
    by (intro foldl_invariant [where P = P] assms(2))
qed

lemma push_local_specs_ids: "ids_are_indices specs \<Longrightarrow> ids_are_indices (push_local_specs c n fs specs)"
  unfolding push_local_specs_def by (rule foldl_invariant [where P = ids_are_indices]) auto

lemma push_remote_specs_ids: "ids_are_indices specs \<Longrightarrow> ids_are_indices (push_remote_specs rs specs)"
  by (rule push_remote_specs_invariant [where P = ids_are_indices]) auto

lemma length_push_spec [simp]: "length (push_spec l k specs) = Suc (length specs)"
  by (simp add: push_spec_def)

lemma push_local_specs_eq:
  "push_local_specs c n fs [] =
     map (\<lambda>i. \<lparr>sp_id = i, sp_label = ''local'',
                sp_kind = Local (c_worker_exe c) (if i < length fs then fs ! i else ForkNone)\<rparr>) [0..<n]"
  by (induction n) (simp_all add: push_local_specs_def push_spec_def)

lemma foldl_push_length:
  "length (foldl (\<lambda>specs i. push_spec (l i) (k i) specs) specs xs) = length specs + length xs"
  by (induction xs arbitrary: specs) simp_all

lemma push_remote_specs_length:
  "length (push_remote_specs rs specs) =
     length specs + sum_list (map (\<lambda>r. unat (r_workers r)) rs)"
proof (induction rs arbitrary: specs)
  case (Cons r rs)
  have "push_remote_specs (r # rs) specs = push_remote_specs rs
     (foldl (\<lambda>specs i. push_spec (''remote:'' @ r_endpoint r @ ''#'' @ show_nat i) (Remote r) specs)
        specs [0..<unat (r_workers r)])"
    by (simp add: push_remote_specs_def)
  with Cons show ?case by (simp add: foldl_push_length)
qed (simp add: push_remote_specs_def)

lemma push_remote_specs_prefix: "prefix specs (push_remote_specs rs specs)"
  by (rule push_remote_specs_invariant [where P = "prefix specs"]) (auto simp: push_spec_def prefix_def)

lemma push_remote_specs_new:
  "w \<in> set (push_remote_specs rs specs) \<Longrightarrow> w \<in> set specs \<or> (\<exists>r \<in> set rs. sp_kind w = Remote r)"
proof -
  have "\<forall>w \<in> set (push_remote_specs rs specs). w \<in> set specs \<or> (\<exists>r \<in> set rs. sp_kind w = Remote r)"
    by (rule push_remote_specs_invariant) (auto simp: push_spec_def)
  then show "w \<in> set (push_remote_specs rs specs) \<Longrightarrow> ?thesis" by blast
qed

lemma worker_specs_Ok_iff:
  "worker_specs open_slot c = Inr specs \<longleftrightarrow>
     (\<exists>slots. collect_results open_slot [1..<unat (local_workers c)] = Inr slots \<and>
       specs = push_remote_specs (c_remotes c)
         (push_local_specs c (unat (local_workers c)) (local_forks slots) []))"
  by (auto simp: worker_specs_def Let_def and_then_Ok_iff)

lemma worker_specs_ids: "worker_specs open_slot c = Inr specs \<Longrightarrow> ids_are_indices specs"
  by (auto simp: worker_specs_Ok_iff ids_are_indices_def
      intro!: push_remote_specs_ids [unfolded ids_are_indices_def]
        push_local_specs_ids [unfolded ids_are_indices_def])

lemma local_workers_0_iff:
  "unat (local_workers c) = 0 \<longleftrightarrow> c_workers c = 0 \<and> 0 < remote_workers c"
  by (auto simp: local_workers_def unat_eq_0 max_def)

lemma remote_workers_pos: "0 < remote_workers c \<Longrightarrow> \<exists>r \<in> set (c_remotes c). r_workers r \<noteq> 0"
proof (rule ccontr)
  assume pos: "0 < remote_workers c" and "\<not> (\<exists>r \<in> set (c_remotes c). r_workers r \<noteq> 0)"
  then have "\<forall>w \<in> set (map r_workers (c_remotes c)). w = 0" by auto
  moreover have "\<forall>w \<in> set ws. w = 0 \<Longrightarrow> sum_list ws = (0 :: usize)" for ws
    by (induction ws) auto
  ultimately have "remote_workers c = 0" unfolding remote_workers_def by blast
  with pos show False by simp
qed

text \<open>With local workers, the first one is local and not a fork.\<close>

lemma worker_specs_first_local:
  assumes "worker_specs open_slot c = Inr specs" and "local_workers c \<noteq> 0"
  shows "\<exists>w \<in> set specs. \<not> is_forked w \<and> (\<exists>exe fork. sp_kind w = Local exe fork)"
proof -
  let ?n = "unat (local_workers c)"
  from assms(1) obtain slots where
    specs: "specs = push_remote_specs (c_remotes c) (push_local_specs c ?n (local_forks slots) [])"
    by (auto simp: worker_specs_Ok_iff)
  let ?w = "\<lparr>sp_id = 0, sp_label = ''local'', sp_kind = Local (c_worker_exe c)
      (if 0 < length (local_forks slots) then local_forks slots ! 0 else ForkNone)\<rparr>"
  have "?n \<noteq> 0" using assms(2) by (simp add: unat_eq_0)
  then have "?w \<in> set (push_local_specs c ?n (local_forks slots) [])"
    by (force simp: push_local_specs_eq)
  then have "?w \<in> set specs"
    using set_mono_prefix [OF push_remote_specs_prefix] specs by blast
  moreover have "\<not> is_forked ?w"
    by (simp add: is_forked_def local_forks_def Let_def)
  ultimately show ?thesis by (intro bexI [of _ ?w]) auto
qed

text \<open>
  The pool always holds a worker that is not a fork of another one: the coordinator has
  someone to hand the root attribute to.
\<close>

lemma worker_specs_unforked:
  assumes "worker_specs open_slot c = Inr specs"
  shows "\<exists>w \<in> set specs. \<not> is_forked w"
proof -
  let ?n = "unat (local_workers c)"
  from assms obtain slots where
    slots: "collect_results open_slot [1..<?n] = Inr slots" and
    specs: "specs = push_remote_specs (c_remotes c) (push_local_specs c ?n (local_forks slots) [])"
    by (auto simp: worker_specs_Ok_iff)
  show ?thesis
  proof (cases "?n = 0")
    case True
    then obtain r where r: "r \<in> set (c_remotes c)" "r_workers r \<noteq> 0"
      using remote_workers_pos local_workers_0_iff by blast
    then have "0 < unat (r_workers r)" by (simp add: unat_gt_0)
    moreover have "unat (r_workers r) \<le> sum_list (map (\<lambda>r. unat (r_workers r)) (c_remotes c))"
      using r(1) by (intro member_le_sum_list) auto
    ultimately have "0 < sum_list (map (\<lambda>r. unat (r_workers r)) (c_remotes c))"
      by linarith
    then have "0 < length specs"
      by (simp add: specs push_remote_specs_length)
    then obtain w where w: "w \<in> set specs" by (cases specs) auto
    moreover have "push_local_specs c ?n (local_forks slots) [] = []"
      using True by (simp add: push_local_specs_def)
    ultimately obtain r where "sp_kind w = Remote r"
      using push_remote_specs_new [of w "c_remotes c" "[]"] specs by auto
    with w show ?thesis by (force simp: is_forked_def)
  next
    case False
    with worker_specs_first_local [OF assms] show ?thesis by (auto simp: unat_eq_0)
  qed
qed

end
