(* ===== verification/Std_Text.thy ===== *)
theory Std_Text
  imports Prelude
begin

text \<open>
  What the program uses of the standard library's text functions beyond splitting and
  searching: the characters of a string, Unicode white space, \<open>trim\<close>, the first word of
  \<open>split_whitespace\<close>, and \<open>String::from_utf8_lossy\<close>.
\<close>

section \<open>Characters and white space\<close>

definition char_len :: "char \<Rightarrow> nat" where
  "char_len a =
     (let n = (of_char a :: nat) in
      if n < 128 then 1 else if n < 224 then 2 else if n < 240 then 3 else 4)"

text \<open>The encodings of the characters of a string, in order.\<close>

function utf8_pieces :: "string \<Rightarrow> string list" where
  "utf8_pieces [] = []"
| "utf8_pieces (a # s) = (a # take (char_len a - 1) s) # utf8_pieces (drop (char_len a - 1) s)"
  by pat_completeness auto

termination
  by (relation "measure length") simp_all

lemma concat_utf8_pieces [simp]: "concat (utf8_pieces s) = s"
  by (induction s rule: utf8_pieces.induct) simp_all

lemma utf8_pieces_nonempty: "p \<in> set (utf8_pieces s) \<Longrightarrow> p \<noteq> []"
  by (induction s rule: utf8_pieces.induct) auto

text \<open>\<open>char::is_whitespace\<close>: the property \<open>White_Space\<close>.\<close>

definition is_whitespace :: "nat \<Rightarrow> bool" where
  "is_whitespace c \<longleftrightarrow> 9 \<le> c \<and> c \<le> 13 \<or> 8192 \<le> c \<and> c \<le> 8202 \<or>
     c \<in> {32, 133, 160, 5760, 8232, 8233, 8239, 8287, 12288}"

definition white_piece :: "string \<Rightarrow> bool" where
  "white_piece p \<longleftrightarrow> list_ex is_whitespace (chars p)"

definition trim :: "string \<Rightarrow> string" where
  "trim s = concat (rev (dropWhile white_piece (rev (dropWhile white_piece (utf8_pieces s)))))"

text \<open>The first item of \<open>split_whitespace\<close>.\<close>

definition first_word :: "string \<Rightarrow> string option" where
  "first_word s =
     (let w = concat (takeWhile (Not \<circ> white_piece) (dropWhile white_piece (utf8_pieces s)))
      in if w = [] then None else Some w)"

lemma utf8_pieces_ascii [simp]:
  "(of_char a :: nat) < 128 \<Longrightarrow> utf8_pieces (a # s) = [a] # utf8_pieces s"
  by (simp add: char_len_def)

declare utf8_pieces.simps(2) [simp del]

text \<open>
  A string read up to an ASCII byte: the pieces before it are the pieces of the text before
  it, when that text is well-formed.
\<close>

lemma utf8_pieces_append: "valid_utf8 s \<Longrightarrow> utf8_pieces (s @ t) = utf8_pieces s @ utf8_pieces t"
proof (induction s rule: valid_utf8.induct)
  case (2 a s)
  show ?case
  proof (cases "(of_char a :: nat) < 128")
    case True
    with 2 show ?thesis by simp
  next
    case False
    with 2 show ?thesis
      by (auto simp: utf8_pieces.simps(2) char_len_def Let_def split: if_splits list.splits)
  qed
qed simp

section \<open>Lossy decoding\<close>

text \<open>
  Each maximal ill-formed part of the input becomes one replacement character: a byte that
  starts no character, or the longest proper prefix of a character that is there.
\<close>

definition REPLACEMENT :: string where
  "REPLACEMENT = [CHR 0xEF, CHR 0xBF, CHR 0xBD]"

text \<open>Whether a text starts with a character, and the bytes of it or of the ill-formed part.\<close>

definition utf8_scan :: "char \<Rightarrow> string \<Rightarrow> bool \<times> nat" where
  "utf8_scan a s =
     (let n = (of_char a :: nat);
          lo = (if n = 224 then 160 else if n = 240 then 144 else 128);
          hi = (if n = 237 then 159 else if n = 244 then 143 else 191)
      in
      if n < 128 then (True, 1)
      else if n < 194 \<or> 244 < n then (False, 1)
      else case s of
          [] \<Rightarrow> (False, 1)
        | b # s1 \<Rightarrow>
            if \<not> byte_in lo hi b then (False, 1)
            else if n < 224 then (True, 2)
            else case s1 of
                [] \<Rightarrow> (False, 2)
              | c # s2 \<Rightarrow>
                  if \<not> byte_in 128 191 c then (False, 2)
                  else if n < 240 then (True, 3)
                  else case s2 of
                      [] \<Rightarrow> (False, 3)
                    | d # s3 \<Rightarrow> if \<not> byte_in 128 191 d then (False, 3) else (True, 4))"

lemma utf8_scan_positive: "0 < snd (utf8_scan a s)"
  by (simp add: utf8_scan_def Let_def split: list.split)

lemma utf8_scan_positive_of: "(ok, k) = utf8_scan a s \<Longrightarrow> 0 < k"
  using utf8_scan_positive [of a s] by (metis snd_conv)

function utf8_lossy :: "string \<Rightarrow> string" where
  "utf8_lossy [] = []"
| "utf8_lossy (a # s) =
     (case utf8_scan a s of (ok, k) \<Rightarrow>
       (if ok then take k (a # s) else REPLACEMENT) @ utf8_lossy (drop k (a # s)))"
  by pat_completeness auto

termination
  by (relation "measure length") (auto dest!: utf8_scan_positive_of)

declare utf8_lossy.simps(2) [simp del]

lemma valid_utf8_REPLACEMENT [simp]: "valid_utf8 (REPLACEMENT @ s) = valid_utf8 s"
  by (simp add: REPLACEMENT_def byte_in_def)

lemma valid_utf8_scan:
  "valid_utf8 (a # s) \<longleftrightarrow> fst (utf8_scan a s) \<and> valid_utf8 (drop (snd (utf8_scan a s)) (a # s))"
proof -
  consider "s = []" | b where "s = [b]" | b c where "s = [b, c]" | b c d t where "s = b # c # d # t"
    by (metis list.exhaust)
  then show ?thesis
    by cases (simp_all add: valid_utf8.simps(2) [of a] utf8_scan_def Let_def del: valid_utf8.simps(2))
qed

lemma valid_utf8_scanned:
  assumes "utf8_scan a s = (True, k)"
  shows "valid_utf8 (take k (a # s) @ t) \<longleftrightarrow> valid_utf8 t"
proof -
  consider "s = []" | b where "s = [b]" | b c where "s = [b, c]" | b c d t where "s = b # c # d # t"
    by (metis list.exhaust)
  then show ?thesis
    using assms
    by cases (auto simp: valid_utf8.simps(2) [of a] utf8_scan_def Let_def
        simp del: valid_utf8.simps(2) split: if_splits)
qed

lemma valid_utf8_lossy [simp]: "valid_utf8 (utf8_lossy s)"
proof (induction s rule: utf8_lossy.induct)
  case (2 a s)
  obtain ok k where scan: "utf8_scan a s = (ok, k)" by force
  with 2 [of ok k] have "valid_utf8 (utf8_lossy (drop k (a # s)))" by simp
  with scan show ?case
    using valid_utf8_scanned [of a s k "utf8_lossy (drop k (a # s))"]
    by (cases ok) (simp_all add: utf8_lossy.simps(2))
qed simp

lemma utf8_lossy_valid [simp]: "valid_utf8 s \<Longrightarrow> utf8_lossy s = s"
proof (induction s rule: utf8_lossy.induct)
  case (2 a s)
  obtain ok k where scan: "utf8_scan a s = (ok, k)" by force
  with "2.prems" have ok and "valid_utf8 (drop k (a # s))" using valid_utf8_scan [of a s] by simp_all
  with "2.IH" [of ok k] scan have "utf8_lossy (drop k (a # s)) = drop k (a # s)" by simp
  with scan \<open>ok\<close> show ?case by (simp add: utf8_lossy.simps(2))
qed simp

section \<open>Reading numbers\<close>

text \<open>\<open>str::parse::<usize>\<close>: an optional plus sign and decimal digits, within 64 bits.\<close>

definition is_digit :: "char \<Rightarrow> bool" where
  "is_digit c \<longleftrightarrow> of_char c \<ge> (48 :: nat) \<and> of_char c \<le> (57 :: nat)"

fun parse_digits :: "nat \<Rightarrow> string \<Rightarrow> string + nat" where
  "parse_digits n [] = Inr n"
| "parse_digits n (c # cs) =
     (if \<not> is_digit c then Inl ''invalid digit found in string''
      else
        let n' = 10 * n + (of_char c - 48) in
        if n' \<ge> 2 ^ 64 then Inl ''number too large to fit in target type''
        else parse_digits n' cs)"

definition parse_usize :: "string \<Rightarrow> string + usize" where
  "parse_usize s =
     (case s of
        [] \<Rightarrow> Inl ''cannot parse integer from empty string''
      | [c] \<Rightarrow> and_then (parse_digits 0 [c]) (\<lambda>n. Inr (of_nat n))
      | c # ds \<Rightarrow> and_then (parse_digits 0 (if c = CHR ''+'' then ds else s)) (\<lambda>n. Inr (of_nat n)))"

text \<open>\<open>str::parse::<i32>\<close>: an optional sign and decimal digits, within 32 bits.\<close>

definition parse_i32 :: "string \<Rightarrow> string + int" where
  "parse_i32 s =
     (case s of
        [] \<Rightarrow> Inl ''cannot parse integer from empty string''
      | [c] \<Rightarrow> and_then (parse_digits 0 [c]) (\<lambda>n. Inr (int n))
      | c # ds \<Rightarrow>
          and_then (parse_digits 0 (if c = CHR ''+'' \<or> c = CHR ''-'' then ds else s)) (\<lambda>n.
            if c = CHR ''-'' then
              if 2 ^ 31 < n then Inl ''number too small to fit in target type'' else Inr (- int n)
            else if 2 ^ 31 \<le> n then Inl ''number too large to fit in target type''
            else Inr (int n)))"

lemma is_digit_char: "d < 10 \<Longrightarrow> is_digit (char_of (48 + d))" "d < 10 \<Longrightarrow> of_char (char_of (48 + d :: nat)) = 48 + d"
  by (simp_all add: is_digit_def)

lemma parse_digits_append: "parse_digits n (a @ b) = and_then (parse_digits n a) (\<lambda>m. parse_digits m b)"
  by (induction n a rule: parse_digits.induct) (simp_all add: Let_def)

lemma parse_digits_show_nat: "n < 2 ^ 64 \<Longrightarrow> parse_digits 0 (show_nat n) = Inr n"
proof (induction n rule: show_nat.induct)
  case (1 n)
  show ?case
  proof (cases "n < 10")
    case True
    then show ?thesis by (simp add: show_nat.simps [of n] is_digit_char)
  next
    case False
    then have "parse_digits 0 (show_nat (n div 10)) = Inr (n div 10)" using 1 by simp
    moreover have "10 * (n div 10) + n mod 10 = n" by simp
    ultimately show ?thesis
      using False 1 by (simp add: show_nat.simps [of n] parse_digits_append is_digit_char Let_def)
  qed
qed

lemma show_nat_head: "\<exists>d ds. show_nat n = d # ds \<and> is_digit d"
proof (induction n rule: show_nat.induct)
  case (1 n)
  then show ?case
    by (cases "n < 10") (auto simp: show_nat.simps [of n] is_digit_char)
qed

lemma parse_usize_show_nat: "n < 2 ^ 64 \<Longrightarrow> parse_usize (show_nat n) = Inr (of_nat n)"
proof -
  assume n: "n < 2 ^ 64"
  obtain d ds where d: "show_nat n = d # ds" "is_digit d" using show_nat_head by blast
  then have "d \<noteq> CHR ''+''" by (auto simp: is_digit_def)
  with d parse_digits_show_nat [OF n] show ?thesis
    by (cases ds) (simp_all add: parse_usize_def)
qed

lemma parse_i32_show_nat: "n < 2 ^ 31 \<Longrightarrow> parse_i32 (show_nat n) = Inr (int n)"
proof -
  assume n: "n < 2 ^ 31"
  then have digits: "parse_digits 0 (show_nat n) = Inr n" by (intro parse_digits_show_nat) simp
  obtain d ds where d: "show_nat n = d # ds" "is_digit d" using show_nat_head by blast
  then have "d \<noteq> CHR ''+''" "d \<noteq> CHR ''-''" by (auto simp: is_digit_def)
  with d digits n show ?thesis by (cases ds) (simp_all add: parse_i32_def)
qed

lemma show_nat_digits: "c \<in> set (show_nat n) \<Longrightarrow> is_digit c"
proof (induction n rule: show_nat.induct)
  case (1 n)
  then show ?case
    by (cases "n < 10") (auto simp: show_nat.simps [of n] is_digit_char)
qed

section \<open>Lines\<close>

text \<open>The pieces between newlines, without an empty last one.\<close>

definition lines_of :: "string \<Rightarrow> string list" where
  "lines_of s =
     (let pieces = split_char CHR 0x0A s in if last pieces = [] then butlast pieces else pieces)"

lemma split_char_lines:
  "\<forall>l \<in> set ls. CHR 0x0A \<notin> set l \<Longrightarrow> split_char CHR 0x0A (concat (map (\<lambda>l. l @ [CHR 0x0A]) ls)) = ls @ [[]]"
  by (induction ls) (simp_all add: split_char_append_sep)

text \<open>\<open>BufRead::lines\<close>: a carriage return before the newline is dropped too.\<close>

definition strip_return :: "string \<Rightarrow> string" where
  "strip_return l = (if l \<noteq> [] \<and> last l = CHR 0x0D then butlast l else l)"

definition read_lines :: "string \<Rightarrow> string list" where
  "read_lines s = map strip_return (lines_of s)"

lemma read_lines_lines:
  assumes "\<forall>l \<in> set ls. CHR 0x0A \<notin> set l \<and> (l = [] \<or> last l \<noteq> CHR 0x0D)"
  shows "read_lines (concat (map (\<lambda>l. l @ [CHR 0x0A]) ls)) = ls"
proof -
  have "lines_of (concat (map (\<lambda>l. l @ [CHR 0x0A]) ls)) = ls"
    using assms by (simp add: lines_of_def split_char_lines)
  moreover have "map strip_return ls = ls"
    using assms by (intro map_idI) (auto simp: strip_return_def)
  ultimately show ?thesis by (simp add: read_lines_def)
qed

end
