(* ===== verification/Cli_Args.thy ===== *)
theory Cli_Args
  imports Scheduler Std_Text
begin

text \<open>
  The command line (\<open>crates/evix-cli/src/args.rs\<close>): the rewriting of multi-value flags into
  one packed argument and its inverse, and the plan each parsed command gives, with the
  configuration and the query filter it builds. Turning the rewritten arguments into a
  command is the argument parser's, a library; the environment's remote token is a parameter.
\<close>

section \<open>Packed arguments\<close>

definition PACK_SEP :: char where
  "PACK_SEP = CHR 0x1F"

definition packed_arity :: "string \<Rightarrow> nat option" where
  "packed_arity flag =
     (if flag \<in> {''--arg'', ''--argstr'', ''--override-input'', ''--option''} then Some 2
      else if flag = ''--remote'' then Some 3
      else None)"

definition pack :: "string list \<Rightarrow> string result" where
  "pack values =
     (if list_ex (\<lambda>v. PACK_SEP \<in> set v) values
      then bail ''argument values cannot contain ASCII unit separator''
      else Inr (join [PACK_SEP] values))"

text \<open>The values taken so far, and the arguments after the current one.\<close>

fun collect_packed_values ::
  "string list \<Rightarrow> string \<Rightarrow> nat \<Rightarrow> string list \<Rightarrow> (string list \<times> string list) result"
where
  "collect_packed_values rest flag arity values =
     (if length values < arity then
        (case rest of
           [] \<Rightarrow> bail (flag @ '' requires '' @ show_nat arity @ '' values'')
         | v # rest' \<Rightarrow> collect_packed_values rest' flag arity (values @ [v]))
      else Inr (values, rest))"

declare collect_packed_values.simps [simp del]

lemma collect_packed_values_shorter:
  assumes "collect_packed_values rest flag arity values = Inr (vs, rest')"
  shows "length rest' \<le> length rest"
  using assms
proof (induction rest arbitrary: "values")
  case Nil
  then show ?case
    by (simp add: collect_packed_values.simps [of "[]"] split: if_splits)
next
  case (Cons v rest)
  show ?case
  proof (cases "length values < arity")
    case True
    with Cons.prems have "collect_packed_values rest flag arity (values @ [v]) = Inr (vs, rest')"
      by (simp add: collect_packed_values.simps [of "v # rest"])
    with Cons.IH show ?thesis by fastforce
  next
    case False
    with Cons.prems show ?thesis by (simp add: collect_packed_values.simps [of "v # rest"])
  qed
qed

text \<open>A flag that takes several values, with the first value after \<open>=\<close> or separate.\<close>

definition packed_flag :: "string \<Rightarrow> (string \<times> nat \<times> string list) option" where
  "packed_flag arg =
     (case (case split_once CHR ''='' arg of
              Some (flag, first) \<Rightarrow> map_option (\<lambda>arity. (flag, arity, [first])) (packed_arity flag)
            | None \<Rightarrow> None) of
        Some p \<Rightarrow> Some p
      | None \<Rightarrow> map_option (\<lambda>arity. (arg, arity, [])) (packed_arity arg))"

function normalize_args :: "string list \<Rightarrow> string list result" where
  "normalize_args [] = Inr []"
| "normalize_args (arg # rest) =
     (case packed_flag arg of
        Some (flag, arity, first) \<Rightarrow>
          and_then (collect_packed_values rest flag arity first) (\<lambda>(values, rest').
          and_then (pack values) (\<lambda>packed.
          and_then (normalize_args rest') (\<lambda>out. Inr ((flag @ ''='' @ packed) # out))))
      | None \<Rightarrow> and_then (normalize_args rest) (\<lambda>out. Inr (arg # out)))"
  by pat_completeness auto

termination
  by (relation "measure length") (auto dest: collect_packed_values_shorter)

section \<open>Values\<close>

record pair =
  pr_name :: string
  pr_value :: string

definition value_error :: "string \<Rightarrow> string \<Rightarrow> 'a result" where
  "value_error s why = bail_fmt ''invalid value {s}: {why}'' [s, why]"

definition pair_from_arg :: "string \<Rightarrow> pair result" where
  "pair_from_arg s =
     (case split_once PACK_SEP s of
        None \<Rightarrow> value_error s ''expected packed NAME VALUE''
      | Some (name, val) \<Rightarrow> Inr \<lparr>pr_name = name, pr_value = val\<rparr>)"

record remote_arg =
  ra_endpoint :: string
  ra_systems :: "string list"
  ra_workers :: usize

text \<open>\<open>splitn(3, sep)\<close> always has a first piece.\<close>

definition remote_from_arg :: "string \<Rightarrow> remote_arg result" where
  "remote_from_arg s =
     (case split_once PACK_SEP s of
        None \<Rightarrow> value_error s ''expected systems''
      | Some (endpoint, rest) \<Rightarrow>
          (case split_once PACK_SEP rest of
             None \<Rightarrow> value_error s ''expected worker count''
           | Some (systems, workers) \<Rightarrow>
               (case parse_usize workers of
                  Inl err \<Rightarrow> value_error s err
                | Inr n \<Rightarrow>
                    if n = 0 then value_error s ''worker count must be greater than zero''
                    else Inr \<lparr>ra_endpoint = endpoint,
                      ra_systems = filter (\<lambda>x. x \<noteq> []) (split_char CHR '','' systems),
                      ra_workers = n\<rparr>)))"

section \<open>Plans\<close>

record eval_input =
  i_flake :: "string option"
  i_expr :: "string option"
  i_file :: "path option"
  i_arg :: "pair list"
  i_argstr :: "pair list"
  i_override_input :: "pair list"
  i_option :: "pair list"
  i_remote :: "remote_arg list"
  i_remote_token :: "string option"
  i_insecure_tokenless_remote :: bool
  i_meta :: bool
  i_show_input_drvs :: bool
  i_workers :: usize
  i_max_memory :: usize
  i_item_timeout_seconds :: u64
  i_force_recurse :: bool
  i_gc_roots_dir :: "path option"

datatype commands =
    CmdEval eval_input "path option" bool bool
  | CmdWatch eval_input "path option" bool
  | CmdQuery eval_input "path option" "string list" "string list" bool
  | CmdDiff eval_input "path option"
  | CmdDaemon "path option" bool
  | CmdWorker string "string option" bool

datatype command_plan =
    PlanEval config "path option" bool bool
  | PlanWatch config "path option" bool
  | PlanQuery config query_filter "path option"
  | PlanDiff config "path option"
  | PlanDaemon "path option" bool
  | PlanWorker string "string option"

definition remote_token :: "string option \<Rightarrow> string option \<Rightarrow> string option result" where
  "remote_token env flag =
     (let token = (case flag of Some t \<Rightarrow> Some t | None \<Rightarrow> env) in
      case token of
        Some t \<Rightarrow> if t = [] then bail ''remote token must not be empty'' else Inr token
      | None \<Rightarrow> Inr None)"

definition remote_worker_token :: "string option \<Rightarrow> string option \<Rightarrow> bool \<Rightarrow> string option result" where
  "remote_worker_token env flag allow_tokenless =
     and_then (remote_token env flag) (\<lambda>token.
       case token of
         Some t \<Rightarrow> Inr (Some t)
       | None \<Rightarrow>
           if allow_tokenless then Inr None
           else bail ''remote worker requires --token or EVIX_REMOTE_TOKEN'')"

definition auto_args :: "pair list \<Rightarrow> pair list \<Rightarrow> (string \<times> auto_arg) list" where
  "auto_args expr_args str_args =
     map (\<lambda>p. (pr_name p, ArgExpr (pr_value p))) expr_args @
     map (\<lambda>p. (pr_name p, ArgStr (pr_value p))) str_args"

definition pairs :: "pair list \<Rightarrow> (string \<times> string) list" where
  "pairs values = map (\<lambda>p. (pr_name p, pr_value p)) values"

definition config_input :: "eval_input \<Rightarrow> input result" where
  "config_input a =
     (case (i_flake a, i_expr a, i_file a) of
        (Some flake, None, None) \<Rightarrow> Inr (InputFlake flake)
      | (None, Some expr, None) \<Rightarrow> Inr (InputExpr expr)
      | (None, None, Some file) \<Rightarrow> Inr (InputFile file)
      | _ \<Rightarrow> bail ''exactly one of --flake, --expr, or --file is required'')"

definition cli_config :: "string option \<Rightarrow> eval_input \<Rightarrow> config result" where
  "cli_config env a =
     and_then (config_input a) (\<lambda>input.
     and_then (remote_token env (i_remote_token a)) (\<lambda>token.
       if i_remote a \<noteq> [] \<and> token = None \<and> \<not> i_insecure_tokenless_remote a then
         bail ''remote evaluation requires --remote-token or EVIX_REMOTE_TOKEN''
       else if i_item_timeout_seconds a = 0 then bail ''item timeout must be greater than zero''
       else
         Inr \<lparr>c_input = input,
           c_auto_args = auto_args (i_arg a) (i_argstr a),
           c_force_recurse = i_force_recurse a,
           c_gc_roots_dir = i_gc_roots_dir a,
           c_workers = i_workers a,
           c_max_memory_size = i_max_memory a,
           c_item_timeout_seconds = i_item_timeout_seconds a,
           c_meta = i_meta a,
           c_show_input_drvs = i_show_input_drvs a,
           c_override_inputs = pairs (i_override_input a),
           c_nix_options = pairs (i_option a),
           c_remotes = map (\<lambda>r. \<lparr>r_endpoint = ra_endpoint r, r_systems = ra_systems r,
             r_workers = ra_workers r, r_token = token\<rparr>) (i_remote a),
           c_worker_exe = None\<rparr>))"

definition split_attr_prefix :: "string \<Rightarrow> string list" where
  "split_attr_prefix p = filter (\<lambda>part. part \<noteq> []) (split_char CHR ''.'' p)"

definition cli_filter :: "string list \<Rightarrow> string list \<Rightarrow> query_filter" where
  "cli_filter systems pres =
     (let attr_prefixes = map split_attr_prefix pres in
      default_filter\<lparr>
        f_systems := (if systems \<noteq> [] then Some systems else None),
        f_attr_prefix := (case attr_prefixes of [p] \<Rightarrow> Some p | _ \<Rightarrow> None),
        f_attr_prefixes := (case attr_prefixes of [] \<Rightarrow> None | [p] \<Rightarrow> None | _ \<Rightarrow> Some attr_prefixes)\<rparr>)"

fun command_plan_of :: "string option \<Rightarrow> commands \<Rightarrow> command_plan result" where
  "command_plan_of env (CmdEval a socket no_daemon replay) =
     (if replay \<and> no_daemon then bail ''--replay requires the daemon''
      else and_then (cli_config env a) (\<lambda>c. Inr (PlanEval c socket (\<not> no_daemon) replay)))"
| "command_plan_of env (CmdWatch a socket no_daemon) =
     and_then (cli_config env a) (\<lambda>c.
       case c_input c of
         InputExpr _ \<Rightarrow> bail ''watch requires --flake or --file input''
       | _ \<Rightarrow> Inr (PlanWatch c socket (\<not> no_daemon)))"
| "command_plan_of env (CmdQuery a socket system attr_prefix no_daemon) =
     and_then (cli_config env a) (\<lambda>c. Inr (PlanQuery c (cli_filter system attr_prefix) socket))"
| "command_plan_of env (CmdDiff a socket) =
     and_then (cli_config env a) (\<lambda>c. Inr (PlanDiff c socket))"
| "command_plan_of env (CmdDaemon socket foreground) = Inr (PlanDaemon socket foreground)"
| "command_plan_of env (CmdWorker listen token insecure) =
     and_then (remote_worker_token env token insecure) (\<lambda>t. Inr (PlanWorker listen t))"

section \<open>Reading back packed arguments\<close>

lemma collect_packed_values_steps:
  "length values < arity \<Longrightarrow>
    collect_packed_values (v # rest) flag arity values = collect_packed_values rest flag arity (values @ [v])"
  "length values < arity \<Longrightarrow>
    collect_packed_values [] flag arity values = bail (flag @ '' requires '' @ show_nat arity @ '' values'')"
  "arity \<le> length values \<Longrightarrow> collect_packed_values rest flag arity values = Inr (values, rest)"
  by (simp_all add: collect_packed_values.simps [of "v # rest"] collect_packed_values.simps [of "[]"]
      collect_packed_values.simps [of rest])

lemma collect_packed_values_enough:
  "length values + length vs = arity \<Longrightarrow>
    collect_packed_values (vs @ rest) flag arity values = Inr (values @ vs, rest)"
  by (induction vs arbitrary: "values") (simp_all add: collect_packed_values_steps)

lemma collect_packed_values_short:
  "length values + length rest < arity \<Longrightarrow>
    collect_packed_values rest flag arity values = bail (flag @ '' requires '' @ show_nat arity @ '' values'')"
  by (induction rest arbitrary: "values") (simp_all add: collect_packed_values_steps)

lemma packed_flag_separate: "packed_arity flag = Some n \<Longrightarrow> packed_flag flag = Some (flag, n, [])"
  by (auto simp: packed_flag_def packed_arity_def split: if_splits)

lemma packed_flag_equals: "packed_arity flag = Some n \<Longrightarrow> packed_flag (flag @ ''='' @ v) = Some (flag, n, [v])"
  by (auto simp: packed_flag_def packed_arity_def split: if_splits)

lemma normalize_args_packed:
  assumes "packed_arity flag = Some n" and "length vs = n" and "\<forall>v \<in> set vs. PACK_SEP \<notin> set v"
  shows "normalize_args (flag # vs @ rest) =
    and_then (normalize_args rest) (\<lambda>out. Inr ((flag @ ''='' @ join [PACK_SEP] vs) # out))"
  using assms collect_packed_values_enough [of "[]" vs n rest flag]
  by (simp add: packed_flag_separate pack_def list_ex_iff)

lemma normalize_args_packed_equals:
  assumes "packed_arity flag = Some n" and "length (v # vs) = n" and "\<forall>v \<in> set (v # vs). PACK_SEP \<notin> set v"
  shows "normalize_args ((flag @ ''='' @ v) # vs @ rest) =
    and_then (normalize_args rest) (\<lambda>out. Inr ((flag @ ''='' @ join [PACK_SEP] (v # vs)) # out))"
  using assms collect_packed_values_enough [of "[v]" vs n rest flag] packed_flag_equals [OF assms(1), of v]
  by (simp add: pack_def list_ex_iff)

text \<open>
  Multi-value flags survive packing: for every flag that takes a name and a value, both
  spellings (\<open>--flag NAME VALUE\<close> and \<open>--flag=NAME VALUE\<close>) are rewritten to the same single
  argument, which decodes to exactly that name and value whatever characters they contain
  short of the separator; the remaining arguments are rewritten independently.
\<close>

theorem packed_pairs_roundtrip:
  assumes "packed_arity flag = Some 2" and "PACK_SEP \<notin> set name" and "PACK_SEP \<notin> set val"
  shows "\<exists>packed. pair_from_arg packed = Inr \<lparr>pr_name = name, pr_value = val\<rparr> \<and>
    normalize_args (flag # name # val # rest) =
      and_then (normalize_args rest) (\<lambda>out. Inr ((flag @ ''='' @ packed) # out)) \<and>
    normalize_args ((flag @ ''='' @ name) # val # rest) =
      and_then (normalize_args rest) (\<lambda>out. Inr ((flag @ ''='' @ packed) # out))"
  using assms normalize_args_packed [of flag 2 "[name, val]" rest]
    normalize_args_packed_equals [of flag 2 name "[val]" rest]
  by (intro exI [of _ "join [PACK_SEP] [name, val]"]) (simp add: pair_from_arg_def)

theorem packed_pairs_roundtrip_witness:
  "\<exists>packed. pair_from_arg packed = Inr \<lparr>pr_name = ''x'', pr_value = ''a=b''\<rparr> \<and>
    normalize_args [''--arg'', ''x'', ''a=b''] = Inr [''--arg='' @ packed]"
proof -
  have "packed_arity ''--arg'' = Some 2" "PACK_SEP \<notin> set ''x''" "PACK_SEP \<notin> set ''a=b''"
    by (simp_all add: packed_arity_def PACK_SEP_def)
  from packed_pairs_roundtrip [OF this, of "[]"] show ?thesis by auto
qed

text \<open>
  A remote specification survives packing: endpoint, comma-separated systems and worker
  count are read back as given, and a count of zero is refused.
\<close>

theorem packed_remote_roundtrip:
  assumes "PACK_SEP \<notin> set endpoint" and "\<forall>s \<in> set systems. s \<noteq> [] \<and> CHR '','' \<notin> set s \<and> PACK_SEP \<notin> set s"
    and "n < 2 ^ 64"
  shows "remote_from_arg (join [PACK_SEP] [endpoint, join '','' systems, show_nat n]) =
    (if n = 0 then value_error (join [PACK_SEP] [endpoint, join '','' systems, show_nat n])
        ''worker count must be greater than zero''
     else Inr \<lparr>ra_endpoint = endpoint, ra_systems = systems, ra_workers = of_nat n\<rparr>)"
proof -
  have "PACK_SEP \<notin> set (join '','' systems)"
    using assms(2) by (induction "'',''" systems rule: join.induct) (auto simp: PACK_SEP_def)
  moreover have "filter (\<lambda>x. x \<noteq> []) (split_char CHR '','' (join '','' systems)) = systems"
  proof (cases "systems = []")
    case False
    then have "split_char CHR '','' (join '','' systems) = systems"
      using assms(2) by (intro split_char_join) auto
    then show ?thesis using assms(2) by (simp add: filter_id_conv)
  qed simp
  moreover have "(of_nat n :: usize) = 0 \<longleftrightarrow> n = 0"
    using assms(3) by (auto simp: word_of_nat_eq_0_iff dest: dvd_imp_le)
  ultimately show ?thesis
    using assms(1,3) parse_usize_show_nat [OF assms(3)] by (simp add: remote_from_arg_def)
qed

theorem packed_remote_roundtrip_witness:
  "remote_from_arg (join [PACK_SEP] [''h:1'', ''x86_64-linux,aarch64-linux'', show_nat 2]) =
     Inr \<lparr>ra_endpoint = ''h:1'', ra_systems = [''x86_64-linux'', ''aarch64-linux''], ra_workers = 2\<rparr>"
proof -
  have "PACK_SEP \<notin> set ''h:1''" by (simp add: PACK_SEP_def)
  moreover have "\<forall>s \<in> set [''x86_64-linux'', ''aarch64-linux'']. s \<noteq> [] \<and> CHR '','' \<notin> set s \<and> PACK_SEP \<notin> set s"
    by (simp add: PACK_SEP_def)
  ultimately show ?thesis
    using packed_remote_roundtrip [of "''h:1''" "[''x86_64-linux'', ''aarch64-linux'']" 2] by simp
qed

text \<open>
  Arguments that are not multi-value flags are passed through unchanged and in order, and
  a multi-value flag with too few values left is an error, never silently completed.
\<close>

theorem normalize_args_other:
  "(list_all (\<lambda>a. packed_flag a = None) args \<longrightarrow> normalize_args args = Inr args) \<and>
   (packed_arity flag = Some n \<and> length vs < n \<longrightarrow>
     normalize_args (flag # vs) = bail (flag @ '' requires '' @ show_nat n @ '' values''))"
proof -
  have "list_all (\<lambda>a. packed_flag a = None) args \<Longrightarrow> normalize_args args = Inr args"
    by (induction args) simp_all
  moreover have "packed_arity flag = Some n \<Longrightarrow> length vs < n \<Longrightarrow>
      normalize_args (flag # vs) = bail (flag @ '' requires '' @ show_nat n @ '' values'')"
    by (simp add: packed_flag_separate collect_packed_values_short)
  ultimately show ?thesis by blast
qed

theorem normalize_args_other_witness:
  "normalize_args [''eval'', ''--expr'', ''1''] = Inr [''eval'', ''--expr'', ''1''] \<and>
   normalize_args [''--remote'', ''h''] = bail (''--remote'' @ '' requires '' @ show_nat 3 @ '' values'')"
proof -
  have "list_all (\<lambda>a. packed_flag a = None) [''eval'', ''--expr'', ''1'']" by code_simp
  moreover have "packed_arity ''--remote'' = Some 3 \<and> length [''h''] < 3" by (simp add: packed_arity_def)
  ultimately show ?thesis
    using normalize_args_other [of "[''eval'', ''--expr'', ''1'']" "''--remote''" 3 "[''h'']"] by blast
qed

text \<open>
  What the command line accepts, the coordinator accepts: a configuration built from
  parsed arguments has exactly the one input that was given, a token on every remote unless
  tokenless operation was allowed, and passes the coordinator's validation when its paths are
  UTF-8.
\<close>

theorem cli_config_valid:
  assumes "cli_config env a = Inr c" and "\<forall>r \<in> set (i_remote a). \<exists>s. remote_from_arg s = Inr r"
    and "\<forall>p. i_file a = Some p \<or> i_gc_roots_dir a = Some p \<longrightarrow> valid_utf8 p"
  shows "validate_config c = Inr () \<and>
    (i_flake a, i_expr a, i_file a) =
      (case c_input c of InputFlake f \<Rightarrow> (Some f, None, None) | InputExpr e \<Rightarrow> (None, Some e, None)
       | InputFile f \<Rightarrow> (None, None, Some f)) \<and>
    (\<not> i_insecure_tokenless_remote a \<longrightarrow> (\<forall>r \<in> set (c_remotes c). \<exists>t. r_token r = Some t \<and> t \<noteq> []))"
proof -
  obtain input token where
    input: "config_input a = Inr input" and token: "remote_token env (i_remote_token a) = Inr token"
    and need: "\<not> (i_remote a \<noteq> [] \<and> token = None \<and> \<not> i_insecure_tokenless_remote a)"
    and timeout: "i_item_timeout_seconds a \<noteq> 0"
    and c: "c_input c = input" "c_item_timeout_seconds c = i_item_timeout_seconds a"
      "c_gc_roots_dir c = i_gc_roots_dir a"
      "c_remotes c = map (\<lambda>r. \<lparr>r_endpoint = ra_endpoint r, r_systems = ra_systems r,
         r_workers = ra_workers r, r_token = token\<rparr>) (i_remote a)"
    using assms(1) by (auto simp: cli_config_def and_then_Ok_iff split: if_splits)
  have in_eq: "(i_flake a, i_expr a, i_file a) =
      (case input of InputFlake f \<Rightarrow> (Some f, None, None) | InputExpr e \<Rightarrow> (None, Some e, None)
       | InputFile f \<Rightarrow> (None, None, Some f))"
    using input by (auto simp: config_input_def split: option.splits)
  have "ra_workers r \<noteq> 0" if "r \<in> set (i_remote a)" for r
    using assms(2) that
    by (fastforce simp: remote_from_arg_def value_error_def split: option.splits sum.splits if_splits prod.splits)
  then have "find (\<lambda>r. r_workers r = 0) (c_remotes c) = None"
    by (auto simp: find_None_iff c)
  then have "validate_config c = Inr ()"
    using timeout assms(3) in_eq
    by (auto simp: validate_config_def c Let_def split: input.splits option.splits)
  moreover have "token = Some t \<Longrightarrow> t \<noteq> []" for t
    using token by (auto simp: remote_token_def Let_def split: option.splits if_splits)
  ultimately show ?thesis
    using in_eq need by (auto simp: c)
qed

definition ex_input :: eval_input where
  "ex_input = \<lparr>i_flake = None, i_expr = Some ''1'', i_file = None, i_arg = [], i_argstr = [],
     i_override_input = [], i_option = [], i_remote = [], i_remote_token = None,
     i_insecure_tokenless_remote = False, i_meta = False, i_show_input_drvs = False, i_workers = 1,
     i_max_memory = 4096, i_item_timeout_seconds = 60, i_force_recurse = False, i_gc_roots_dir = None\<rparr>"

theorem cli_config_valid_witness: "\<exists>c. cli_config None ex_input = Inr c \<and> validate_config c = Inr ()"
proof -
  obtain c where c: "cli_config None ex_input = Inr c"
    by (simp add: cli_config_def ex_input_def config_input_def remote_token_def)
  from cli_config_valid [OF this] c show ?thesis by (simp add: ex_input_def)
qed

text \<open>
  The query command's filter: a derivation passes exactly when its system is one of those
  given (or none was given) and its attribute path starts with one of the dotted prefixes
  given (or none was given), however many there are.
\<close>

theorem cli_filter_semantics:
  "matches_filter d (cli_filter systems pres) \<longleftrightarrow>
     (systems = [] \<or> d_system d \<in> set systems) \<and>
     (pres = [] \<or> (\<exists>p \<in> set pres. prefix (split_attr_prefix p) (d_attr_path d)))"
proof -
  consider "pres = []" | p where "pres = [p]" | p q ps where "pres = p # q # ps"
    by (metis list.exhaust)
  then show ?thesis
    by cases (auto simp: cli_filter_def default_filter_def matches_filter_def Let_def list_ex_iff
        attr_path_starts_with_prefix)
qed

end
