(* ===== verification/Paths.thy ===== *)
theory Paths
  imports Protocol
begin

text \<open>
  Filesystem paths as \<open>std::path\<close> treats them: byte strings whose order, equality and prefix
  test go by components, with joining, sorting with removal of duplicates, and the lexical
  normalisation the garbage-collector roots use.
\<close>

section \<open>Paths\<close>

datatype component = RootDir | CurDir | ParentDir | Normal string

text \<open>Rust orders components by variant and then by bytes.\<close>

fun component_rank :: "component \<Rightarrow> nat" where
  "component_rank RootDir = 0"
| "component_rank CurDir = 1"
| "component_rank ParentDir = 2"
| "component_rank (Normal _) = 3"

fun component_bytes :: "component \<Rightarrow> string" where
  "component_bytes (Normal s) = s"
| "component_bytes _ = []"

lemma component_eqI:
  "component_rank a = component_rank b \<Longrightarrow> component_bytes a = component_bytes b \<Longrightarrow> a = b"
  by (cases a; cases b) simp_all

instantiation component :: linorder
begin

definition less_eq_component :: "component \<Rightarrow> component \<Rightarrow> bool" where
  "less_eq_component a b \<longleftrightarrow> component_rank a < component_rank b \<or>
     component_rank a = component_rank b \<and> component_bytes a \<le> component_bytes b"

definition less_component :: "component \<Rightarrow> component \<Rightarrow> bool" where
  "less_component a b \<longleftrightarrow> component_rank a < component_rank b \<or>
     component_rank a = component_rank b \<and> component_bytes a < component_bytes b"

instance
  by standard
    (auto simp: less_eq_component_def less_component_def intro: component_eqI)

end

definition component_of :: "string \<Rightarrow> component" where
  "component_of piece = (if piece = ''..'' then ParentDir else Normal piece)"

definition path_components :: "path \<Rightarrow> component list" where
  "path_components p =
     (let pieces = split_char CHR ''/'' p;
          rooted = starts_with p ''/'';
          lead = (if rooted then [RootDir] else if hd pieces = ''.'' then [CurDir] else [])
      in lead @ map component_of (filter (\<lambda>piece. piece \<noteq> [] \<and> piece \<noteq> ''.'') pieces))"

definition is_absolute :: "path \<Rightarrow> bool" where
  "is_absolute p = starts_with p ''/''"

definition path_join :: "path \<Rightarrow> path \<Rightarrow> path" where
  "path_join root p =
     (if is_absolute p then p
      else if root = [] \<or> last root = CHR ''/'' then root @ p
      else root @ ''/'' @ p)"

text \<open>\<open>sort\<close> is stable; \<open>dedup\<close> keeps the first of a run of equal paths.\<close>

fun dedup_by :: "('a \<Rightarrow> 'b) \<Rightarrow> 'a list \<Rightarrow> 'a list" where
  "dedup_by f [] = []"
| "dedup_by f [x] = [x]"
| "dedup_by f (x # y # ys) =
     (if f x = f y then dedup_by f (x # ys) else x # dedup_by f (y # ys))"

text \<open>\<open>Path::starts_with\<close>.\<close>

definition path_starts_with :: "path \<Rightarrow> path \<Rightarrow> bool" where
  "path_starts_with p base = starts_with (path_components p) (path_components base)"

text \<open>\<open>Path::file_name\<close>: the last component when it is a normal one.\<close>

definition file_name :: "path \<Rightarrow> string option" where
  "file_name p =
     (case rev (path_components p) of Normal s # _ \<Rightarrow> Some s | _ \<Rightarrow> None)"

text \<open>A component that names a file: not empty, not a dot entry, without a separator.\<close>

definition plain_name :: "string \<Rightarrow> bool" where
  "plain_name s \<longleftrightarrow> s \<noteq> [] \<and> s \<noteq> ''.'' \<and> s \<noteq> ''..'' \<and> CHR ''/'' \<notin> set s"

lemma path_components_rooted:
  assumes "list_all plain_name parts"
  shows "path_components (''/'' @ join ''/'' parts) = RootDir # map Normal parts"
proof -
  have pieces: "split_char CHR ''/'' (''/'' @ join ''/'' parts) = [] # (if parts = [] then [[]] else parts)"
  proof (cases "parts = []")
    case False
    then have "split_char CHR ''/'' (join ''/'' parts) = parts"
      using assms by (intro split_char_join) (auto simp: plain_name_def list_all_iff)
    with False show ?thesis by simp
  qed simp
  have "filter (\<lambda>piece. piece \<noteq> [] \<and> piece \<noteq> ''.'') parts = parts"
    using assms by (simp add: filter_id_conv plain_name_def list_all_iff)
  moreover have "map component_of parts = map Normal parts"
    using assms by (simp add: component_of_def plain_name_def list_all_iff)
  ultimately show ?thesis
    unfolding path_components_def Let_def pieces by (simp add: starts_with_def)
qed

lemma path_components_normal: "Normal s \<in> set (path_components p) \<Longrightarrow> plain_name s"
  using split_char_parts [of s "CHR ''/''" p]
  by (auto simp: path_components_def Let_def plain_name_def component_of_def split: if_splits)

end
