(* ===== verification/Watch.thy ===== *)
theory Watch
  imports Scheduler Paths
begin

text \<open>
  Re-evaluation on file changes (\<open>crates/evix/src/watch.rs\<close>), with the library's error type
  (\<open>error.rs\<close>) and the two evaluation wrappers (\<open>run.rs\<close>). A run of the coordinator is the
  list of events it handed to the callback and its result. Filesystem notifications, the file
  system's answers and the JSON parser are parameters; paths are byte strings with Rust's
  component-wise order.
\<close>

section \<open>Errors and evaluation runs\<close>

datatype session_error =
    SessionStreamConsumed
  | InitialEvaluationIncomplete string
  | SessionStillEvaluating
  | EvaluationFailed string
  | RuntimeUnavailable string
  | SessionCancelled
  | Internal string

fun display_error :: "session_error \<Rightarrow> string" where
  "display_error SessionStreamConsumed = ''session stream has already been consumed''"
| "display_error (InitialEvaluationIncomplete operation) =
     ''Session::'' @ operation @ '' requires a completed initial evaluation''"
| "display_error SessionStillEvaluating = ''session is still evaluating''"
| "display_error SessionCancelled = ''evaluation was cancelled''"
| "display_error (EvaluationFailed message) = message"
| "display_error (RuntimeUnavailable message) = message"
| "display_error (Internal message) = message"

definition internal_error :: "(report \<Rightarrow> string) \<Rightarrow> report \<Rightarrow> session_error" where
  "internal_error render err = Internal (render err)"

type_synonym master_run = "event list \<times> run_outcome result"

type_synonym evaluation = "eval_graph \<times> eval_error list \<times> run_outcome"

definition evaluate :: "master_run \<Rightarrow> evaluation result" where
  "evaluate run =
     (let acc = accumulate (fst run) in
      and_then (snd run) (\<lambda>outcome. Inr (acc_graph acc, acc_errors acc, outcome)))"

section \<open>What is watched\<close>

definition local_flake_root :: "string \<Rightarrow> path option" where
  "local_flake_root reference =
     (let without_fragment = (case split_once CHR ''#'' reference of None \<Rightarrow> reference | Some (r, _) \<Rightarrow> r);
          p = option_or (strip_prefix ''path:'' without_fragment) without_fragment
      in if p = [] then Some ''.''
         else if p = ''.'' \<or> p = ''..'' \<or> starts_with p ''/'' \<or> starts_with p ''./'' then Some p
         else None)"

definition path_input :: "path \<Rightarrow> json \<Rightarrow> path list" where
  "path_input root node =
     (case json_get node ''locked'' of
        None \<Rightarrow> []
      | Some locked \<Rightarrow>
          if Option.bind (json_get locked ''type'') as_str \<noteq> Some ''path'' then []
          else
            (case Option.bind (json_get locked ''path'') as_str of
               None \<Rightarrow> []
             | Some p \<Rightarrow> if is_absolute p then [p] else [path_join root p]))"

definition local_path_inputs ::
  "(path \<Rightarrow> string option) \<Rightarrow> (string \<Rightarrow> json result) \<Rightarrow> path \<Rightarrow> path list result"
where
  "local_path_inputs read_to_string from_str root =
     (case read_to_string (path_join root ''flake.lock'') of
        None \<Rightarrow> Inr []
      | Some contents \<Rightarrow>
          and_then (with_context ''parsing flake.lock'' (from_str contents)) (\<lambda>lock.
            Inr (case Option.bind (json_get lock ''nodes'') as_object of
                   None \<Rightarrow> []
                 | Some nodes \<Rightarrow> concat (map (\<lambda>(_, node). path_input root node) nodes))))"

definition watched_flake_paths ::
  "(path \<Rightarrow> string option) \<Rightarrow> (string \<Rightarrow> json result) \<Rightarrow> string \<Rightarrow> path list result"
where
  "watched_flake_paths read_to_string from_str reference =
     (case local_flake_root reference of
        None \<Rightarrow> bail (''flake reference is not a local path: '' @ reference)
      | Some root \<Rightarrow>
          and_then (local_path_inputs read_to_string from_str root) (\<lambda>inputs.
            Inr (dedup_by path_components (sort_key path_components (root # inputs)))))"

definition watched_paths ::
  "(path \<Rightarrow> string option) \<Rightarrow> (string \<Rightarrow> json result) \<Rightarrow> config \<Rightarrow> path list result"
where
  "watched_paths read_to_string from_str c =
     (case c_input c of
        InputFile p \<Rightarrow> Inr [p]
      | InputExpr _ \<Rightarrow> bail ''watch requires a file or local flake input''
      | InputFlake reference \<Rightarrow> watched_flake_paths read_to_string from_str reference)"

section \<open>The watch loop\<close>

datatype watch_action = WatchContinue | WatchStop

definition set_warm :: "eval_graph \<Rightarrow> eval_error list \<Rightarrow> warm_state \<Rightarrow> warm_state" where
  "set_warm graph errors ws =
     ws\<lparr>ws_graph := graph, ws_errors := errors, ws_completed := True, ws_error := None\<rparr>"

text \<open>The sender fails when the receiver was dropped; what it accepts is appended to the items.\<close>

type_synonym watch_items = "(session_error + diff) list"

definition watch_send :: "bool \<Rightarrow> session_error + diff \<Rightarrow> watch_items \<Rightarrow> unit result \<times> watch_items" where
  "watch_send send_ok item items =
     (if send_ok then (Inr (), items @ [item]) else (bail ''watch stream receiver was dropped'', items))"

definition apply_watch_evaluation_result ::
  "(report \<Rightarrow> string) \<Rightarrow> bool \<Rightarrow> evaluation result \<Rightarrow> eval_graph \<Rightarrow> warm_state \<Rightarrow> watch_items \<Rightarrow>
    watch_action result \<times> warm_state \<times> watch_items"
where
  "apply_watch_evaluation_result render send_ok r previous ws items =
     (case r of
        Inl err \<Rightarrow>
          (case watch_send send_ok (Inl (internal_error render err)) items of (sent, items') \<Rightarrow>
             (and_then sent (\<lambda>_. Inr WatchContinue), ws, items'))
      | Inr (graph, errors, outcome) \<Rightarrow>
          if outcome = Cancelled then (Inr WatchStop, ws, items)
          else
            let df = diff_graphs previous graph errors;
                ws' = set_warm graph errors ws
            in case watch_send send_ok (Inr df) items of (sent, items') \<Rightarrow>
                 (and_then sent (\<lambda>_. Inr WatchContinue), ws', items'))"

text \<open>
  What one turn of the loop finds: the cancellation flag is set, the wait timed out, a
  notification (with the run of the evaluation it starts), a watcher error, or the watcher
  gone; and whether the receiver still takes items.
\<close>

datatype watch_turn =
    WatchCancelled
  | WatchTimeout
  | WatchEvent master_run bool
  | WatchError string bool
  | WatchDisconnected

fun watch_turns ::
  "(report \<Rightarrow> string) \<Rightarrow> watch_turn list \<Rightarrow> warm_state \<Rightarrow> watch_items \<Rightarrow>
    unit result option \<times> warm_state \<times> watch_items"
where
  "watch_turns render [] ws items = (None, ws, items)"
| "watch_turns render (WatchCancelled # ts) ws items = (Some (Inr ()), ws, items)"
| "watch_turns render (WatchTimeout # ts) ws items = watch_turns render ts ws items"
| "watch_turns render (WatchEvent run send_ok # ts) ws items =
     (case apply_watch_evaluation_result render send_ok (evaluate run) (ws_graph ws) ws items of
        (Inl e, ws', items') \<Rightarrow> (Some (Inl e), ws', items')
      | (Inr WatchStop, ws', items') \<Rightarrow> (Some (Inr ()), ws', items')
      | (Inr WatchContinue, ws', items') \<Rightarrow> watch_turns render ts ws' items')"
| "watch_turns render (WatchError e send_ok # ts) ws items =
     (case watch_send send_ok (Inl (Internal (''filesystem watch error: '' @ e))) items of
        (Inl err, items') \<Rightarrow> (Some (Inl err), ws, items')
      | (Inr _, items') \<Rightarrow> watch_turns render ts ws items')"
| "watch_turns render (WatchDisconnected # ts) ws items =
     (Some (bail ''filesystem watcher disconnected''), ws, items)"

text \<open>
  Waiting for the initial evaluation: each wake-up sees the cancellation flag and the warm
  state; \<open>None\<close> is still waiting.
\<close>

fun wait_for_initial_evaluation :: "(bool \<times> warm_state) list \<Rightarrow> unit result option" where
  "wait_for_initial_evaluation [] = None"
| "wait_for_initial_evaluation ((cancel, ws) # wakeups) =
     (if cancel then Some (bail ''session dropped before initial evaluation completed'')
      else if ws_completed ws then Some (Inr ())
      else
        (case ws_error ws of
           Some e \<Rightarrow> Some (bail e)
         | None \<Rightarrow> wait_for_initial_evaluation wakeups))"

definition watch_loop ::
  "(report \<Rightarrow> string) \<Rightarrow> (path \<Rightarrow> string option) \<Rightarrow> (string \<Rightarrow> json result) \<Rightarrow> (path list \<Rightarrow> unit result) \<Rightarrow>
    config \<Rightarrow> (bool \<times> warm_state) list \<Rightarrow> watch_turn list \<Rightarrow> warm_state \<Rightarrow>
    unit result option \<times> warm_state \<times> watch_items"
where
  "watch_loop render read_to_string from_str start_watcher c wakeups turns ws =
     (case wait_for_initial_evaluation wakeups of
        None \<Rightarrow> (None, ws, [])
      | Some (Inl e) \<Rightarrow> (Some (Inl e), ws, [])
      | Some (Inr _) \<Rightarrow>
          (case and_then (watched_paths read_to_string from_str c) start_watcher of
             Inl e \<Rightarrow> (Some (Inl e), ws, [])
           | Inr _ \<Rightarrow> watch_turns render turns ws []))"

section \<open>What the watcher promises\<close>

lemma dedup_by_hd: "xs \<noteq> [] \<Longrightarrow> dedup_by f xs \<noteq> [] \<and> hd (dedup_by f xs) = hd xs"
  by (induction f xs rule: dedup_by.induct) auto

lemma dedup_by_image: "f ` set (dedup_by f xs) = f ` set xs"
  by (induction f xs rule: dedup_by.induct) auto

lemma dedup_by_subset: "set (dedup_by f xs) \<subseteq> set xs"
  by (induction f xs rule: dedup_by.induct) (auto split: if_splits)

lemma dedup_by_sorted: "sorted (map f xs) \<Longrightarrow> sorted_wrt (<) (map f (dedup_by f xs))"
  for f :: "'a \<Rightarrow> 'b :: linorder"
proof (induction f xs rule: dedup_by.induct)
  case (3 f x y ys)
  show ?case
  proof (cases "f x = f y")
    case True
    with 3 show ?thesis by auto
  next
    case False
    with 3 have "sorted_wrt (<) (map f (dedup_by f (y # ys)))" by simp
    moreover have "\<forall>z \<in> set (dedup_by f (y # ys)). f x < f z"
      using dedup_by_subset [of f "y # ys"] "3.prems" False by fastforce
    ultimately show ?thesis using False by simp
  qed
qed simp_all

text \<open>
  The watched set of a local flake is the root and the local path inputs of its lock
  file: every one of them is watched, nothing else is, and no path twice (paths compared by
  components, listed in order).
\<close>

theorem watched_flake_paths_complete:
  assumes "local_flake_root reference = Some root"
    and "local_path_inputs read_to_string from_str root = Inr inputs"
  shows "\<exists>ps. watched_flake_paths read_to_string from_str reference = Inr ps \<and>
    path_components ` set ps = path_components ` set (root # inputs) \<and>
    set ps \<subseteq> set (root # inputs) \<and> sorted_wrt (<) (map path_components ps)"
proof -
  let ?s = "sort_key path_components (root # inputs)"
  have "sorted (map path_components ?s)" by (rule sorted_sort_key)
  then show ?thesis
    using assms dedup_by_image [of path_components ?s] dedup_by_subset [of path_components ?s]
      dedup_by_sorted [of path_components ?s]
    by (simp add: watched_flake_paths_def del: sort_key_simps)
qed

definition ex_lock :: json where
  "ex_lock = JObject [(''nodes'', JObject
     [(''a'', JObject [(''locked'', JObject [(''path'', JString ''dep''), (''type'', JString ''path'')])]),
      (''b'', JObject [(''locked'', JObject [(''path'', JString ''/x''), (''type'', JString ''git'')])])])]"

theorem watched_flake_paths_complete_witness:
  "\<exists>ps. watched_flake_paths (\<lambda>p. if p = ''./flake.lock'' then Some ''lock'' else None) (\<lambda>_. Inr ex_lock)
      ''.#jobs'' = Inr ps \<and>
    path_components ` set ps = path_components ` set (''.'' # [''./dep'']) \<and>
    set ps \<subseteq> set (''.'' # [''./dep'']) \<and> sorted_wrt (<) (map path_components ps)"
proof (rule watched_flake_paths_complete)
  show "local_flake_root ''.#jobs'' = Some ''.''" by code_simp
  show "local_path_inputs (\<lambda>p. if p = ''./flake.lock'' then Some ''lock'' else None) (\<lambda>_. Inr ex_lock) ''.'' =
    Inr [''./dep'']" by code_simp
qed

text \<open>
  The diffs a watch sends form a chain from the warm graph it started with to the one it
  ends with: each is the difference between consecutive graphs, whatever failed in between.
\<close>

inductive diff_chain :: "eval_graph \<Rightarrow> diff list \<Rightarrow> eval_graph \<Rightarrow> bool" where
  chain_Nil: "diff_chain g [] g"
| chain_Cons: "graph_ok g' \<Longrightarrow> diff_chain g' ds h \<Longrightarrow> diff_chain g (diff_graphs g g' errors # ds) h"

inductive_cases diff_chain_NilE: "diff_chain g [] h"
inductive_cases diff_chain_ConsE: "diff_chain g (d # ds) h"

definition sent_diffs :: "watch_items \<Rightarrow> diff list" where
  "sent_diffs items = concat (map (\<lambda>i. case i of Inr d \<Rightarrow> [d] | Inl _ \<Rightarrow> []) items)"

lemma sent_diffs_simps [simp]:
  "sent_diffs [] = []" "sent_diffs (a @ b) = sent_diffs a @ sent_diffs b"
  "sent_diffs [Inr d] = [d]" "sent_diffs [Inl e] = []"
  by (simp_all add: sent_diffs_def)

lemma evaluate_Ok_iff:
  "evaluate run = Inr (graph, errors, outcome) \<longleftrightarrow>
     snd run = Inr outcome \<and> graph = acc_graph (accumulate (fst run)) \<and>
     errors = acc_errors (accumulate (fst run))"
  by (auto simp: evaluate_def Let_def and_then_Ok_iff)

lemma diff_chain_start_ok: "diff_chain g ds h \<Longrightarrow> graph_ok g \<Longrightarrow> graph_ok h"
  by (induction rule: diff_chain.induct) auto

lemma watch_turns_chain:
  assumes "watch_turns render ts ws items = (exit, ws', items')" and "graph_ok (ws_graph ws)"
    and "\<forall>t \<in> set ts. \<forall>run. t \<noteq> WatchEvent run False"
  shows "\<exists>new. items' = items @ new \<and> diff_chain (ws_graph ws) (sent_diffs new) (ws_graph ws')"
  using assms
proof (induction render ts ws items rule: watch_turns.induct)
  case (4 render run send_ok ts ws items)
  then have send: "send_ok" by (metis (full_types) list.set_intros(1))
  show ?case
  proof (cases "evaluate run")
    case (Inl err)
    let ?i = "Inl (internal_error render err) :: session_error + diff"
    have app: "apply_watch_evaluation_result render send_ok (evaluate run) (ws_graph ws) ws items =
        (Inr WatchContinue, ws, items @ [?i])"
      using Inl send by (simp add: apply_watch_evaluation_result_def watch_send_def)
    have "\<exists>new. items' = (items @ [?i]) @ new \<and> diff_chain (ws_graph ws) (sent_diffs new) (ws_graph ws')"
      by (rule "4.IH" [OF app [symmetric] refl refl]) (use 4 app in auto)
    then obtain new where "items' = items @ ?i # new"
      "diff_chain (ws_graph ws) (sent_diffs new) (ws_graph ws')"
      by auto
    then show ?thesis by (auto simp: sent_diffs_def intro!: exI [of _ "Inl (internal_error render err) # new"])
  next
    case (Inr res)
    obtain graph errors outcome where res: "res = (graph, errors, outcome)" by (metis prod_cases3)
    with Inr have graph: "graph_ok graph" by (auto simp: evaluate_Ok_iff accumulate_graph_ok)
    show ?thesis
    proof (cases outcome)
      case Cancelled
      with 4 Inr res show ?thesis
        by (auto simp: apply_watch_evaluation_result_def intro: chain_Nil)
    next
      case Completed
      let ?d = "diff_graphs (ws_graph ws) graph errors"
      have app: "apply_watch_evaluation_result render send_ok (evaluate run) (ws_graph ws) ws items =
          (Inr WatchContinue, set_warm graph errors ws, items @ [Inr ?d])"
        using Inr res Completed send
        by (simp add: apply_watch_evaluation_result_def watch_send_def Let_def)
      have w: "ws_graph (set_warm graph errors ws) = graph" by (simp add: set_warm_def)
      have "\<exists>new. items' = (items @ [Inr ?d]) @ new \<and>
          diff_chain (ws_graph (set_warm graph errors ws)) (sent_diffs new) (ws_graph ws')"
        by (rule "4.IH" [OF app [symmetric] refl refl]) (use 4 app graph w in auto)
      then obtain new where new: "items' = items @ Inr ?d # new"
        "diff_chain graph (sent_diffs new) (ws_graph ws')"
        unfolding w by auto
      with graph show ?thesis
        by (auto simp: sent_diffs_def intro!: exI [of _ "Inr ?d # new"] chain_Cons)
    qed
  qed
next
  case (5 render e send_ok ts ws items)
  show ?case
  proof (cases send_ok)
    case True
    with 5 obtain new where "items' = items @ Inl (Internal (''filesystem watch error: '' @ e)) # new"
      "diff_chain (ws_graph ws) (sent_diffs new) (ws_graph ws')"
      by (auto simp: watch_send_def)
    then show ?thesis
      by (auto simp: sent_diffs_def intro!: exI [of _ "Inl (Internal (''filesystem watch error: '' @ e)) # new"])
  next
    case False
    with 5 show ?thesis by (auto simp: watch_send_def bail_def intro: chain_Nil)
  qed
qed (auto intro: chain_Nil)

text \<open>A subscriber that knows each attribute's \<open>.drv\<close> path applies a diff to what it knows.\<close>

definition patch_drvs :: "diff \<Rightarrow> (attr_path \<rightharpoonup> string) \<Rightarrow> (attr_path \<rightharpoonup> string)" where
  "patch_drvs df m =
     (m |` (- d_attr_path ` set (df_removed df))) ++
       map_of (map (\<lambda>d. (d_attr_path d, d_drv_path d)) (df_added df))"

lemma patch_drvs_apply_diff: "patch_drvs df (drv_at g) p = map_option d_drv_path (apply_diff df g p)"
proof -
  have eq: "map_of (map (\<lambda>d. (d_attr_path d, d_drv_path d)) ds) p =
      map_option d_drv_path (map_of (map (\<lambda>d. (d_attr_path d, d)) ds) p)" for ds
    by (induction ds) auto
  show ?thesis
    by (simp add: patch_drvs_def apply_diff_def drv_at_def map_add_def restrict_map_def eq
        split: option.splits)
qed

lemma patch_drvs_diff:
  "graph_ok g \<Longrightarrow> graph_ok g' \<Longrightarrow> patch_drvs (diff_graphs g g' errors) (drv_at g) = drv_at g'"
  by (rule ext) (simp add: patch_drvs_apply_diff apply_diff_drv)

lemma diff_chain_patches:
  "diff_chain g ds h \<Longrightarrow> graph_ok g \<Longrightarrow> fold patch_drvs ds (drv_at g) = drv_at h"
  by (induction rule: diff_chain.induct) (simp_all add: patch_drvs_diff)

text \<open>
  C14. A watch subscriber that applies every diff it gets knows the warm graph: through any
  sequence of notifications, failed re-evaluations, watcher errors and a final cancellation,
  the patches take it from the \<open>.drv\<close> paths of the graph at the start to those of the graph
  the session holds at the end. A failed or cancelled re-evaluation changes neither.
\<close>

theorem watch_subscriber_follows_graph:
  assumes "watch_turns render ts ws [] = (exit, ws', items)" and "graph_ok (ws_graph ws)"
    and "\<forall>t \<in> set ts. \<forall>run. t \<noteq> WatchEvent run False"
  shows "fold patch_drvs (sent_diffs items) (drv_at (ws_graph ws)) = drv_at (ws_graph ws')"
proof -
  from watch_turns_chain [OF assms] have "diff_chain (ws_graph ws) (sent_diffs items) (ws_graph ws')"
    by simp
  then show ?thesis using assms(2) by (rule diff_chain_patches)
qed

definition ex_watch_turns :: "watch_turn list" where
  "ex_watch_turns =
     [WatchTimeout,
      WatchEvent ([Derivation (ex_graph_drv ''a'' ''1'')], Inr Completed) True,
      WatchEvent ([], bail ''broken'') True,
      WatchEvent ([Derivation (ex_graph_drv ''a'' ''2''), Derivation (ex_graph_drv ''b'' ''1'')], Inr Completed) True,
      WatchCancelled]"

theorem watch_subscriber_follows_graph_witness:
  "fold patch_drvs (sent_diffs (snd (snd (watch_turns (\<lambda>_. ''e'') ex_watch_turns default_warm_state []))))
     (drv_at []) [''a''] = Some ''2''"
proof -
  let ?w = "watch_turns (\<lambda>_. ''e'') ex_watch_turns default_warm_state []"
  have "?w = (fst ?w, fst (snd ?w), snd (snd ?w))" by simp
  moreover have "graph_ok (ws_graph default_warm_state)"
    by (simp add: default_warm_state_def graph_ok_def)
  moreover have "\<forall>t \<in> set ex_watch_turns. \<forall>run. t \<noteq> WatchEvent run False"
    by (simp add: ex_watch_turns_def)
  ultimately have "fold patch_drvs (sent_diffs (snd (snd ?w))) (drv_at (ws_graph default_warm_state)) =
      drv_at (ws_graph (fst (snd ?w)))"
    by (rule watch_subscriber_follows_graph)
  moreover have "drv_at (ws_graph (fst (snd ?w))) [''a''] = Some ''2''" by code_simp
  ultimately show ?thesis by (simp add: default_warm_state_def)
qed

text \<open>
  The wait for the initial evaluation ends as soon as it can: it returns at the first
  wake-up that sees cancellation, completion or a stored failure, with cancellation first,
  and completion winning over a stale failure text; before that it keeps waiting.
\<close>

theorem wait_for_initial_evaluation_decides:
  "wait_for_initial_evaluation wakeups =
     map_option (\<lambda>(cancel, ws).
         if cancel then bail ''session dropped before initial evaluation completed''
         else if ws_completed ws then Inr ()
         else bail (the (ws_error ws)))
       (find (\<lambda>(cancel, ws). cancel \<or> ws_completed ws \<or> ws_error ws \<noteq> None) wakeups)"
  by (induction wakeups rule: wait_for_initial_evaluation.induct) auto

end
