(* ===== verification/Session.thy ===== *)
theory Session
  imports Watch
begin

text \<open>
  Long-lived evaluation sessions (\<open>crates/evix/src/session.rs\<close>): the single-use initial
  evaluation, its three outcomes, the operations on the warm state, and the state machine
  they form. A run of the coordinator, whether a Tokio runtime is active, and whether a
  \<open>try_read\<close> or \<open>try_write\<close> finds the lock free are parameters of the operations that depend
  on them; the notification object is the number of times its waiters were woken.
\<close>

section \<open>State\<close>

datatype initial_evaluation = InitIdle | InitRunning | InitFinished

record session =
  ss_config :: config
  ss_cancel :: bool
  ss_state :: warm_state
  ss_completed :: nat
  ss_initial :: initial_evaluation

definition session_open :: "config \<Rightarrow> session" where
  "session_open c = \<lparr>ss_config = c, ss_cancel = False, ss_state = default_warm_state,
     ss_completed = 0, ss_initial = InitIdle\<rparr>"

definition notify_waiters :: "session \<Rightarrow> session" where
  "notify_waiters s = s\<lparr>ss_completed := ss_completed s + 1\<rparr>"

definition start_initial_evaluation :: "session \<Rightarrow> bool \<times> session" where
  "start_initial_evaluation s =
     (case ss_initial s of
        InitIdle \<Rightarrow> (True, s\<lparr>ss_initial := InitRunning\<rparr>)
      | InitRunning \<Rightarrow> (False, s)
      | InitFinished \<Rightarrow> (False, s))"

definition initial_unavailable_error :: "bool \<Rightarrow> session \<Rightarrow> session_error" where
  "initial_unavailable_error readable s =
     (if readable then
        (case ws_error (ss_state s) of
           Some e \<Rightarrow> EvaluationFailed e
         | None \<Rightarrow> SessionStreamConsumed)
      else SessionStreamConsumed)"

definition finish_initial_evaluation :: "session \<Rightarrow> session" where
  "finish_initial_evaluation s = s\<lparr>ss_initial := InitFinished\<rparr>"

definition record_initial_error :: "string \<Rightarrow> session \<Rightarrow> session" where
  "record_initial_error e s =
     finish_initial_evaluation (notify_waiters (s\<lparr>ss_state := (ss_state s)\<lparr>ws_error := Some e\<rparr>\<rparr>))"

section \<open>Operations\<close>

definition evaluate_initial ::
  "(report \<Rightarrow> string) \<Rightarrow> master_run \<Rightarrow> session \<Rightarrow> run_outcome result \<times> session"
where
  "evaluate_initial render run s =
     (case evaluate run of
        Inr (graph, errors, Completed) \<Rightarrow>
          (Inr Completed, notify_waiters (s\<lparr>ss_state := set_warm graph errors (ss_state s)\<rparr>))
      | Inr (_, _, Cancelled) \<Rightarrow> (Inr Cancelled, notify_waiters s)
      | Inl err \<Rightarrow>
          (Inl err, notify_waiters (s\<lparr>ss_state := (ss_state s)\<lparr>ws_error := Some (render err)\<rparr>\<rparr>)))"

text \<open>The match on the initial evaluation's outcome: the error sent to the stream, if any.\<close>

definition settle_initial ::
  "(report \<Rightarrow> string) \<Rightarrow> master_run \<Rightarrow> session \<Rightarrow> session_error option \<times> session"
where
  "settle_initial render run s =
     (case evaluate_initial render run s of
        (Inr Completed, s') \<Rightarrow> (None, finish_initial_evaluation s')
      | (Inr Cancelled, s') \<Rightarrow>
          (Some SessionCancelled, record_initial_error (display_error SessionCancelled) s')
      | (Inl err, s') \<Rightarrow> (Some (internal_error render err), record_initial_error (render err) s'))"

definition stream_task ::
  "(report \<Rightarrow> string) \<Rightarrow> master_run \<Rightarrow> session \<Rightarrow> (session_error + event) list \<times> session"
where
  "stream_task render run s =
     (case settle_initial render run s of (err, s') \<Rightarrow>
        (map Inr (fst run) @ (case err of None \<Rightarrow> [] | Some e \<Rightarrow> [Inl e]), s'))"

definition NO_RUNTIME :: string where
  "NO_RUNTIME = ''Session streams require an active Tokio runtime''"

definition spawn_session_task ::
  "bool \<Rightarrow> bool \<Rightarrow> (session \<Rightarrow> (session_error + 'a) list \<times> session) \<Rightarrow> session \<Rightarrow>
    (session_error + 'a) list \<times> session"
where
  "spawn_session_task runtime writable task s =
     (if runtime then task s
      else
        let s1 = (if writable then s\<lparr>ss_state := (ss_state s)\<lparr>ws_error := Some NO_RUNTIME\<rparr>\<rparr> else s)
        in ([Inl (RuntimeUnavailable NO_RUNTIME)], notify_waiters (finish_initial_evaluation s1)))"

definition stream ::
  "(report \<Rightarrow> string) \<Rightarrow> bool \<Rightarrow> bool \<Rightarrow> bool \<Rightarrow> master_run \<Rightarrow> session \<Rightarrow>
    (session_error + event) list \<times> session"
where
  "stream render runtime readable writable run s =
     (case start_initial_evaluation s of
        (False, s') \<Rightarrow> ([Inl (initial_unavailable_error readable s')], s')
      | (True, s') \<Rightarrow> spawn_session_task runtime writable (stream_task render run) s')"

definition DEFAULT_STREAM_BUFFER_CAPACITY :: usize where
  "DEFAULT_STREAM_BUFFER_CAPACITY = 1024"

definition bounded_capacity :: "usize \<Rightarrow> usize" where
  "bounded_capacity capacity = max capacity 1"

text \<open>
  The bounded streams send through a channel of that capacity: a task waits until there is
  room, so it sends the same items; before there is a task, \<open>try_send\<close> on the still empty
  channel drops what does not fit.
\<close>

definition try_send_first :: "usize \<Rightarrow> 'a \<Rightarrow> 'a list" where
  "try_send_first capacity x = (if capacity = 0 then [] else [x])"

definition spawn_session_task_bounded ::
  "usize \<Rightarrow> bool \<Rightarrow> bool \<Rightarrow> (session \<Rightarrow> (session_error + 'a) list \<times> session) \<Rightarrow> session \<Rightarrow>
    (session_error + 'a) list \<times> session"
where
  "spawn_session_task_bounded capacity runtime writable task s =
     (if runtime then task s
      else
        let s1 = (if writable then s\<lparr>ss_state := (ss_state s)\<lparr>ws_error := Some NO_RUNTIME\<rparr>\<rparr> else s)
        in (try_send_first capacity (Inl (RuntimeUnavailable NO_RUNTIME)),
            notify_waiters (finish_initial_evaluation s1)))"

definition stream_bounded ::
  "(report \<Rightarrow> string) \<Rightarrow> bool \<Rightarrow> bool \<Rightarrow> bool \<Rightarrow> master_run \<Rightarrow> usize \<Rightarrow> session \<Rightarrow>
    (session_error + event) list \<times> session"
where
  "stream_bounded render runtime readable writable run capacity s =
     (let room = bounded_capacity capacity
      in case start_initial_evaluation s of
           (False, s') \<Rightarrow> (try_send_first room (Inl (initial_unavailable_error readable s')), s')
         | (True, s') \<Rightarrow> spawn_session_task_bounded room runtime writable (stream_task render run) s')"

text \<open>
  \<open>watch\<close>: the initial evaluation when this call is the first, with its events dropped, then
  the watch loop on the warm state. The loop sees the state the session holds when it waits
  and may still be running (\<open>None\<close>).
\<close>

definition watch_task ::
  "(report \<Rightarrow> string) \<Rightarrow> (session \<Rightarrow> unit result option \<times> warm_state \<times> watch_items) \<Rightarrow> bool \<Rightarrow>
    master_run \<Rightarrow> session \<Rightarrow> watch_items \<times> session"
where
  "watch_task render loop start_initial run s =
     (case (if start_initial then settle_initial render run s else (None, s)) of
        (Some e, s') \<Rightarrow> ([Inl e], s')
      | (None, s') \<Rightarrow>
          (case loop s' of (exit, ws, items) \<Rightarrow>
             (items @ (case exit of Some (Inl err) \<Rightarrow> [Inl (internal_error render err)] | _ \<Rightarrow> []),
              s'\<lparr>ss_state := ws\<rparr>)))"

definition session_watch ::
  "(report \<Rightarrow> string) \<Rightarrow> bool \<Rightarrow> bool \<Rightarrow> (session \<Rightarrow> unit result option \<times> warm_state \<times> watch_items) \<Rightarrow>
    master_run \<Rightarrow> session \<Rightarrow> watch_items \<times> session"
where
  "session_watch render runtime writable loop run s =
     (case start_initial_evaluation s of (start_initial, s') \<Rightarrow>
        spawn_session_task runtime writable (watch_task render loop start_initial run) s')"

definition session_watch_bounded ::
  "(report \<Rightarrow> string) \<Rightarrow> bool \<Rightarrow> bool \<Rightarrow> (session \<Rightarrow> unit result option \<times> warm_state \<times> watch_items) \<Rightarrow>
    master_run \<Rightarrow> usize \<Rightarrow> session \<Rightarrow> watch_items \<times> session"
where
  "session_watch_bounded render runtime writable loop run capacity s =
     (case start_initial_evaluation s of (start_initial, s') \<Rightarrow>
        spawn_session_task_bounded (bounded_capacity capacity) runtime writable
          (watch_task render loop start_initial run) s')"

text \<open>
  A capacity of zero is treated as one, so the bounded streams give what the unbounded ones
  give for every capacity, the errors before there is a task included.
\<close>

lemma bounded_capacity_positive: "bounded_capacity capacity \<noteq> 0"
  by (auto simp: bounded_capacity_def max_def)

lemma bounded_streams_same_items [simp]:
  "stream_bounded render runtime readable writable run capacity s =
     stream render runtime readable writable run s"
  "session_watch_bounded render runtime writable loop run capacity s =
     session_watch render runtime writable loop run s"
  by (cases "start_initial_evaluation s", simp add: stream_bounded_def stream_def session_watch_bounded_def
      session_watch_def spawn_session_task_bounded_def spawn_session_task_def try_send_first_def
      bounded_capacity_positive Let_def split: bool.split)+

definition require_warm :: "string \<Rightarrow> session \<Rightarrow> session_error + eval_graph" where
  "require_warm operation s =
     (if ws_completed (ss_state s) then Inr (ws_graph (ss_state s))
      else
        (case ws_error (ss_state s) of
           Some e \<Rightarrow> Inl (EvaluationFailed e)
         | None \<Rightarrow> Inl (InitialEvaluationIncomplete operation)))"

definition query_snapshot :: "query_filter \<Rightarrow> session \<Rightarrow> session_error + derivation list" where
  "query_snapshot f s =
     (case require_warm ''query_snapshot'' s of
        Inl e \<Rightarrow> Inl e
      | Inr graph \<Rightarrow> Inr (filter (\<lambda>drv. matches_filter drv f) (map snd graph)))"

definition diff_once ::
  "(report \<Rightarrow> string) \<Rightarrow> master_run \<Rightarrow> session \<Rightarrow> (session_error + diff) \<times> session"
where
  "diff_once render run s =
     (case require_warm ''diff_once'' s of
        Inl e \<Rightarrow> (Inl e, s)
      | Inr previous \<Rightarrow>
          (case evaluate run of
             Inl err \<Rightarrow> (Inl (internal_error render err), s)
           | Inr (graph, errors, outcome) \<Rightarrow>
               if outcome = Cancelled then (Inl SessionCancelled, s)
               else (Inr (diff_graphs previous graph errors),
                     s\<lparr>ss_state := set_warm graph errors (ss_state s)\<rparr>)))"

definition is_completed :: "session \<Rightarrow> bool" where
  "is_completed s = ws_completed (ss_state s)"


definition require_completed :: "session \<Rightarrow> session_error + unit" where
  "require_completed s =
     (if ws_completed (ss_state s) then Inr ()
      else
        (case ws_error (ss_state s) of
           Some e \<Rightarrow> Inl (EvaluationFailed e)
         | None \<Rightarrow> Inl SessionStillEvaluating))"

section \<open>The state machine\<close>

text \<open>
  A session's steps, from whichever task or thread they come, on the session, whether the
  claim of the initial evaluation has an owner that has not settled it, and whether a failing
  spawn ever found the lock taken: claiming the initial evaluation; its task settling (its two
  adjacent writes as one step: no operation tells a running evaluation from a finished one);
  the spawn of the claiming stream failing; the spawn of a watch failing, whether this watch
  made the claim or found it made, in whatever state the session is; a re-evaluation; a watch
  turn once the initial evaluation completed; and a cancellation request.
\<close>

type_synonym session_world = "session \<times> bool \<times> bool"


fun session_inv :: "session_world \<Rightarrow> bool" where
  "session_inv (s, claimed, missed) \<longleftrightarrow>
     graph_ok (ws_graph (ss_state s)) \<and>
     (ws_completed (ss_state s) \<longrightarrow> ws_error (ss_state s) \<in> {None, Some NO_RUNTIME}) \<and>
     (ss_initial s \<noteq> InitFinished \<longrightarrow> ss_state s = default_warm_state) \<and>
     (ss_initial s = InitFinished \<longrightarrow> missed \<or> ws_completed (ss_state s) \<or> ws_error (ss_state s) \<noteq> None) \<and>
     (\<not> ws_completed (ss_state s) \<longrightarrow> ws_graph (ss_state s) = []) \<and>
     (claimed \<longrightarrow> \<not> ws_completed (ss_state s) \<and> ss_initial s \<noteq> InitIdle)"


lemma settle_initial_cases:
  obtains (done_ok) "snd run = Inr Completed" "settle_initial render run s =
      (None, (notify_waiters (s\<lparr>ss_state := set_warm (acc_graph (accumulate (fst run)))
        (acc_errors (accumulate (fst run))) (ss_state s)\<rparr>))\<lparr>ss_initial := InitFinished\<rparr>)"
  | (cancelled) "snd run = Inr Cancelled" "settle_initial render run s =
      (Some SessionCancelled, record_initial_error (display_error SessionCancelled) (notify_waiters s))"
  | (failed) err where "snd run = Inl err" "settle_initial render run s =
      (Some (internal_error render err), record_initial_error (render err)
        (notify_waiters (s\<lparr>ss_state := (ss_state s)\<lparr>ws_error := Some (render err)\<rparr>\<rparr>)))"
proof (cases "snd run")
  case (Inl err)
  then show ?thesis
    by (intro failed) (simp_all add: settle_initial_def evaluate_initial_def evaluate_def)
next
  case (Inr outcome)
  then show ?thesis
    by (cases outcome) (auto simp: settle_initial_def evaluate_initial_def evaluate_def
        finish_initial_evaluation_def Let_def intro: done_ok cancelled)
qed

lemma set_warm_simps [simp]:
  "ws_graph (set_warm g es ws) = g" "ws_errors (set_warm g es ws) = es"
  "ws_completed (set_warm g es ws)" "ws_error (set_warm g es ws) = None"
  by (simp_all add: set_warm_def)



lemma default_warm_incomplete [simp]:
  "\<not> ws_completed default_warm_state" "ws_error default_warm_state = None" "ws_graph default_warm_state = []"
  by (simp_all add: default_warm_state_def)

lemma graph_ok_Nil [simp]: "graph_ok []"
  by (simp add: graph_ok_def)



lemma session_inv_notify [simp]:
  "session_inv (notify_waiters s, claimed, missed) = session_inv (s, claimed, missed)"
  by (simp add: notify_waiters_def)

lemma record_initial_error_idem:
  "record_initial_error e (notify_waiters (s\<lparr>ss_state := (ss_state s)\<lparr>ws_error := x\<rparr>\<rparr>)) =
   record_initial_error e (notify_waiters s)"
  by (simp add: record_initial_error_def notify_waiters_def finish_initial_evaluation_def)

lemma notify_waiters_state [simp]: "ss_state (notify_waiters s) = ss_state s"
  by (simp add: notify_waiters_def)










section \<open>What a session promises\<close>


lemma settle_open_completed:
  "ss_initial s = InitIdle \<Longrightarrow> snd run = Inr Completed \<Longrightarrow>
    ss_state (snd (stream render True readable writable run s)) =
      set_warm (acc_graph (accumulate (fst run))) (acc_errors (accumulate (fst run))) (ss_state s)"
  by (simp add: stream_def start_initial_evaluation_def spawn_session_task_def stream_task_def
      settle_initial_def evaluate_initial_def evaluate_def notify_waiters_def
      finish_initial_evaluation_def Let_def)


text \<open>
  What the two exceptions of the invariant are: a failing spawn that finds the lock taken marks
  the evaluation finished with nothing stored, so every later caller is told that the session
  is still evaluating; and a watch without a runtime stores its failure on a completed session.
\<close>

lemma spawn_failure_unreported:
  assumes "ws_error (ss_state s) = None" and "\<not> is_completed s"
    and "spawn_session_task False False task s = (items, s')"
  shows "ss_initial s' = InitFinished \<and> require_completed s' = Inl SessionStillEvaluating"
  using assms by (auto simp: spawn_session_task_def finish_initial_evaluation_def notify_waiters_def
      require_completed_def is_completed_def)

lemma watch_failure_stored_on_completed:
  assumes "spawn_session_task False True (watch_task render loop start_initial run) s = (items, s')"
  shows "ws_error (ss_state s') = Some NO_RUNTIME \<and> is_completed s' = is_completed s"
  using assms by (auto simp: spawn_session_task_def Let_def finish_initial_evaluation_def
      notify_waiters_def is_completed_def)

text \<open>
  After the initial evaluation completed, a query returns exactly the derivations that
  match the filter among those the evaluation reported last for their attribute path.
\<close>

theorem query_after_stream:
  assumes "ss_initial s = InitIdle" and "snd run = Inr Completed"
    and "s' = snd (stream render True readable writable run s)"
  shows "\<exists>ds. query_snapshot f s' = Inr ds \<and> (\<forall>d. d \<in> set ds \<longleftrightarrow>
    matches_filter d f \<and>
    find (\<lambda>e. d_attr_path e = d_attr_path d) (rev (event_derivations (fst run))) = Some d)"
proof -
  let ?g = "acc_graph (accumulate (fst run))"
  have lookup: "map_of ?g p = find (\<lambda>d. d_attr_path d = p) (rev (event_derivations (fst run)))" for p
  proof -
    have "map_of (map (\<lambda>d. (d_attr_path d, d)) ds) p = find (\<lambda>d. d_attr_path d = p) ds" for ds
      by (induction ds) auto
    then show ?thesis by (simp add: accumulate_lookup rev_map)
  qed
  have mem: "d \<in> snd ` set ?g \<longleftrightarrow> map_of ?g (d_attr_path d) = Some d" for d
    using accumulate_graph_ok [of "fst run"]
    by (force simp: graph_ok_lookup dest: graph_ok_path)
  have "query_snapshot f s' = Inr (filter (\<lambda>d. matches_filter d f) (map snd ?g))"
    using settle_open_completed [OF assms(1,2)] assms(3)
    by (simp add: query_snapshot_def require_warm_def)
  then show ?thesis using mem lookup by auto
qed

theorem query_after_stream_witness:
  "\<exists>ds. query_snapshot default_filter (snd (stream (\<lambda>_. ''x'') True True True
      ([Derivation (ex_graph_drv ''a'' ''1''), Derivation (ex_graph_drv ''a'' ''2'')], Inr Completed)
      (session_open default_config))) = Inr ds \<and> ex_graph_drv ''a'' ''2'' \<in> set ds"
proof -
  let ?run = "([Derivation (ex_graph_drv ''a'' ''1''), Derivation (ex_graph_drv ''a'' ''2'')], Inr Completed)
    :: master_run"
  have idle: "ss_initial (session_open default_config) = InitIdle" by (simp add: session_open_def)
  from query_after_stream [OF idle, of ?run _ "\<lambda>_. ''x''" True True default_filter]
  obtain ds where ds: "query_snapshot default_filter (snd (stream (\<lambda>_. ''x'') True True True ?run
      (session_open default_config))) = Inr ds"
    "ex_graph_drv ''a'' ''2'' \<in> set ds \<longleftrightarrow> matches_filter (ex_graph_drv ''a'' ''2'') default_filter \<and>
      find (\<lambda>e. d_attr_path e = d_attr_path (ex_graph_drv ''a'' ''2'')) (rev (event_derivations (fst ?run))) =
        Some (ex_graph_drv ''a'' ''2'')"
    by auto
  have "matches_filter (ex_graph_drv ''a'' ''2'') default_filter" by code_simp
  moreover have "find (\<lambda>e. d_attr_path e = d_attr_path (ex_graph_drv ''a'' ''2'')) (rev (event_derivations (fst ?run))) =
      Some (ex_graph_drv ''a'' ''2'')" by code_simp
  ultimately show ?thesis using ds by blast
qed

text \<open>
  Streams are single-use: once the initial evaluation was claimed, asking for another
  stream starts nothing, changes nothing, and yields one error item: the stored failure, or
  that the stream was consumed.
\<close>

theorem stream_single_use:
  assumes "ss_initial s \<noteq> InitIdle"
  shows "stream render runtime True writable run s =
    ([Inl (case ws_error (ss_state s) of Some e \<Rightarrow> EvaluationFailed e | None \<Rightarrow> SessionStreamConsumed)], s)"
  using assms
  by (auto simp: stream_def start_initial_evaluation_def initial_unavailable_error_def
      split: initial_evaluation.splits option.splits)

theorem stream_single_use_witness:
  "fst (stream (\<lambda>_. ''x'') True True True ([], Inr Completed)
     ((session_open default_config)\<lparr>ss_initial := InitFinished\<rparr>)) = [Inl SessionStreamConsumed]"
  using stream_single_use [of "(session_open default_config)\<lparr>ss_initial := InitFinished\<rparr>" "\<lambda>_. ''x''" True True
      "([], Inr Completed)"]
  by (simp add: session_open_def default_warm_state_def)

text \<open>
  C13. A cancelled or failed initial evaluation is reported the same way to everyone after it:
  the stream ends with the cause, and from then on queries, re-evaluations, the completion
  check and further streams all fail with that stored message, while no partial graph is
  kept. For a cancellation the message is the cancellation text.
\<close>

theorem failed_initial_evaluation_is_reported:
  assumes "ss_initial s = InitIdle" and "ss_state s = default_warm_state"
    and "snd run \<noteq> Inr Completed"
    and "(items, s') = stream render True readable writable run s"
  shows "let message = (case snd run of Inl err \<Rightarrow> render err | Inr _ \<Rightarrow> ''evaluation was cancelled'') in
    items = map Inr (fst run) @
      [Inl (case snd run of Inl err \<Rightarrow> Internal (render err) | Inr _ \<Rightarrow> SessionCancelled)] \<and>
    query_snapshot f s' = Inl (EvaluationFailed message) \<and>
    diff_once render run' s' = (Inl (EvaluationFailed message), s') \<and>
    require_completed s' = Inl (EvaluationFailed message) \<and>
    stream render runtime True writable' run' s' = ([Inl (EvaluationFailed message)], s') \<and>
    ws_graph (ss_state s') = []"
proof -
  have stream: "stream render True readable writable run s =
      stream_task render run (s\<lparr>ss_initial := InitRunning\<rparr>)"
    using assms(1) by (simp add: stream_def start_initial_evaluation_def spawn_session_task_def)
  show ?thesis
  proof (cases rule: settle_initial_cases [of run render "s\<lparr>ss_initial := InitRunning\<rparr>"])
    case done_ok
    with assms(3) show ?thesis by simp
  next
    case cancelled
    have "items = map Inr (fst run) @ [Inl SessionCancelled]"
      "s' = record_initial_error (display_error SessionCancelled) (notify_waiters (s\<lparr>ss_initial := InitRunning\<rparr>))"
      using assms(4) cancelled by (simp_all add: stream stream_task_def)
    then show ?thesis
      using assms(2) cancelled
      by (simp add: record_initial_error_def notify_waiters_def finish_initial_evaluation_def
          query_snapshot_def diff_once_def require_warm_def require_completed_def default_warm_state_def
          stream_def start_initial_evaluation_def initial_unavailable_error_def)
  next
    case (failed err)
    have "items = map Inr (fst run) @ [Inl (Internal (render err))]"
      "s' = record_initial_error (render err) (notify_waiters (s\<lparr>ss_initial := InitRunning\<rparr>))"
      using assms(4) failed
      by (simp_all only: stream stream_task_def record_initial_error_idem internal_error_def prod.case
          option.case prod.inject)
    then show ?thesis
      using assms(2) failed
      by (simp add: record_initial_error_def notify_waiters_def finish_initial_evaluation_def
          query_snapshot_def diff_once_def require_warm_def require_completed_def default_warm_state_def
          stream_def start_initial_evaluation_def initial_unavailable_error_def)
  qed
qed

theorem failed_initial_evaluation_is_reported_witness:
  "query_snapshot default_filter (snd (stream (\<lambda>_. ''x'') True True True ([], Inr Cancelled)
     (session_open default_config))) = Inl (EvaluationFailed ''evaluation was cancelled'')"
proof -
  let ?s = "session_open default_config"
  let ?r = "stream (\<lambda>_. ''x'') True True True ([], Inr Cancelled) ?s"
  have "ss_initial ?s = InitIdle" "ss_state ?s = default_warm_state" by (simp_all add: session_open_def)
  from failed_initial_evaluation_is_reported [OF this, of "([], Inr Cancelled)" "fst ?r" "snd ?r"
      "\<lambda>_. ''x''" True True default_filter]
  show ?thesis by (simp add: Let_def)
qed

text \<open>
  C12. Re-evaluating is all or nothing, decided by the run: on a completed session a run that
  completes yields the patch from the warm graph to the graph of its events, which replaces it,
  with exactly the run's errors; a run that fails or is cancelled yields that failure, and a
  session that is not completed the reason, and either way the session is unchanged.
\<close>

theorem diff_once_all_or_nothing:
  assumes "graph_ok (ws_graph (ss_state s))" and "diff_once render run s = (r, s')"
  shows "if is_completed s \<and> snd run = Inr Completed
    then \<exists>df. r = Inr df \<and> is_completed s' \<and>
      ws_graph (ss_state s') = acc_graph (accumulate (fst run)) \<and>
      patch_drvs df (drv_at (ws_graph (ss_state s))) = drv_at (ws_graph (ss_state s')) \<and>
      df_errors df = event_errors (fst run)
    else s' = s \<and> r = Inl (if is_completed s
      then (case snd run of Inl err \<Rightarrow> internal_error render err | Inr _ \<Rightarrow> SessionCancelled)
      else (case ws_error (ss_state s) of
        Some e \<Rightarrow> EvaluationFailed e
      | None \<Rightarrow> InitialEvaluationIncomplete ''diff_once''))"
proof (cases "is_completed s")
  case incomplete: False
  with assms(2) show ?thesis
    by (auto simp: diff_once_def require_warm_def is_completed_def split: option.splits)
next
  case completed: True
  then have warm: "require_warm ''diff_once'' s = Inr (ws_graph (ss_state s))"
    by (simp add: require_warm_def is_completed_def)
  show ?thesis
  proof (cases "snd run")
    case (Inl err)
    with assms(2) warm completed show ?thesis by (simp add: diff_once_def evaluate_def)
  next
    case (Inr outcome)
    with assms warm completed show ?thesis
      by (cases outcome) (auto simp: diff_once_def evaluate_def Let_def is_completed_def
          patch_drvs_diff accumulate_graph_ok accumulate_errors)
  qed
qed

theorem diff_once_all_or_nothing_witness:
  "(let s = (session_open default_config)\<lparr>ss_state := set_warm [] [] default_warm_state\<rparr>;
        run = ([Derivation (ex_graph_drv ''a'' ''1'')], Inr Completed);
        s' = snd (diff_once (\<lambda>_. ''x'') run s)
    in is_completed s' \<and> ws_graph (ss_state s') = acc_graph (accumulate (fst run)))"
proof -
  let ?s = "(session_open default_config)\<lparr>ss_state := set_warm [] [] default_warm_state\<rparr>"
  let ?run = "([Derivation (ex_graph_drv ''a'' ''1'')], Inr Completed) :: master_run"
  obtain r s' where d: "diff_once (\<lambda>_. ''x'') ?run ?s = (r, s')" by force
  have "graph_ok (ws_graph (ss_state ?s))" and done_ok: "is_completed ?s \<and> snd ?run = Inr Completed"
    by (simp_all add: is_completed_def)
  from diff_once_all_or_nothing [OF this(1) d, unfolded if_P [OF done_ok]] show ?thesis
    by (auto simp only: d Let_def snd_conv)
qed

end
