(* ===== verification/Session_Cache.thy ===== *)
theory Session_Cache
  imports Session
begin

text \<open>
  The daemon's caches: the bounded least-recently-used registry of warm sessions and the
  replay of each session's initial evaluation (\<open>crates/evix-daemon/src/session_cache.rs\<close>), and
  the connection limiter (\<open>connection_limit.rs\<close>). A session is the identity of its \<open>Arc\<close>;
  the hash map is an association list with distinct keys.
\<close>

section \<open>What the daemon relies on\<close>

text \<open>
  A store of sessions by key: what was inserted is found, a lookup may only lose entries to
  eviction, and refreshing or modifying an entry leaves the others alone.
\<close>

datatype 'v store_op = StoreInsert string 'v | StoreTouch string | StoreModify string "'v \<Rightarrow> 'v"

fun store_op_writes :: "'v store_op \<Rightarrow> string \<Rightarrow> bool" where
  "store_op_writes (StoreInsert k _) k' = (k = k')"
| "store_op_writes (StoreTouch k) k' = False"
| "store_op_writes (StoreModify k _) k' = (k = k')"

locale session_store =
  fixes find_key :: "'s \<Rightarrow> string \<Rightarrow> 'v option"
    and insert_key :: "string \<Rightarrow> 'v \<Rightarrow> 's \<Rightarrow> 's"
    and touch :: "string \<Rightarrow> 's \<Rightarrow> 's"
    and modify :: "string \<Rightarrow> ('v \<Rightarrow> 'v) \<Rightarrow> 's \<Rightarrow> 's"
    and inv :: "'s \<Rightarrow> bool"
  assumes inv_insert: "inv s \<Longrightarrow> inv (insert_key k v s)"
    and inv_touch: "inv s \<Longrightarrow> inv (touch k s)"
    and inv_modify: "inv s \<Longrightarrow> inv (modify k f s)"
    and find_insert_same: "inv s \<Longrightarrow> find_key (insert_key k v s) k = Some v"
    and find_insert_other: "inv s \<Longrightarrow> k' \<noteq> k \<Longrightarrow>
      find_key (insert_key k v s) k' = None \<or> find_key (insert_key k v s) k' = find_key s k'"
    and find_touch: "inv s \<Longrightarrow> find_key (touch k s) k' = find_key s k'"
    and find_modify: "inv s \<Longrightarrow>
      find_key (modify k f s) k' = (if k' = k then map_option f (find_key s k') else find_key s k')"
begin

fun run_op :: "'v store_op \<Rightarrow> 's \<Rightarrow> 's" where
  "run_op (StoreInsert k v) s = insert_key k v s"
| "run_op (StoreTouch k) s = touch k s"
| "run_op (StoreModify k f) s = modify k f s"

lemma inv_run: "inv s \<Longrightarrow> inv (fold run_op ops s)"
proof (induction ops arbitrary: s)
  case (Cons op ops)
  then show ?case by (cases op) (simp_all add: inv_insert inv_touch inv_modify)
qed simp

text \<open>A session is never swapped for another: without a write to its key it is kept or evicted.\<close>

lemma find_run:
  assumes "inv s" and "\<forall>op \<in> set ops. \<not> store_op_writes op k"
  shows "find_key (fold run_op ops s) k = None \<or> find_key (fold run_op ops s) k = find_key s k"
  using assms
proof (induction ops arbitrary: s)
  case (Cons op ops)
  have "inv (run_op op s)" using inv_run [of s "[op]"] Cons.prems by simp
  then have IH: "find_key (fold run_op ops (run_op op s)) k = None \<or>
      find_key (fold run_op ops (run_op op s)) k = find_key (run_op op s) k"
    using Cons by simp
  have "find_key (run_op op s) k = None \<or> find_key (run_op op s) k = find_key s k"
    using Cons.prems find_insert_other [of s k]
    by (cases op) (simp_all add: find_touch find_modify, metis, metis)
  with IH show ?case by auto
qed simp

lemma find_modify_insert: "inv s \<Longrightarrow> find_key (modify k f (insert_key k v s)) k = Some (f v)"
  by (simp add: find_modify inv_insert find_insert_same)

end

section \<open>The registry\<close>

record 'v registry =
  g_sessions :: "(string \<times> 'v) list"
  g_order :: "string list"
  g_max :: nat

definition MAX_SESSIONS :: nat where
  "MAX_SESSIONS = 32"

definition registry_new :: "nat \<Rightarrow> 'v registry" where
  "registry_new n = \<lparr>g_sessions = [], g_order = [], g_max = n\<rparr>"

definition remove_order_entry :: "string \<Rightarrow> 'v registry \<Rightarrow> 'v registry" where
  "remove_order_entry key r = r\<lparr>g_order := remove1 key (g_order r)\<rparr>"

fun evict :: "nat \<Rightarrow> string list \<Rightarrow> (string \<times> 'v) list \<Rightarrow> string list \<times> (string \<times> 'v) list" where
  "evict n [] sessions = ([], sessions)"
| "evict n (oldest # order) sessions =
     (if length sessions \<ge> n then evict n order (AList.delete oldest sessions)
      else (oldest # order, sessions))"

definition registry_insert :: "string \<Rightarrow> 'v \<Rightarrow> 'v registry \<Rightarrow> 'v registry" where
  "registry_insert key v r =
     (let r1 = remove_order_entry key r in
      case evict (g_max r1) (g_order r1) (g_sessions r1) of (order, sessions) \<Rightarrow>
        r1\<lparr>g_order := order @ [key], g_sessions := AList.update key v sessions\<rparr>)"

definition registry_touch :: "string \<Rightarrow> 'v registry \<Rightarrow> 'v registry" where
  "registry_touch key r =
     (case map_of (g_sessions r) key of
        None \<Rightarrow> r
      | Some _ \<Rightarrow>
          let r1 = remove_order_entry key r in r1\<lparr>g_order := g_order r1 @ [key]\<rparr>)"

definition registry_get :: "string \<Rightarrow> 'v registry \<Rightarrow> 'v option \<times> 'v registry" where
  "registry_get key r = (map_of (g_sessions r) key, registry_touch key r)"

text \<open>\<open>get_mut\<close> refreshes the entry and lends it out; the borrow's use is the function applied.\<close>

definition registry_get_mut :: "string \<Rightarrow> ('v \<Rightarrow> 'v) \<Rightarrow> 'v registry \<Rightarrow> 'v registry" where
  "registry_get_mut key f r =
     (let r1 = registry_touch key r in
      r1\<lparr>g_sessions := AList.map_entry key f (g_sessions r1)\<rparr>)"

definition registry_ok :: "'v registry \<Rightarrow> bool" where
  "registry_ok r \<longleftrightarrow> distinct (g_order r) \<and> distinct (map fst (g_sessions r)) \<and>
     set (g_order r) = fst ` set (g_sessions r) \<and> length (g_order r) \<le> max (g_max r) 1"

subsection \<open>Eviction\<close>

lemma registry_ok_length:
  "registry_ok r \<Longrightarrow> length (g_sessions r) = length (g_order r)"
  unfolding registry_ok_def by (metis distinct_card length_map set_map)

lemma delete_key_set: "fst ` set (AList.delete k m) = fst ` set m - {k}"
  by (metis delete_keys set_map set_removeAll)

lemma update_key_set: "fst ` set (AList.update k v m) = insert k (fst ` set m)"
  by (induction m) (auto simp: insert_commute)

lemma length_delete_key:
  "distinct (map fst m) \<Longrightarrow> k \<in> fst ` set m \<Longrightarrow> Suc (length (AList.delete k m)) = length m"
proof (induction m)
  case (Cons kv m)
  obtain k' v where kv: "kv = (k', v)" by force
  show ?case
  proof (cases "k' = k")
    case True
    with Cons.prems kv have "k \<notin> fst ` set m" by auto
    then have "AList.delete k m = m" by (simp add: delete_id)
    with True kv show ?thesis by (simp add: delete_simps)
  next
    case False
    with Cons kv show ?thesis by (auto simp: delete_simps)
  qed
qed simp

text \<open>
  When every queued key is a distinct key of the map, the loop drops exactly as many of the
  oldest as the map is too full by, if there are that many.
\<close>

lemma evict_drops:
  assumes "distinct order" and "distinct (map fst m)" and "set order \<subseteq> fst ` set m"
  shows "evict n order m =
    (let k = min (length order) (Suc (length m) - n) in
     (drop k order, fold AList.delete (take k order) m))"
  using assms
proof (induction n order m rule: evict.induct)
  case (2 n oldest order m)
  show ?case
  proof (cases "length m \<ge> n")
    case True
    have len: "Suc (length (AList.delete oldest m)) = length m"
      using 2 by (intro length_delete_key) auto
    have "evict n order (AList.delete oldest m) =
        (let k = min (length order) (Suc (length (AList.delete oldest m)) - n) in
         (drop k order, fold AList.delete (take k order) (AList.delete oldest m)))"
      using 2 True by (intro "2.IH") (auto simp: distinct_delete delete_key_set)
    moreover have "min (length (oldest # order)) (Suc (length m) - n) =
        Suc (min (length order) (length m - n))"
      using True by simp
    ultimately show ?thesis using True len by (simp add: Let_def)
  next
    case False
    then show ?thesis by (simp add: Let_def)
  qed
qed simp

lemma map_of_fold_delete:
  "map_of (fold AList.delete ks m) k = (if k \<in> set ks then None else map_of m k)"
  by (induction ks arbitrary: m) (auto simp: delete_conv')

lemma keys_fold_delete: "fst ` set (fold AList.delete ks m) = fst ` set m - set ks"
  by (induction ks arbitrary: m) (auto simp: delete_key_set)

lemma distinct_fold_delete:
  "distinct (map fst m) \<Longrightarrow> distinct (map fst (fold AList.delete ks m))"
  by (induction ks arbitrary: m) (simp_all add: distinct_delete)

text \<open>Inserting: the key is the newest, and as many of the oldest others go as must.\<close>

lemma registry_insert_eq:
  assumes "registry_ok r"
  shows "registry_insert k v r =
    (let others = remove1 k (g_order r);
         n = min (length others) (Suc (length (g_order r)) - g_max r)
     in r\<lparr>g_order := drop n others @ [k],
          g_sessions := AList.update k v (fold AList.delete (take n others) (g_sessions r))\<rparr>)"
proof -
  have "evict (g_max r) (remove1 k (g_order r)) (g_sessions r) =
      (let n = min (length (remove1 k (g_order r))) (Suc (length (g_sessions r)) - g_max r) in
       (drop n (remove1 k (g_order r)), fold AList.delete (take n (remove1 k (g_order r))) (g_sessions r)))"
    using assms by (intro evict_drops) (auto simp: registry_ok_def dest: notin_set_remove1)
  then show ?thesis
    using registry_ok_length [OF assms]
    by (simp add: registry_insert_def remove_order_entry_def Let_def)
qed

lemma registry_insert_ok:
  assumes "registry_ok r"
  shows "registry_ok (registry_insert k v r)"
proof -
  let ?others = "remove1 k (g_order r)"
  let ?n = "min (length ?others) (Suc (length (g_order r)) - g_max r)"
  have others: "distinct ?others" "set ?others = set (g_order r) - {k}"
    using assms by (simp_all add: registry_ok_def)
  have split: "set (take ?n ?others) \<union> set (drop ?n ?others) = set ?others"
    "set (take ?n ?others) \<inter> set (drop ?n ?others) = {}"
    by (metis append_take_drop_id set_append) (metis append_take_drop_id distinct_append others(1))
  have "length (drop ?n ?others) \<le> max (g_max r) 1 - 1"
    using assms by (auto simp: registry_ok_def length_remove1)
  then have len: "length (drop ?n ?others @ [k]) \<le> max (g_max r) 1" by auto
  have keys: "set (drop ?n ?others @ [k]) =
      fst ` set (AList.update k v (fold AList.delete (take ?n ?others) (g_sessions r)))"
  proof -
    have sess: "fst ` set (g_sessions r) = set (g_order r)" using assms by (simp add: registry_ok_def)
    have "set (take ?n ?others) \<union> set (drop ?n ?others) = set (g_order r) - {k}"
      using split(1) others(2) by (rule trans)
    then have "set (drop ?n ?others) \<union> {k} = insert k (set (g_order r) - set (take ?n ?others))"
      using split(2) by blast
    then show ?thesis
      by (simp only: set_append list.set update_key_set keys_fold_delete sess)
  qed
  show ?thesis
    unfolding registry_insert_eq [OF assms] Let_def
    using assms others len keys
    by (auto simp: registry_ok_def distinct_update distinct_fold_delete dest: in_set_dropD)
qed

lemma registry_touch_ok: "registry_ok r \<Longrightarrow> registry_ok (registry_touch k r)"
proof (cases "map_of (g_sessions r) k")
  case (Some v)
  assume ok: "registry_ok r"
  with Some have k: "k \<in> set (g_order r)"
    by (auto simp: registry_ok_def dest!: map_of_SomeD intro: rev_image_eqI)
  then have "Suc (length (remove1 k (g_order r))) = length (g_order r)"
    using length_pos_if_in_set [OF k] by (simp add: length_remove1)
  with Some ok k show ?thesis
    by (auto simp: registry_ok_def registry_touch_def remove_order_entry_def Let_def)
qed (simp add: registry_touch_def)

lemma registry_get_mut_ok: "registry_ok r \<Longrightarrow> registry_ok (registry_get_mut k f r)"
proof -
  assume "registry_ok r"
  then have ok: "registry_ok (registry_touch k r)" by (rule registry_touch_ok)
  have "map fst (AList.map_entry k f m) = map fst m" for m :: "(string \<times> 'a) list"
    by (induction m) (auto simp: map_entry.simps split: prod.splits)
  then have "map fst (AList.map_entry k f m) = map fst m" "fst ` set (AList.map_entry k f m) = fst ` set m"
    for m :: "(string \<times> 'a) list"
    by (simp, metis set_map)
  with ok show ?thesis by (simp add: registry_get_mut_def registry_ok_def Let_def)
qed

lemma registry_touch_sessions [simp]: "g_sessions (registry_touch k r) = g_sessions r"
  by (simp add: registry_touch_def remove_order_entry_def Let_def split: option.splits)

lemma find_map_entry:
  "map_of (AList.map_entry k f m) k' = (if k' = k then map_option f (map_of m k') else map_of m k')"
  by (simp add: map_of_map_entry split: option.splits)

abbreviation registry_find :: "'v registry \<Rightarrow> string \<Rightarrow> 'v option" where
  "registry_find r \<equiv> map_of (g_sessions r)"

lemma registry_find_insert:
  assumes "registry_ok r"
  shows "registry_find (registry_insert k v r) k' =
    (if k' = k then Some v
     else if k' \<in> set (take (min (length (remove1 k (g_order r))) (Suc (length (g_order r)) - g_max r))
       (remove1 k (g_order r))) then None
     else registry_find r k')"
  unfolding registry_insert_eq [OF assms] Let_def
  by (simp add: update_conv' map_of_fold_delete)

interpretation registry: session_store registry_find registry_insert registry_touch registry_get_mut registry_ok
proof unfold_locales
  fix k f and s :: "'a registry" and k'
  show "registry_find (registry_get_mut k f s) k' =
      (if k' = k then map_option f (registry_find s k') else registry_find s k')"
    by (simp add: registry_get_mut_def Let_def find_map_entry)
qed (auto simp: registry_insert_ok registry_touch_ok registry_get_mut_ok registry_find_insert)

section \<open>The daemon's state\<close>

datatype replay = Recording | ReplayReady string | Invalidated

record cached_session =
  cs_session :: nat
  cs_replay :: replay

type_synonym daemon_state = "cached_session registry"

definition initial_daemon_state :: daemon_state where
  "initial_daemon_state = registry_new MAX_SESSIONS"

text \<open>
  The session key is the JSON text of every configuration field that crosses the wire; the
  printer is a parameter.
\<close>

definition session_key :: "(wire_config \<Rightarrow> string result) \<Rightarrow> config \<Rightarrow> string result" where
  "session_key to_string c = with_context ''serializing session key'' (to_string (wire_of_config c))"

definition replace_session ::
  "(wire_config \<Rightarrow> string result) \<Rightarrow> nat \<Rightarrow> config \<Rightarrow> daemon_state \<Rightarrow> nat result \<times> daemon_state"
where
  "replace_session to_string fresh c st =
     (case session_key to_string c of
        Inl e \<Rightarrow> (Inl e, st)
      | Inr key \<Rightarrow> (Inr fresh, registry_insert key \<lparr>cs_session = fresh, cs_replay = Recording\<rparr> st))"

definition warm_session ::
  "(wire_config \<Rightarrow> string result) \<Rightarrow> config \<Rightarrow> daemon_state \<Rightarrow> nat result \<times> daemon_state"
where
  "warm_session to_string c st =
     (case session_key to_string c of
        Inl e \<Rightarrow> (Inl e, st)
      | Inr key \<Rightarrow>
          (case registry_get key st of
             (Some cached, st') \<Rightarrow> (Inr (cs_session cached), st')
           | (None, st') \<Rightarrow>
               (bail (''no warm session for requested daemon config; query/diff reuse a '' @
                  ''session only when all daemon-protocol config values match a '' @
                  ''completed eval or watch''), st')))"

definition replay_of ::
  "(wire_config \<Rightarrow> string result) \<Rightarrow> config \<Rightarrow> daemon_state \<Rightarrow> string result \<times> daemon_state"
where
  "replay_of to_string c st =
     (case session_key to_string c of
        Inl e \<Rightarrow> (Inl e, st)
      | Inr key \<Rightarrow>
          (case registry_get key st of
             (None, st') \<Rightarrow> (bail ''no replayable session for requested daemon config'', st')
           | (Some cached, st') \<Rightarrow>
               ((case cs_replay cached of
                   Recording \<Rightarrow> bail ''matching evaluation has not completed''
                 | ReplayReady lines \<Rightarrow> Inr lines
                 | Invalidated \<Rightarrow> bail ''session has no replayable completed evaluation''), st')))"

definition settle_cached :: "nat \<Rightarrow> replay \<Rightarrow> cached_session \<Rightarrow> cached_session" where
  "settle_cached session replay cached =
     (if cs_session cached = session \<and> cs_replay cached \<noteq> Invalidated
      then cached\<lparr>cs_replay := replay\<rparr> else cached)"

definition settle_replay ::
  "(wire_config \<Rightarrow> string result) \<Rightarrow> config \<Rightarrow> nat \<Rightarrow> replay \<Rightarrow> daemon_state \<Rightarrow> unit result \<times> daemon_state"
where
  "settle_replay to_string c session replay st =
     (case session_key to_string c of
        Inl e \<Rightarrow> (Inl e, st)
      | Inr key \<Rightarrow> (Inr (), registry_get_mut key (settle_cached session replay) st))"

section \<open>The connection limiter\<close>

record limiter =
  l_active :: usize
  l_max :: usize

definition limiter_new :: "usize \<Rightarrow> limiter" where
  "limiter_new n = \<lparr>l_active = 0, l_max = n\<rparr>"

definition acquire :: "limiter \<Rightarrow> bool \<times> limiter" where
  "acquire l = (if l_active l \<ge> l_max l then (False, l) else (True, l\<lparr>l_active := l_active l + 1\<rparr>))"

definition release :: "limiter \<Rightarrow> limiter" where
  "release l = l\<lparr>l_active := l_active l - 1\<rparr>"

text \<open>The limiter with the slots it has handed out: a slot is released when it is dropped, once.\<close>

inductive limiter_step :: "limiter \<times> nat \<Rightarrow> limiter \<times> nat \<Rightarrow> bool" where
  limiter_acquire: "acquire l = (True, l') \<Longrightarrow> limiter_step (l, slots) (l', Suc slots)"
| limiter_refuse: "acquire l = (False, l') \<Longrightarrow> limiter_step (l, slots) (l', slots)"
| limiter_drop: "limiter_step (l, Suc slots) (release l, slots)"

inductive_cases limiter_stepE: "limiter_step s t"

definition limiter_inv :: "usize \<Rightarrow> limiter \<times> nat \<Rightarrow> bool" where
  "limiter_inv n s \<longleftrightarrow> l_max (fst s) = n \<and> unat (l_active (fst s)) = snd s \<and> snd s \<le> unat n"

lemma unat_Suc_of_less: "unat (a + 1) = Suc (unat a)" if "a < b" for a b :: usize
proof -
  have "unat a + 1 < 2 ^ 64"
    using that unsigned_less [of b, where 'a = nat] by (simp add: word_less_nat_alt)
  then show ?thesis by (simp add: unat_word_ariths)
qed

lemma limiter_step_inv: "limiter_step s t \<Longrightarrow> limiter_inv n s \<Longrightarrow> limiter_inv n t"
proof (induction rule: limiter_step.induct)
  case (limiter_acquire l l' slots)
  then have lt: "l_active l < n" and l': "l' = l\<lparr>l_active := l_active l + 1\<rparr>"
    by (auto simp: acquire_def limiter_inv_def split: if_splits)
  from lt have "unat (l_active l + 1) = Suc (unat (l_active l))"
    using unat_Suc_of_less [OF lt] by simp
  then show ?case
    using limiter_acquire lt l' by (auto simp: limiter_inv_def word_less_nat_alt)
next
  case (limiter_refuse l l' slots)
  then show ?case by (auto simp: acquire_def limiter_inv_def split: if_splits)
next
  case (limiter_drop l slots)
  then have "unat (l_active l) = Suc slots" by (simp add: limiter_inv_def)
  then have "unat (l_active l - 1) = slots"
    by (metis diff_Suc_1 unat_eq_zero unat_minus_one nat.distinct(1))
  with limiter_drop show ?case by (simp add: limiter_inv_def release_def)
qed

interpretation limit: inductive_invariant "\<lambda>s. s = (limiter_new n, 0)" limiter_step "limiter_inv n" for n
proof unfold_locales
  show "s = (limiter_new n, 0) \<Longrightarrow> limiter_inv n s" for s
    by (simp add: limiter_inv_def limiter_new_def)
qed (rule limiter_step_inv)

section \<open>What the caches promise\<close>

text \<open>
  C17. The registry is a bounded least-recently-used cache. From a well-formed registry, an
  insertion makes its key the newest and keeps the registry within its capacity. Below its
  capacity nothing else changes; from a full registry exactly one entry disappears, that of the
  oldest other key if there is one, and every other entry is found as before. That is so whether or not the
  inserted key is already held: replacing a held key of a full registry evicts another session
  although it needs no room, which the lemma on reinsertion below states on its own.
\<close>

theorem registry_insert_lru:
  assumes "registry_ok r" and "1 \<le> g_max r"
  shows "let others = remove1 k (g_order r);
      evicted = take (if length (g_order r) = g_max r then 1 else 0) others;
      r' = registry_insert k v r
    in registry_ok r' \<and> length (g_sessions r') \<le> g_max r \<and>
       g_order r' = drop (length evicted) others @ [k] \<and>
       registry_find r' k = Some v \<and>
       (\<forall>k'. k' \<noteq> k \<longrightarrow>
          registry_find r' k' = (if k' \<in> set evicted then None else registry_find r k'))"
proof -
  let ?others = "remove1 k (g_order r)"
  let ?n = "min (length ?others) (Suc (length (g_order r)) - g_max r)"
  have le: "length (g_order r) \<le> g_max r" using assms by (simp add: registry_ok_def)
  then have n: "Suc (length (g_order r)) - g_max r = (if length (g_order r) = g_max r then 1 else 0)"
    by auto
  have ok: "registry_ok (registry_insert k v r)" using assms(1) by (rule registry_insert_ok)
  have "g_max (registry_insert k v r) = g_max r"
    by (simp add: registry_insert_eq [OF assms(1)] Let_def)
  then have len: "length (g_sessions (registry_insert k v r)) \<le> g_max r"
    using registry_ok_length [OF ok] ok assms(2) by (simp add: registry_ok_def)
  have tk: "take ?n ?others = take (if length (g_order r) = g_max r then 1 else 0) ?others"
    unfolding n by (simp add: min_def)
  have "g_order (registry_insert k v r) =
      drop (length (take (if length (g_order r) = g_max r then 1 else 0) ?others)) ?others @ [k]"
    unfolding registry_insert_eq [OF assms(1)] Let_def n by (simp add: min.commute)
  then show ?thesis
    using ok len tk registry_find_insert [OF assms(1), of k v]
    by (simp add: Let_def del: length_take)
qed

definition ex_registry :: "nat registry" where
  "ex_registry = registry_insert ''b'' 2 (registry_insert ''a'' 1 (registry_new 2))"

lemma registry_new_ok: "registry_ok (registry_new n)"
  by (simp add: registry_ok_def registry_new_def)

lemma ex_registry_ok: "registry_ok ex_registry"
  unfolding ex_registry_def by (intro registry_insert_ok registry_new_ok)

theorem registry_insert_lru_witness:
  "g_order (registry_insert ''c'' 3 ex_registry) = [''b'', ''c'']"
proof -
  have "1 \<le> g_max ex_registry" by code_simp
  moreover have "g_order ex_registry = [''a'', ''b'']" "g_max ex_registry = 2" by code_simp+
  ultimately show ?thesis
    using registry_insert_lru [OF ex_registry_ok, of "''c''" 3] by (simp add: Let_def)
qed

text \<open>
  Re-inserting a key the full registry already holds also evicts the oldest other
  session, although the replacement needs no room: the key's own entry still counts while
  room is made.
\<close>

theorem reinsert_evicts_unrelated_session:
  assumes "registry_ok r" and "k \<in> set (g_order r)" and "length (g_order r) = g_max r"
    and "remove1 k (g_order r) = oldest # rest"
  shows "registry_find (registry_insert k v r) oldest = None \<and> registry_find r oldest \<noteq> None \<and>
    length (g_sessions (registry_insert k v r)) = g_max r - 1"
proof -
  have "set (oldest # rest) = set (g_order r) - {k}"
    using assms(1) set_remove1_eq [of "g_order r" k] by (simp add: registry_ok_def flip: assms(4))
  then have d: "oldest \<in> set (g_order r)" "oldest \<noteq> k" by auto
  have "Suc (length (remove1 k (g_order r))) = length (g_order r)"
    using assms(2) length_pos_if_in_set [OF assms(2)] by (simp add: length_remove1)
  then have "length (g_order (registry_insert k v r)) = g_max r - 1"
    using assms by (simp add: registry_insert_eq [OF assms(1)] Let_def)
  moreover have "registry_find r oldest \<noteq> None"
    using assms(1) d(1) by (simp add: registry_ok_def map_of_eq_None_iff)
  ultimately show ?thesis
    using assms d registry_find_insert [OF assms(1), of k v oldest]
      registry_ok_length [OF registry_insert_ok [OF assms(1), of k v]]
    by simp
qed

theorem reinsert_evicts_unrelated_session_witness:
  "registry_find (registry_insert ''b'' 9 ex_registry) ''a'' = None \<and> registry_find ex_registry ''a'' \<noteq> None"
proof -
  have "''b'' \<in> set (g_order ex_registry)" "length (g_order ex_registry) = g_max ex_registry"
    "remove1 ''b'' (g_order ex_registry) = [''a'']" by code_simp+
  from reinsert_evicts_unrelated_session [OF ex_registry_ok this] show ?thesis by blast
qed

text \<open>
  A warm session is never swapped for another: whatever insertions, lookups and updates
  of other configurations happen in between, a cached session is found unchanged under its
  key or has been evicted.
\<close>

theorem cached_session_kept_or_evicted:
  assumes "registry_ok st" and "\<forall>op \<in> set ops. \<not> store_op_writes op k"
  shows "registry_ok (fold registry.run_op ops st) \<and>
    (registry_find (fold registry.run_op ops st) k = None \<or>
     registry_find (fold registry.run_op ops st) k = registry_find st k)"
  using registry.inv_run [OF assms(1)] registry.find_run [OF assms] by blast

theorem cached_session_kept_or_evicted_witness:
  "registry_find (fold registry.run_op [StoreTouch ''a'', StoreInsert ''c'' 3] ex_registry) ''a'' \<in> {None, Some 1}"
proof -
  have "registry_find ex_registry ''a'' = Some 1" by code_simp
  then show ?thesis
    using cached_session_kept_or_evicted [OF ex_registry_ok,
        of "[StoreTouch ''a'', StoreInsert ''c'' 3]" "''a''"] by auto
qed

lemma settle_replay_find:
  assumes "registry_ok st" and "session_key to_string c = Inr key"
  shows "registry_find (snd (settle_replay to_string c session replay st)) key' =
    (if key' = key then map_option (settle_cached session replay) (registry_find st key')
     else registry_find st key')"
  using assms by (simp add: settle_replay_def registry.find_modify)

lemma settle_replay_ok: "registry_ok st \<Longrightarrow> registry_ok (snd (settle_replay to_string c session replay st))"
  by (auto simp: settle_replay_def registry_get_mut_ok split: sum.splits)

lemma replay_of_find:
  assumes "session_key to_string c = Inr key" and "registry_find st key = Some cached"
  shows "fst (replay_of to_string c st) =
    (case cs_replay cached of
       Recording \<Rightarrow> bail ''matching evaluation has not completed''
     | ReplayReady lines \<Rightarrow> Inr lines
     | Invalidated \<Rightarrow> bail ''session has no replayable completed evaluation'')"
  using assms by (simp add: replay_of_def registry_get_def)

text \<open>
  Replay life cycle: a freshly opened session has no replay; settling it with the recorded
  lines makes exactly those lines the replay; once it is invalidated, by a re-evaluation or a
  watch, no later settling brings a replay back; and settling for a session that has been
  replaced by another does nothing.
\<close>

theorem replay_life_cycle:
  assumes "registry_ok st" and "session_key to_string c = Inr key"
    and "st1 = snd (replace_session to_string fresh c st)"
  shows "fst (replay_of to_string c st1) = bail ''matching evaluation has not completed'' \<and>
    fst (replay_of to_string c (snd (settle_replay to_string c fresh (ReplayReady lines) st1))) = Inr lines \<and>
    fst (replay_of to_string c (snd (settle_replay to_string c fresh later
       (snd (settle_replay to_string c fresh Invalidated st1))))) =
      bail ''session has no replayable completed evaluation'' \<and>
    (other \<noteq> fresh \<longrightarrow>
      registry_find (snd (settle_replay to_string c other later st1)) = registry_find st1)"
proof -
  let ?c = "\<lparr>cs_session = fresh, cs_replay = Recording\<rparr>"
  have st1: "st1 = registry_insert key ?c st"
    using assms by (simp add: replace_session_def)
  have ok: "registry_ok st1" using assms(1) unfolding st1 by (rule registry_insert_ok)
  have find: "registry_find st1 key = Some ?c"
    unfolding st1 using assms(1) by (rule registry.find_insert_same)
  have inval: "registry_find (snd (settle_replay to_string c fresh Invalidated st1)) key =
      Some \<lparr>cs_session = fresh, cs_replay = Invalidated\<rparr>"
    using find by (simp add: settle_replay_find [OF ok assms(2)] settle_cached_def)
  have later: "registry_find (snd (settle_replay to_string c fresh later
      (snd (settle_replay to_string c fresh Invalidated st1)))) key =
      Some \<lparr>cs_session = fresh, cs_replay = Invalidated\<rparr>"
    using inval by (simp add: settle_replay_find [OF settle_replay_ok [OF ok] assms(2)] settle_cached_def)
  have ready: "registry_find (snd (settle_replay to_string c fresh (ReplayReady lines) st1)) key =
      Some \<lparr>cs_session = fresh, cs_replay = ReplayReady lines\<rparr>"
    using find by (simp add: settle_replay_find [OF ok assms(2)] settle_cached_def)
  have "other \<noteq> fresh \<Longrightarrow>
      registry_find (snd (settle_replay to_string c other later st1)) = registry_find st1"
    using find by (auto simp: fun_eq_iff settle_replay_find [OF ok assms(2)] settle_cached_def)
  then show ?thesis
    using replay_of_find [OF assms(2) find] replay_of_find [OF assms(2) ready]
      replay_of_find [OF assms(2) later]
    by simp
qed

theorem replay_life_cycle_witness:
  "fst (replay_of (\<lambda>_. Inr ''k'') default_config (snd (settle_replay (\<lambda>_. Inr ''k'') default_config 7
     (ReplayReady ''lines'') (snd (replace_session (\<lambda>_. Inr ''k'') 7 default_config initial_daemon_state))))) =
   Inr ''lines''"
proof -
  have "registry_ok initial_daemon_state"
    unfolding initial_daemon_state_def by (rule registry_new_ok)
  moreover have "session_key (\<lambda>_. Inr ''k'') default_config = Inr ''k''" by (simp add: session_key_def)
  ultimately show ?thesis
    using replay_life_cycle [of initial_daemon_state "\<lambda>_. Inr ''k''" default_config "''k''" _ 7 "''lines''"]
    by blast
qed

text \<open>
  Warm sessions are reused only for the same configuration: if the key's printer does not
  confuse different wire configurations, a session found for a configuration was opened for
  one with the same input, arguments, options, remotes and every other wire field.
\<close>

theorem warm_session_same_config:
  assumes "registry_ok st" and "\<And>a b k. to_string a = Inr k \<Longrightarrow> to_string b = Inr k \<Longrightarrow> a = b"
    and "fst (replace_session to_string fresh c st) = Inr fresh"
    and "registry_find st key' = None" and "session_key to_string c' = Inr key'"
    and "fst (warm_session to_string c' (snd (replace_session to_string fresh c st))) = Inr session"
  shows "session = fresh \<and> wire_of_config c' = wire_of_config c"
proof -
  from assms(3) obtain key where key: "session_key to_string c = Inr key"
    by (auto simp: replace_session_def split: sum.splits)
  let ?st = "registry_insert key \<lparr>cs_session = fresh, cs_replay = Recording\<rparr> st"
  have find: "registry_find ?st key' = Some cached \<Longrightarrow> key' = key \<and> cs_session cached = fresh" for cached
    using registry_find_insert [OF assms(1)] assms(4) by (auto split: if_splits)
  have "\<exists>cached. registry_find ?st key' = Some cached \<and> session = cs_session cached"
    using assms(5,6) key
    by (auto simp: warm_session_def replace_session_def registry_get_def split: option.splits)
  then have "key' = key" "session = fresh" using find by auto
  moreover have "to_string (wire_of_config c') = Inr key'" "to_string (wire_of_config c) = Inr key"
    using assms(5) key by (simp_all add: session_key_def)
  ultimately show ?thesis using assms(2) by blast
qed

theorem warm_session_same_config_witness:
  "\<exists>session. (let to_string = (\<lambda>w. if w = wire_of_config default_config then Inr ''k'' else external ''serde'') in
     fst (warm_session to_string default_config
       (snd (replace_session to_string 7 default_config initial_daemon_state))) = Inr session) \<and> session = 7"
proof -
  let ?t = "\<lambda>w. if w = wire_of_config default_config then Inr ''k'' else (external ''serde'' :: string result)"
  have key: "session_key ?t default_config = Inr ''k''" by (simp add: session_key_def)
  have ok: "registry_ok initial_daemon_state"
    unfolding initial_daemon_state_def by (rule registry_new_ok)
  have rep: "fst (replace_session ?t 7 default_config initial_daemon_state) = Inr 7"
    by (simp add: replace_session_def key)
  have none: "registry_find initial_daemon_state ''k'' = None"
    by (simp add: initial_daemon_state_def registry_new_def)
  have warm: "fst (warm_session ?t default_config
       (snd (replace_session ?t 7 default_config initial_daemon_state))) = Inr 7"
    using registry.find_insert_same [OF ok, of "''k''"]
    by (simp add: warm_session_def replace_session_def key registry_get_def)
  have "7 = (7 :: nat) \<and> wire_of_config default_config = wire_of_config default_config"
    by (rule warm_session_same_config [OF ok _ rep none key warm]) (auto split: if_splits)
  with warm show ?thesis by (auto simp: Let_def)
qed

text \<open>
  The limiter never admits more than its maximum: through any sequence of accepted and
  refused connections and dropped slots the counter is the number of live slots, which stays
  within the maximum, so the counter neither overflows nor underflows, and a connection is
  refused exactly when the maximum is reached.
\<close>

theorem connection_limit_respected:
  assumes "limiter_step\<^sup>*\<^sup>* (limiter_new n, 0) (l, slots)"
  shows "unat (l_active l) = slots \<and> slots \<le> unat n \<and> (fst (acquire l) \<longleftrightarrow> slots < unat n)"
proof -
  have "limiter_inv n (l, slots)" using limit.reach_inv [OF refl assms] .
  then show ?thesis
    by (auto simp: limiter_inv_def acquire_def word_le_nat_alt)
qed

theorem connection_limit_respected_witness:
  "fst (acquire (snd (acquire (limiter_new 1)))) = False"
proof -
  have "limiter_step (limiter_new 1, 0) (snd (acquire (limiter_new 1)), Suc 0)"
    by (rule limiter_acquire) (simp add: acquire_def limiter_new_def)
  then have "limiter_step\<^sup>*\<^sup>* (limiter_new 1, 0) (snd (acquire (limiter_new 1)), Suc 0)" by blast
  from connection_limit_respected [OF this] show ?thesis by simp
qed

end
