(* ===== verification/Daemon.thy ===== *)
theory Daemon
  imports Session_Cache Std_Text
begin

text \<open>
  The daemon's connection handling (\<open>crates/evix-daemon/src/lib.rs\<close>): reading one bounded
  request line, the checks before it is dispatched, the five request handlers and the bytes
  they write, and the decision what to do with an existing socket path. The peer's user id,
  the byte chunks the socket delivers, JSON encoding and decoding, and the runs of the
  evaluations a request starts are parameters; a socket is what was written to it and how
  many more writes it accepts.
\<close>

section \<open>Reading a request\<close>

definition MAX_REQUEST_BYTES :: nat where
  "MAX_REQUEST_BYTES = 16 * 1024 * 1024"

definition MAX_CONNECTIONS :: usize where
  "MAX_CONNECTIONS = 64"

abbreviation newline :: char where
  "newline \<equiv> CHR 0x0A"

abbreviation carriage_return :: char where
  "carriage_return \<equiv> CHR 0x0D"

text \<open>\<open>iter().position\<close>.\<close>

fun position :: "('a \<Rightarrow> bool) \<Rightarrow> 'a list \<Rightarrow> nat option" where
  "position P [] = None"
| "position P (x # xs) = (if P x then Some 0 else map_option Suc (position P xs))"

text \<open>
  Each element of the list is what \<open>fill_buf\<close> returns next: some bytes, or an input error; an
  exhausted list is end of input. Bytes past the newline stay in the reader and are not
  needed by the caller.
\<close>

fun read_limited_line :: "(string result) list \<Rightarrow> nat \<Rightarrow> string \<Rightarrow> string result" where
  "read_limited_line [] limit out = Inr out"
| "read_limited_line (Inl e # chunks) limit out = Inl e"
| "read_limited_line (Inr available # chunks) limit out =
     (if available = [] then Inr out
      else
        let nl = position (\<lambda>b. b = newline) available;
            len = (case nl of None \<Rightarrow> length available | Some index \<Rightarrow> index + 1)
        in if length out + len > limit
           then bail (''daemon request exceeds '' @ show_nat limit @ '' bytes'')
           else
             let out' = out @ take len available
             in if nl \<noteq> None then Inr out' else read_limited_line chunks limit out')"

definition strip_line_end :: "string \<Rightarrow> string" where
  "strip_line_end bytes =
     (if bytes \<noteq> [] \<and> last bytes = newline then
        let b = butlast bytes in
        if b \<noteq> [] \<and> last b = carriage_return then butlast b else b
      else bytes)"

definition read_request_line :: "(string result) list \<Rightarrow> string result" where
  "read_request_line chunks =
     and_then (with_context ''reading daemon request'' (read_limited_line chunks MAX_REQUEST_BYTES []))
       (\<lambda>bytes.
          let line = strip_line_end bytes in
          if valid_utf8 line then Inr line
          else with_context ''daemon request is not UTF-8'' (external ''utf8''))"

section \<open>Writing responses\<close>

record sock =
  k_out :: string
  k_room :: "nat option"

definition write_all :: "string \<Rightarrow> sock \<Rightarrow> unit result \<times> sock" where
  "write_all data k =
     (case k_room k of
        None \<Rightarrow> (Inr (), k\<lparr>k_out := k_out k @ data\<rparr>)
      | Some 0 \<Rightarrow> (external ''io'', k)
      | Some (Suc n) \<Rightarrow> (Inr (), k\<lparr>k_out := k_out k @ data, k_room := Some n\<rparr>))"

definition response_line :: "(response \<Rightarrow> string result) \<Rightarrow> response \<Rightarrow> string result" where
  "response_line to_vec r = and_then (to_vec r) (\<lambda>line. Inr (line @ [newline]))"

definition write_response ::
  "(response \<Rightarrow> string result) \<Rightarrow> response \<Rightarrow> sock \<Rightarrow> unit result \<times> sock"
where
  "write_response to_vec r k =
     (case response_line to_vec r of
        Inl e \<Rightarrow> (Inl e, k)
      | Inr line \<Rightarrow> write_all line k)"

section \<open>Handlers\<close>

text \<open>The daemon's memory: the cache, the sessions behind the cached identities, a fresh identity.\<close>

record daemon =
  dm_cache :: daemon_state
  dm_heap :: "nat \<Rightarrow> session option"
  dm_next :: nat

definition initial_daemon :: daemon where
  "initial_daemon = \<lparr>dm_cache = initial_daemon_state, dm_heap = (\<lambda>_. None), dm_next = 0\<rparr>"

text \<open>What the handlers take from outside.\<close>

record env =
  en_key :: "wire_config \<Rightarrow> string result"
  en_to_vec :: "response \<Rightarrow> string result"
  en_from_str :: "string \<Rightarrow> request result"
  en_render :: "report \<Rightarrow> string"

text \<open>\<open>DaemonState::replace_session\<close> with the session it opens.\<close>

definition open_session :: "env \<Rightarrow> config \<Rightarrow> daemon \<Rightarrow> nat result \<times> daemon" where
  "open_session en c d =
     (case replace_session (en_key en) (dm_next d) c (dm_cache d) of
        (Inl e, cache) \<Rightarrow> (Inl e, d\<lparr>dm_cache := cache\<rparr>)
      | (Inr sid, cache) \<Rightarrow>
          (Inr sid, d\<lparr>dm_cache := cache, dm_heap := (dm_heap d)(sid \<mapsto> session_open c),
                     dm_next := Suc (dm_next d)\<rparr>))"

fun eval_items ::
  "env \<Rightarrow> (session_error + event) list \<Rightarrow> string option \<Rightarrow> sock \<Rightarrow> unit result \<times> string option \<times> sock"
where
  "eval_items en [] recorded k = (Inr (), recorded, k)"
| "eval_items en (item # items) recorded k =
     (let (response, recorded) =
        (case item of
           Inr event \<Rightarrow> (ResponseEvent event, recorded)
         | Inl err \<Rightarrow> (ResponseError (display_error err), None))
      in case response_line (en_to_vec en) response of
           Inl e \<Rightarrow> (Inl e, recorded, k)
         | Inr line \<Rightarrow>
             (case write_all line k of
                (Inl e, k') \<Rightarrow> (Inl e, recorded, k')
              | (Inr _, k') \<Rightarrow> eval_items en items (map_option (\<lambda>r. r @ line) recorded) k'))"

definition handle_eval ::
  "env \<Rightarrow> master_run \<Rightarrow> config \<Rightarrow> daemon \<Rightarrow> sock \<Rightarrow> unit result \<times> daemon \<times> sock"
where
  "handle_eval en run c d k =
     (case open_session en c d of
        (Inl e, d') \<Rightarrow> (Inl e, d', k)
      | (Inr sid, d') \<Rightarrow>
          (case stream_bounded (en_render en) True True True run DEFAULT_STREAM_BUFFER_CAPACITY
                   (session_open c) of (items, s) \<Rightarrow>
             let d1 = d'\<lparr>dm_heap := (dm_heap d')(sid \<mapsto> s)\<rparr> in
             (case eval_items en items (Some []) k of
                (Inl e, _, k') \<Rightarrow> (Inl e, d1, k')
              | (Inr _, recorded, k') \<Rightarrow>
                  let replay = (case recorded of None \<Rightarrow> Invalidated | Some lines \<Rightarrow> ReplayReady lines) in
                  (case settle_replay (en_key en) c sid replay (dm_cache d1) of
                     (Inl e, cache) \<Rightarrow> (Inl e, d1\<lparr>dm_cache := cache\<rparr>, k')
                   | (Inr _, cache) \<Rightarrow>
                       (case write_response (en_to_vec en) ResponseDone k' of (r, k'') \<Rightarrow>
                          (r, d1\<lparr>dm_cache := cache\<rparr>, k''))))))"

definition handle_replay :: "env \<Rightarrow> config \<Rightarrow> daemon \<Rightarrow> sock \<Rightarrow> unit result \<times> daemon \<times> sock" where
  "handle_replay en c d k =
     (case replay_of (en_key en) c (dm_cache d) of
        (Inl e, cache) \<Rightarrow> (Inl e, d\<lparr>dm_cache := cache\<rparr>, k)
      | (Inr lines, cache) \<Rightarrow>
          (case write_all lines k of
             (Inl e, k') \<Rightarrow> (Inl e, d\<lparr>dm_cache := cache\<rparr>, k')
           | (Inr _, k') \<Rightarrow>
               (case write_response (en_to_vec en) ResponseDone k' of (r, k'') \<Rightarrow>
                  (r, d\<lparr>dm_cache := cache\<rparr>, k''))))"

fun write_responses :: "env \<Rightarrow> response list \<Rightarrow> sock \<Rightarrow> unit result \<times> sock" where
  "write_responses en [] k = (Inr (), k)"
| "write_responses en (r # rs) k =
     (case write_response (en_to_vec en) r k of
        (Inl e, k') \<Rightarrow> (Inl e, k')
      | (Inr _, k') \<Rightarrow> write_responses en rs k')"

definition handle_watch ::
  "env \<Rightarrow> (session \<Rightarrow> unit result option \<times> warm_state \<times> watch_items) \<Rightarrow> master_run \<Rightarrow> config \<Rightarrow>
    daemon \<Rightarrow> sock \<Rightarrow> unit result \<times> daemon \<times> sock"
where
  "handle_watch en loop run c d k =
     (case open_session en c d of
        (Inl e, d') \<Rightarrow> (Inl e, d', k)
      | (Inr sid, d') \<Rightarrow>
          (case settle_replay (en_key en) c sid Invalidated (dm_cache d') of
             (Inl e, cache) \<Rightarrow> (Inl e, d'\<lparr>dm_cache := cache\<rparr>, k)
           | (Inr _, cache) \<Rightarrow>
               (case session_watch_bounded (en_render en) True True loop run DEFAULT_STREAM_BUFFER_CAPACITY
                        (session_open c) of (items, s) \<Rightarrow>
                  (case write_responses en (map (\<lambda>i. case i of
                       Inr df \<Rightarrow> ResponseDiff df
                     | Inl err \<Rightarrow> ResponseError (display_error err)) items) k of (r, k') \<Rightarrow>
                     (r, d'\<lparr>dm_cache := cache, dm_heap := (dm_heap d')(sid \<mapsto> s)\<rparr>, k')))))"

text \<open>Reports built from the library's errors keep their text.\<close>

definition report_of :: "session_error + 'a \<Rightarrow> 'a result" where
  "report_of r = (case r of Inl e \<Rightarrow> bail (display_error e) | Inr x \<Rightarrow> Inr x)"

definition cached_session_of :: "env \<Rightarrow> config \<Rightarrow> daemon \<Rightarrow> (nat \<times> session) result \<times> daemon" where
  "cached_session_of en c d =
     (case warm_session (en_key en) c (dm_cache d) of
        (Inl e, cache) \<Rightarrow> (Inl e, d\<lparr>dm_cache := cache\<rparr>)
      | (Inr sid, cache) \<Rightarrow>
          ((case dm_heap d sid of None \<Rightarrow> panic | Some s \<Rightarrow> Inr (sid, s)), d\<lparr>dm_cache := cache\<rparr>))"

definition handle_query :: "env \<Rightarrow> query_filter \<Rightarrow> config \<Rightarrow> daemon \<Rightarrow> sock \<Rightarrow> unit result \<times> daemon \<times> sock" where
  "handle_query en f c d k =
     (case cached_session_of en c d of
        (Inl e, d') \<Rightarrow> (Inl e, d', k)
      | (Inr (sid, s), d') \<Rightarrow>
          (case and_then (report_of (require_completed s)) (\<lambda>_. report_of (query_snapshot f s)) of
             Inl e \<Rightarrow> (Inl e, d', k)
           | Inr drvs \<Rightarrow>
               (case write_responses en (map response_derivation_event drvs @ [ResponseDone]) k of (r, k') \<Rightarrow>
                  (r, d', k'))))"

definition handle_diff :: "env \<Rightarrow> master_run \<Rightarrow> config \<Rightarrow> daemon \<Rightarrow> sock \<Rightarrow> unit result \<times> daemon \<times> sock" where
  "handle_diff en run c d k =
     (case cached_session_of en c d of
        (Inl e, d') \<Rightarrow> (Inl e, d', k)
      | (Inr (sid, s), d') \<Rightarrow>
          (case report_of (require_completed s) of
             Inl e \<Rightarrow> (Inl e, d', k)
           | Inr _ \<Rightarrow>
               (case diff_once (en_render en) run s of (df, s') \<Rightarrow>
                  let d1 = d'\<lparr>dm_heap := (dm_heap d')(sid \<mapsto> s')\<rparr> in
                  (case report_of df of
                     Inl e \<Rightarrow> (Inl e, d1, k)
                   | Inr df \<Rightarrow>
                       (case settle_replay (en_key en) c sid Invalidated (dm_cache d1) of
                          (Inl e, cache) \<Rightarrow> (Inl e, d1\<lparr>dm_cache := cache\<rparr>, k)
                        | (Inr _, cache) \<Rightarrow>
                            (case write_responses en [ResponseDiff df, ResponseDone] k of (r, k') \<Rightarrow>
                               (r, d1\<lparr>dm_cache := cache\<rparr>, k')))))))"

section \<open>A connection\<close>

definition authorize_peer :: "u32 result \<Rightarrow> u32 \<Rightarrow> unit result" where
  "authorize_peer peer_uid uid =
     and_then (with_context ''reading daemon peer credentials'' peer_uid) (\<lambda>peer.
       if peer \<noteq> uid then
         bail (''refusing daemon connection from uid '' @ show_nat (unat peer) @ ''; expected '' @
           show_nat (unat uid))
       else Inr ())"

definition display_version_error :: "protocol_version_error \<Rightarrow> string" where
  "display_version_error e =
     ''unsupported daemon protocol version '' @ show_nat (unat (pv_actual e)) @ ''; expected '' @
       show_nat (unat (pv_expected e))"

text \<open>The evaluations a request may start, and the watch loop of the session it opens.\<close>

record runs =
  ru_run :: master_run
  ru_loop :: "session \<Rightarrow> unit result option \<times> warm_state \<times> watch_items"

fun dispatch_request :: "env \<Rightarrow> runs \<Rightarrow> request \<Rightarrow> daemon \<Rightarrow> sock \<Rightarrow> unit result \<times> daemon \<times> sock" where
  "dispatch_request en ru (RequestEval _ c) d k = handle_eval en (ru_run ru) (config_of_wire c) d k"
| "dispatch_request en ru (RequestReplay _ c) d k = handle_replay en (config_of_wire c) d k"
| "dispatch_request en ru (RequestWatch _ c) d k =
     handle_watch en (ru_loop ru) (ru_run ru) (config_of_wire c) d k"
| "dispatch_request en ru (RequestQuery _ c f) d k = handle_query en f (config_of_wire c) d k"
| "dispatch_request en ru (RequestDiff _ c) d k = handle_diff en (ru_run ru) (config_of_wire c) d k"

text \<open>A failure is answered with an error response, whose own failure is ignored.\<close>

definition fail_with ::
  "env \<Rightarrow> report \<Rightarrow> daemon \<Rightarrow> sock \<Rightarrow> unit result \<times> daemon \<times> sock"
where
  "fail_with en err d k =
     (Inl err, d, snd (write_response (en_to_vec en) (ResponseError (en_render en err)) k))"

definition handle_connection ::
  "env \<Rightarrow> runs \<Rightarrow> u32 result \<Rightarrow> u32 \<Rightarrow> (string result) list \<Rightarrow> daemon \<Rightarrow> sock \<Rightarrow> unit result \<times> daemon \<times> sock"
where
  "handle_connection en ru peer_uid uid chunks d k =
     (case authorize_peer peer_uid uid of
        Inl e \<Rightarrow> (Inl e, d, k)
      | Inr _ \<Rightarrow>
          (case read_request_line chunks of
             Inl e \<Rightarrow> fail_with en e d k
           | Inr line \<Rightarrow>
               if trim line = [] then (Inr (), d, k)
               else
                 (case with_context ''parsing daemon request'' (en_from_str en (trim line)) of
                    Inl e \<Rightarrow> fail_with en e d k
                  | Inr request \<Rightarrow>
                      (case validate_protocol request of
                         Inl e \<Rightarrow>
                           (bail (display_version_error e), d,
                            snd (write_response (en_to_vec en) (ResponseError (display_version_error e)) k))
                       | Inr _ \<Rightarrow>
                           (case dispatch_request en ru request d k of
                              (Inl e, d', k') \<Rightarrow> fail_with en e d' k'
                            | (Inr _, d', k') \<Rightarrow> (Inr (), d', k'))))))"

section \<open>The socket path\<close>

text \<open>\<open>symlink_metadata\<close> and a probing \<open>connect\<close>, by what the code distinguishes.\<close>

datatype probe = ProbeConnected | ProbeRefused | ProbeNotFound | ProbeError

datatype socket_status = PathMissing | PathError | PathOther | PathSocket probe

text \<open>What it does to files: \<open>create_dir_all\<close> on the parent, and \<open>remove_file\<close> on the socket's path.\<close>

datatype path_effect = MakeParent path | RemovePath

definition prepare_socket_path ::
  "(path \<times> unit result) option \<Rightarrow> socket_status \<Rightarrow> unit result \<Rightarrow> path \<Rightarrow> unit result \<times> path_effect list"
where
  "prepare_socket_path create_parent status remove socket =
     (let made = (case create_parent of None \<Rightarrow> [] | Some (parent, _) \<Rightarrow> [MakeParent parent])
      in case (case create_parent of
                 None \<Rightarrow> Inr ()
               | Some (parent, r) \<Rightarrow> with_context (''creating socket directory '' @ parent) r) of
           Inl e \<Rightarrow> (Inl e, made)
         | Inr _ \<Rightarrow>
             (case status of
                PathMissing \<Rightarrow> (Inr (), made)
              | PathError \<Rightarrow> (with_context (''checking existing socket path '' @ socket) (external ''io''), made)
              | PathOther \<Rightarrow> (bail (''refusing to remove non-socket path '' @ socket), made)
              | PathSocket ProbeConnected \<Rightarrow>
                  (bail (''live daemon socket already exists at '' @ socket), made)
              | PathSocket ProbeNotFound \<Rightarrow> (Inr (), made)
              | PathSocket ProbeError \<Rightarrow>
                  (with_context (''probing existing socket '' @ socket) (external ''io''), made)
              | PathSocket ProbeRefused \<Rightarrow>
                  (with_context (''removing stale socket '' @ socket) remove, made @ [RemovePath])))"

definition default_socket_path :: "u32 \<Rightarrow> path" where
  "default_socket_path uid = ''/run/user/'' @ show_nat (unat uid) @ ''/evix.sock''"

definition socket_path :: "u32 \<Rightarrow> path option \<Rightarrow> path option \<Rightarrow> path" where
  "socket_path uid env_socket flag =
     (case flag of
        Some p \<Rightarrow> p
      | None \<Rightarrow> (case env_socket of Some p \<Rightarrow> p | None \<Rightarrow> default_socket_path uid))"

definition pid_path :: "u32 \<Rightarrow> path" where
  "pid_path uid = ''/run/user/'' @ show_nat (unat uid) @ ''/evix.pid''"

section \<open>Accepting connections\<close>

text \<open>One accepted connection: handed to a thread that holds a slot, or refused.\<close>

definition serve_accept :: "env \<Rightarrow> limiter \<Rightarrow> sock \<Rightarrow> bool \<times> limiter \<times> sock" where
  "serve_accept en l k =
     (case acquire l of
        (False, l') \<Rightarrow>
          (False, l', snd (write_response (en_to_vec en) (ResponseError ''daemon connection limit exceeded'') k))
      | (True, l') \<Rightarrow> (True, l', k))"

section \<open>Request lines\<close>

definition line_of :: "string \<Rightarrow> string" where
  "line_of bytes =
     (case position (\<lambda>b. b = newline) bytes of
        None \<Rightarrow> bytes
      | Some i \<Rightarrow> take (i + 1) bytes)"

lemma position_append:
  "position P (xs @ ys) =
     (case position P xs of Some i \<Rightarrow> Some i | None \<Rightarrow> map_option (\<lambda>i. length xs + i) (position P ys))"
  by (induction xs; cases "position P ys") (auto split: option.splits)

lemma position_less: "position P xs = Some i \<Longrightarrow> i < length xs"
  by (induction xs arbitrary: i) (auto split: if_splits)

lemma line_of_append:
  "line_of (xs @ ys) = (if position (\<lambda>b. b = newline) xs = None then xs @ line_of ys else line_of xs)"
  using position_less [of "\<lambda>b. b = newline" xs]
  by (auto simp: line_of_def position_append split: option.splits)

lemma read_limited_line_spec:
  assumes "\<forall>c \<in> set cs. c \<noteq> []" and "length out \<le> limit"
  shows "read_limited_line (map Inr cs) limit out =
    (if length out + length (line_of (concat cs)) \<le> limit then Inr (out @ line_of (concat cs))
     else bail (''daemon request exceeds '' @ show_nat limit @ '' bytes''))"
  using assms
proof (induction cs arbitrary: out)
  case (Cons c cs)
  show ?case
  proof (cases "position (\<lambda>b. b = newline) c")
    case None
    with Cons show ?thesis
      by (auto simp: Let_def line_of_append)
  next
    case (Some i)
    with Cons.prems position_less [OF Some] show ?thesis
      by (simp add: Let_def line_of_append) (simp add: line_of_def)
  qed
qed (simp add: line_of_def)

text \<open>
  C18. Reading a request does not depend on how the socket cuts the stream into chunks: for
  any chunks, the line is the stream up to and including its first newline (or all of it),
  refused exactly when it is longer than the limit; so a peer can neither make the daemon
  buffer more than the limit nor hide a second request behind the first.
\<close>

theorem read_limited_line_chunk_independent:
  assumes "\<forall>c \<in> set cs. c \<noteq> []"
  shows "read_limited_line (map Inr cs) limit [] =
    (if length (line_of (concat cs)) \<le> limit then Inr (line_of (concat cs))
     else bail (''daemon request exceeds '' @ show_nat limit @ '' bytes''))"
  using read_limited_line_spec [OF assms, of "[]"] by simp

theorem read_limited_line_chunk_independent_witness:
  "read_limited_line (map Inr [''ab'', ''c'' @ [newline] @ ''x'']) 10 [] = Inr (''abc'' @ [newline])"
proof -
  have "\<forall>c \<in> set [''ab'', ''c'' @ [newline] @ ''x'']. c \<noteq> []" by simp
  from read_limited_line_chunk_independent [OF this, of 10] show ?thesis
    by (simp add: line_of_def)
qed

section \<open>The daemon's invariant\<close>

definition daemon_ok :: "daemon \<Rightarrow> bool" where
  "daemon_ok d \<longleftrightarrow> registry_ok (dm_cache d) \<and>
     (\<forall>key cached. registry_find (dm_cache d) key = Some cached \<longrightarrow>
        dm_heap d (cs_session cached) \<noteq> None \<and> cs_session cached < dm_next d)"

lemma daemon_ok_initial: "daemon_ok initial_daemon"
  by (simp add: daemon_ok_def initial_daemon_def initial_daemon_state_def registry_new_ok)
    (simp add: registry_new_def)

lemma daemon_ok_heap:
  "daemon_ok d \<Longrightarrow> daemon_ok (d\<lparr>dm_heap := (dm_heap d)(sid \<mapsto> s)\<rparr>)"
  by (auto simp: daemon_ok_def)

text \<open>Changing the cache so that every entry keeps its session identity keeps the daemon in order.\<close>

lemma daemon_ok_cache:
  assumes "daemon_ok d" and "registry_ok cache"
    and "\<And>key cached. registry_find cache key = Some cached \<Longrightarrow>
      \<exists>old. registry_find (dm_cache d) key = Some old \<and> cs_session old = cs_session cached"
  shows "daemon_ok (d\<lparr>dm_cache := cache\<rparr>)"
  using assms unfolding daemon_ok_def by simp metis

lemma settle_cached_session [simp]: "cs_session (settle_cached sid r cached) = cs_session cached"
  by (simp add: settle_cached_def)

lemma daemon_ok_settle:
  assumes "daemon_ok d"
  shows "daemon_ok (d\<lparr>dm_cache := snd (settle_replay to_string c sid r (dm_cache d))\<rparr>)"
proof (cases "session_key to_string c")
  case (Inl e)
  then show ?thesis using assms by (simp add: settle_replay_def)
next
  case (Inr key)
  have ok: "registry_ok (dm_cache d)" using assms by (simp add: daemon_ok_def)
  show ?thesis
    by (rule daemon_ok_cache [OF assms settle_replay_ok [OF ok]])
      (auto simp: settle_replay_find [OF ok Inr] split: if_splits)
qed

lemma daemon_ok_touch: "daemon_ok d \<Longrightarrow> daemon_ok (d\<lparr>dm_cache := registry_touch key (dm_cache d)\<rparr>)"
  by (rule daemon_ok_cache) (auto simp: daemon_ok_def registry_touch_ok)

lemma replay_of_state:
  "snd (replay_of to_string c cache) =
     (case session_key to_string c of Inl e \<Rightarrow> cache | Inr key \<Rightarrow> registry_touch key cache)"
  by (auto simp: replay_of_def registry_get_def split: sum.splits option.splits)

lemma warm_session_state:
  "snd (warm_session to_string c cache) =
     (case session_key to_string c of Inl e \<Rightarrow> cache | Inr key \<Rightarrow> registry_touch key cache)"
  by (auto simp: warm_session_def registry_get_def split: sum.splits option.splits)

lemma daemon_ok_replay_of: "daemon_ok d \<Longrightarrow> daemon_ok (d\<lparr>dm_cache := snd (replay_of to_string c (dm_cache d))\<rparr>)"
  by (auto simp: replay_of_state daemon_ok_touch split: sum.splits)

lemma daemon_ok_warm: "daemon_ok d \<Longrightarrow> daemon_ok (d\<lparr>dm_cache := snd (warm_session to_string c (dm_cache d))\<rparr>)"
  by (auto simp: warm_session_state daemon_ok_touch split: sum.splits)

lemma open_session_ok:
  assumes "daemon_ok d"
  shows "daemon_ok (snd (open_session en c d))"
proof (cases "session_key (en_key en) c")
  case (Inl e)
  then show ?thesis using assms by (simp add: open_session_def replace_session_def)
next
  case (Inr key)
  have ok: "registry_ok (dm_cache d)" using assms by (simp add: daemon_ok_def)
  have "registry_find (registry_insert key v (dm_cache d)) key' = Some cached \<Longrightarrow>
      key' = key \<and> cached = v \<or> registry_find (dm_cache d) key' = Some cached" for v key' cached
    by (auto simp: registry_find_insert [OF ok] split: if_splits)
  then show ?thesis
    using assms Inr registry_insert_ok [OF ok]
    by (fastforce simp: open_session_def replace_session_def daemon_ok_def less_Suc_eq)
qed

text \<open>The session behind a cached identity is always there.\<close>

lemma cached_session_of_ok:
  assumes "daemon_ok d" and "cached_session_of en c d = (r, d')"
  shows "daemon_ok d'" and "r \<noteq> panic"
proof -
  have d': "d' = d\<lparr>dm_cache := snd (warm_session (en_key en) c (dm_cache d))\<rparr>"
    using assms(2) by (auto simp: cached_session_of_def split: prod.splits sum.splits)
  show "daemon_ok d'" unfolding d' using assms(1) by (rule daemon_ok_warm)
  have "fst (warm_session (en_key en) c (dm_cache d)) = Inr sid \<Longrightarrow> dm_heap d sid \<noteq> None" for sid
    using assms(1)
    by (auto simp: warm_session_def registry_get_def daemon_ok_def split: sum.splits option.splits)
  moreover have "fst (warm_session (en_key en) c (dm_cache d)) \<noteq> panic"
  proof -
    have "session_key (en_key en) c = Inl e \<Longrightarrow> Inl e \<noteq> (panic :: nat result)" for e
      by (cases "en_key en (wire_of_config c)" rule: sum.exhaust; cases "projl (en_key en (wire_of_config c))")
        (auto simp: session_key_def panic_def external_def)
    then show ?thesis
      by (auto simp: warm_session_def registry_get_def split: sum.splits option.splits)
  qed
  ultimately show "r \<noteq> panic"
    using assms(2)
    by (auto simp: cached_session_of_def panic_def external_def split: prod.splits sum.splits option.splits)
qed

lemma handle_eval_ok:
  assumes "daemon_ok d"
  shows "daemon_ok (fst (snd (handle_eval en run c d k)))"
proof (cases "open_session en c d")
  case (Pair r d')
  then have d': "daemon_ok d'" using open_session_ok [OF assms, of en c] by simp
  show ?thesis
  proof (cases r)
    case (Inl e)
    then show ?thesis using Pair d' by (simp add: handle_eval_def)
  next
    case (Inr sid)
    obtain items s where st: "stream (en_render en) True True True run (session_open c) = (items, s)" by force
    obtain w rec k' where ev: "eval_items en items (Some []) k = (w, rec, k')" by (metis prod_cases3)
    note heap = daemon_ok_heap [OF d', of sid s]
    let ?replay = "case rec of None \<Rightarrow> Invalidated | Some lines \<Rightarrow> ReplayReady lines"
    obtain r2 cache where set: "settle_replay (en_key en) c sid ?replay
        (dm_cache (d'\<lparr>dm_heap := (dm_heap d')(sid \<mapsto> s)\<rparr>)) = (r2, cache)" by force
    have "daemon_ok (d'\<lparr>dm_heap := (dm_heap d')(sid \<mapsto> s), dm_cache := cache\<rparr>)"
      using daemon_ok_settle [OF heap, of "en_key en" c sid ?replay] set by simp
    then show ?thesis
      using Pair Inr st ev set heap
      by (cases w; cases r2) (auto simp: handle_eval_def Let_def split: prod.splits)
  qed
qed

lemma handle_replay_ok:
  assumes "daemon_ok d"
  shows "daemon_ok (fst (snd (handle_replay en c d k)))"
  using daemon_ok_replay_of [OF assms, of "en_key en" c]
  by (fastforce simp: handle_replay_def split: sum.splits prod.splits dest!: sndI)

lemma handle_watch_ok:
  assumes "daemon_ok d"
  shows "daemon_ok (fst (snd (handle_watch en loop run c d k)))"
proof (cases "open_session en c d")
  case (Pair r d')
  then have d': "daemon_ok d'" using open_session_ok [OF assms, of en c] by simp
  note settle = daemon_ok_settle [OF d', of "en_key en" c]
  show ?thesis
  proof (cases r)
    case (Inl e)
    then show ?thesis using Pair d' by (simp add: handle_watch_def)
  next
    case (Inr sid)
    obtain r2 cache where set: "settle_replay (en_key en) c sid Invalidated (dm_cache d') = (r2, cache)" by force
    have "daemon_ok (d'\<lparr>dm_cache := cache\<rparr>)" using settle [of sid Invalidated] set by simp
    from this daemon_ok_heap [OF this, of sid] show ?thesis
      using Pair Inr set by (cases r2) (auto simp: handle_watch_def split: prod.splits)
  qed
qed

lemma handle_query_ok:
  assumes "daemon_ok d"
  shows "daemon_ok (fst (snd (handle_query en f c d k)))"
  using cached_session_of_ok(1) [OF assms, of en c]
  by (auto simp: handle_query_def split: sum.splits prod.splits)

lemma handle_diff_ok:
  assumes "daemon_ok d"
  shows "daemon_ok (fst (snd (handle_diff en run c d k)))"
proof (cases "cached_session_of en c d")
  case (Pair r d')
  then have d': "daemon_ok d'" using cached_session_of_ok(1) [OF assms] by blast
  show ?thesis
  proof (cases r)
    case (Inl e)
    then show ?thesis using Pair d' by (simp add: handle_diff_def)
  next
    case (Inr ids)
    obtain sid s where ids: "ids = (sid, s)" by force
    obtain df s' where diff: "diff_once (en_render en) run s = (df, s')" by force
    note heap = daemon_ok_heap [OF d', of sid s']
    obtain r2 cache where set: "settle_replay (en_key en) c sid Invalidated
        (dm_cache (d'\<lparr>dm_heap := (dm_heap d')(sid \<mapsto> s')\<rparr>)) = (r2, cache)" by force
    have "daemon_ok (d'\<lparr>dm_heap := (dm_heap d')(sid \<mapsto> s'), dm_cache := cache\<rparr>)"
      using daemon_ok_settle [OF heap, of "en_key en" c sid Invalidated] set by simp
    then show ?thesis
      using Pair Inr ids diff set heap d'
      by (cases r2; cases "report_of (require_completed s)"; cases "report_of df")
        (auto simp: handle_diff_def Let_def split: prod.splits)
  qed
qed

lemma dispatch_request_ok: "daemon_ok d \<Longrightarrow> daemon_ok (fst (snd (dispatch_request en ru req d k)))"
  by (cases req) (simp_all add: handle_eval_ok handle_replay_ok handle_watch_ok handle_query_ok handle_diff_ok)

lemma handle_connection_ok:
  assumes "daemon_ok d"
  shows "daemon_ok (fst (snd (handle_connection en ru peer uid chunks d k)))"
proof -
  have "dispatch_request en ru req d k = (r, d', k') \<Longrightarrow> daemon_ok d'" for req r d' k'
    using dispatch_request_ok [OF assms, of en ru req k] by simp
  then show ?thesis
    using assms by (auto simp: handle_connection_def fail_with_def split: sum.splits prod.splits)
qed

definition connection_step :: "env \<Rightarrow> daemon \<Rightarrow> daemon \<Rightarrow> bool" where
  "connection_step en d d' \<longleftrightarrow>
     (\<exists>ru peer uid chunks k. d' = fst (snd (handle_connection en ru peer uid chunks d k)))"

interpretation served: inductive_invariant "\<lambda>d. d = initial_daemon" "connection_step en" daemon_ok for en
  by unfold_locales (auto simp: connection_step_def daemon_ok_initial handle_connection_ok)

section \<open>What the daemon promises\<close>

text \<open>
  C15. After any sequence of connections, whatever was requested and however it failed, the
  session cache is a well-formed bounded cache whose entries all refer to sessions that
  exist, so serving a query or a diff never dereferences a session that is gone.
\<close>

theorem daemon_invariant:
  assumes "(connection_step en)\<^sup>*\<^sup>* initial_daemon d"
  shows "registry_ok (dm_cache d) \<and>
    (\<forall>key cached. registry_find (dm_cache d) key = Some cached \<longrightarrow> dm_heap d (cs_session cached) \<noteq> None) \<and>
    fst (cached_session_of en c d) \<noteq> panic"
proof -
  have ok: "daemon_ok d" using served.reach_inv [OF refl assms] .
  moreover have "fst (cached_session_of en c d) \<noteq> panic"
    using cached_session_of_ok(2) [OF ok] by (metis prod.collapse)
  ultimately show ?thesis by (simp add: daemon_ok_def)
qed

definition ex_env :: env where
  "ex_env = \<lparr>en_key = (\<lambda>_. Inr ''k''), en_to_vec = (\<lambda>r. case r of ResponseDone \<Rightarrow> Inr ''done'' | _ \<Rightarrow> Inr ''event''),
     en_from_str = (\<lambda>_. Inr (request_eval default_wire_config)), en_render = (\<lambda>_. ''e'')\<rparr>"

definition ex_sock :: sock where
  "ex_sock = \<lparr>k_out = [], k_room = None\<rparr>"

definition ex_runs :: runs where
  "ex_runs = \<lparr>ru_run = ([AttrSet [] [] []], Inr Completed), ru_loop = (\<lambda>s. (None, ss_state s, []))\<rparr>"

definition ex_daemon :: daemon where
  "ex_daemon = fst (snd (handle_connection ex_env ex_runs (Inr 0) 0 [Inr (''{}'' @ [newline])] initial_daemon ex_sock))"

theorem daemon_invariant_witness: "fst (cached_session_of ex_env default_config ex_daemon) \<noteq> panic"
proof -
  have "connection_step ex_env initial_daemon ex_daemon"
    unfolding connection_step_def ex_daemon_def by blast
  then have "(connection_step ex_env)\<^sup>*\<^sup>* initial_daemon ex_daemon" by blast
  from daemon_invariant [OF this] show ?thesis by blast
qed

lemma write_all_out: "write_all data k = (Inr (), k') \<Longrightarrow> k_out k' = k_out k @ data"
  by (auto simp: write_all_def split: option.splits nat.splits)

lemma write_all_open: "k_room k = None \<Longrightarrow> write_all data k = (Inr (), k\<lparr>k_out := k_out k @ data\<rparr>)"
  by (simp add: write_all_def)

lemma write_response_out:
  "write_response to_vec r k = (Inr (), k') \<Longrightarrow> \<exists>line. response_line to_vec r = Inr line \<and> k_out k' = k_out k @ line"
  by (auto simp: write_response_def write_all_out split: sum.splits)

text \<open>What was written while a stream without errors was recorded is what was recorded.\<close>

lemma eval_items_recorded:
  assumes "eval_items en (map Inr evs) (Some r) k = (Inr (), rec, k')"
  shows "\<exists>lines. rec = Some (r @ lines) \<and> k_out k' = k_out k @ lines"
  using assms
proof (induction evs arbitrary: r k)
  case (Cons e evs)
  then obtain line k1 where "response_line (en_to_vec en) (ResponseEvent e) = Inr line"
    "write_all line k = (Inr (), k1)"
    "eval_items en (map Inr evs) (Some (r @ line)) k1 = (Inr (), rec, k')"
    by (auto split: sum.splits prod.splits)
  with Cons.IH [of "r @ line" k1] show ?case by (auto dest!: write_all_out)
qed auto

lemma stream_open_completed:
  "snd run = Inr Completed \<Longrightarrow> fst (stream render True True True run (session_open c)) = map Inr (fst run)"
  by (simp add: stream_def start_initial_evaluation_def session_open_def spawn_session_task_def
      stream_task_def settle_initial_def evaluate_initial_def evaluate_def Let_def)

text \<open>
  C16. A replay is the evaluation's own output: when an eval request completed and was fully
  answered, a replay request for the same configuration writes byte for byte what the eval
  request wrote.
\<close>

theorem replay_repeats_eval_output:
  assumes "daemon_ok d" and "snd run = Inr Completed"
    and "handle_eval en run c d k = (Inr (), d1, k1)" and "k_room k2 = None"
  shows "\<exists>bytes d2 k3. handle_replay en c d1 k2 = (Inr (), d2, k3) \<and>
    k_out k1 = k_out k @ bytes \<and> k_out k3 = k_out k2 @ bytes"
proof -
  have ok: "registry_ok (dm_cache d)" using assms(1) by (simp add: daemon_ok_def)
  obtain key where key: "session_key (en_key en) c = Inr key"
    using assms(3) by (auto simp: handle_eval_def open_session_def replace_session_def split: sum.splits)
  let ?sid = "dm_next d"
  let ?cache = "registry_insert key \<lparr>cs_session = ?sid, cs_replay = Recording\<rparr> (dm_cache d)"
  obtain items s where st: "stream (en_render en) True True True run (session_open c) = (items, s)" by force
  have items: "items = map Inr (fst run)" using stream_open_completed [OF assms(2), of "en_render en" c] st by simp
  obtain w rec k' where ev: "eval_items en items (Some []) k = (w, rec, k')" by (metis prod_cases3)
  have "w = Inr ()"
    using assms(3) key st ev
    by (cases w) (auto simp: handle_eval_def open_session_def replace_session_def Let_def)
  then obtain lines where rec: "rec = Some lines" and out: "k_out k' = k_out k @ lines"
    using eval_items_recorded [of en "fst run" "[]" k rec k'] ev items by auto
  have d1: "dm_cache d1 = snd (settle_replay (en_key en) c ?sid (ReplayReady lines) ?cache)"
    and fin: "write_response (en_to_vec en) ResponseDone k' = (Inr (), k1)"
    using assms(3) key st ev \<open>w = Inr ()\<close> rec
    by (auto simp: handle_eval_def open_session_def replace_session_def settle_replay_def Let_def
        split: prod.splits)
  obtain dn where dn: "response_line (en_to_vec en) ResponseDone = Inr dn" "k_out k1 = k_out k' @ dn"
    using write_response_out [OF fin] by blast
  have find: "registry_find (dm_cache d1) key = Some \<lparr>cs_session = ?sid, cs_replay = ReplayReady lines\<rparr>"
    using registry_insert_ok [OF ok] registry.find_insert_same [OF ok]
    by (simp add: d1 settle_replay_find [OF _ key] settle_cached_def)
  have "fst (replay_of (en_key en) c (dm_cache d1)) = Inr lines"
    using replay_of_find [OF key find] by simp
  then have "handle_replay en c d1 k2 = (Inr (), d1\<lparr>dm_cache := snd (replay_of (en_key en) c (dm_cache d1))\<rparr>,
      k2\<lparr>k_out := (k_out k2 @ lines) @ dn\<rparr>)"
    using assms(4) dn
    by (cases "replay_of (en_key en) c (dm_cache d1)")
      (simp add: handle_replay_def write_all_open write_response_def)
  then show ?thesis using out dn by auto
qed

theorem replay_repeats_eval_output_witness:
  "\<exists>bytes d2 k3. handle_replay ex_env default_config
      (fst (snd (handle_eval ex_env ([AttrSet [] [] []], Inr Completed) default_config initial_daemon ex_sock)))
      ex_sock = (Inr (), d2, k3) \<and>
    k_out (snd (snd (handle_eval ex_env ([AttrSet [] [] []], Inr Completed) default_config initial_daemon ex_sock))) =
      k_out ex_sock @ bytes \<and> k_out k3 = k_out ex_sock @ bytes"
proof (rule replay_repeats_eval_output [OF daemon_ok_initial])
  let ?h = "handle_eval ex_env ([AttrSet [] [] []], Inr Completed) default_config initial_daemon ex_sock"
  have "fst ?h = Inr ()" by code_simp
  then show "?h = (Inr (), fst (snd ?h), snd (snd ?h))" by (simp add: prod_eq_iff)
qed (simp_all add: ex_sock_def)

text \<open>
  Nothing happens before the checks pass: a connection from another user is dropped
  without reading or writing anything; an unreadable, oversized or unparsable request, or one
  with another protocol version, is answered with one error response and changes nothing.
\<close>

theorem rejected_connection_changes_nothing:
  assumes "peer \<noteq> Inr uid \<or> isl (read_request_line chunks) \<or>
    (\<exists>line. read_request_line chunks = Inr line \<and>
      (isl (en_from_str en (trim line)) \<or>
       (\<exists>req. en_from_str en (trim line) = Inr req \<and> request_version req \<noteq> DAEMON_PROTOCOL_VERSION)))"
  shows "fst (snd (handle_connection en ru peer uid chunks d k)) = d \<and>
    (peer \<noteq> Inr uid \<longrightarrow> isl (fst (handle_connection en ru peer uid chunks d k)) \<and>
       snd (snd (handle_connection en ru peer uid chunks d k)) = k)"
proof -
  have auth: "authorize_peer peer uid = Inr () \<longleftrightarrow> peer = Inr uid"
    by (auto simp: authorize_peer_def and_then_Ok_iff)
  show ?thesis
  proof (cases "authorize_peer peer uid")
    case (Inl e)
    then show ?thesis by (simp add: handle_connection_def)
  next
    case (Inr u)
    then have peer: "peer = Inr uid" using auth by simp
    from assms peer consider e where "read_request_line chunks = Inl e"
      | line e where "read_request_line chunks = Inr line" "en_from_str en (trim line) = Inl e"
      | line req where "read_request_line chunks = Inr line" "en_from_str en (trim line) = Inr req"
          "request_version req \<noteq> DAEMON_PROTOCOL_VERSION"
      by (auto simp: isl_def)
    then have "fst (snd (handle_connection en ru peer uid chunks d k)) = d"
    proof cases
      case 1
      with Inr show ?thesis by (simp add: handle_connection_def fail_with_def)
    next
      case (2 line e)
      obtain e' where "with_context ''parsing daemon request'' (Inl e :: request result) = Inl e'"
        by (cases e) simp
      with Inr 2 show ?thesis by (simp add: handle_connection_def fail_with_def)
    next
      case (3 line req)
      then have "validate_protocol req =
          Inl \<lparr>pv_actual = request_version req, pv_expected = DAEMON_PROTOCOL_VERSION\<rparr>"
        by (simp add: validate_protocol_def)
      with Inr 3 show ?thesis by (simp add: handle_connection_def)
    qed
    with peer show ?thesis by simp
  qed
qed

theorem rejected_connection_changes_nothing_witness:
  "fst (snd (handle_connection ex_env ex_runs (Inr 1000) 0 [] initial_daemon ex_sock)) = initial_daemon"
  using rejected_connection_changes_nothing [of "Inr 1000" 0] by simp

text \<open>
  Starting the daemon removes nothing but a dead socket: the socket path is deleted only
  when it is a socket that refuses connections; a live daemon's socket, any other file and
  any failed check are reported and left alone. All it makes is the socket's parent directory.
\<close>

theorem socket_removed_only_when_stale:
  "(RemovePath \<in> set (snd (prepare_socket_path parent status remove socket)) \<longleftrightarrow>
     status = PathSocket ProbeRefused \<and> (\<forall>p r. parent = Some (p, r) \<longrightarrow> r = Inr ())) \<and>
   (MakeParent d \<in> set (snd (prepare_socket_path parent status remove socket)) \<longleftrightarrow> (\<exists>r. parent = Some (d, r)))"
proof -
  have "with_context x r = Inr () \<longleftrightarrow> r = Inr ()" for x and r :: "unit result" by simp
  then show ?thesis
    by (auto simp: prepare_socket_path_def Let_def split: socket_status.splits probe.splits option.splits sum.splits)
qed

theorem socket_removed_only_when_stale_witness:
  "RemovePath \<notin> set (snd (prepare_socket_path None (PathSocket ProbeConnected) (Inr ()) ''/s''))"
  using socket_removed_only_when_stale [of None "PathSocket ProbeConnected" "Inr ()" "''/s''" "[]"] by simp

end
