(* ===== verification/Worker_Wire.thy ===== *)
theory Worker_Wire
  imports Protocol
begin

text \<open>
  The worker protocol (\<open>crates/evix/src/remote_proto.rs\<close>, schema \<open>worker.capnp\<close>): messages
  between the coordinator and a worker as Cap'n Proto structures, the functions that fill
  them in and the functions that read them back, with every error path (an unknown union
  tag, text that is not UTF-8, a list too long, a protocol version that differs). A Cap'n
  Proto message is the tree of its structures; turning the tree into bytes and checking the
  bytes, including pointer validation and traversal limits, is the library's and a parameter,
  as is the JSON text codec.
\<close>

section \<open>Codecs\<close>

text \<open>
  What every pair of a writer and a reader promises: a value that is \<open>ok\<close> is written, and the
  reader gives it back.
\<close>

locale codec =
  fixes enc :: "'a \<Rightarrow> 'w result"
    and dec :: "'w \<Rightarrow> 'a result"
    and ok :: "'a \<Rightarrow> bool"
  assumes dec_enc: "ok x \<Longrightarrow> \<exists>w. enc x = Inr w \<and> dec w = Inr x"
begin

lemma enc_dec: "ok x \<Longrightarrow> and_then (enc x) dec = Inr x"
  using dec_enc by fastforce

lemma enc_inj: "ok x \<Longrightarrow> ok y \<Longrightarrow> enc x = enc y \<Longrightarrow> x = y"
  by (metis dec_enc sum.inject(2))

lemma dec_enc_list:
  "list_all ok xs \<Longrightarrow> \<exists>ws. collect_results enc xs = Inr ws \<and> collect_results dec ws = Inr xs \<and>
    length ws = length xs"
proof (induction xs)
  case (Cons x xs)
  then obtain ws where
    "collect_results enc xs = Inr ws" "collect_results dec ws = Inr xs" "length ws = length xs"
    by auto
  moreover obtain w where "enc x = Inr w" "dec w = Inr x"
    using Cons.prems dec_enc [of x] by auto
  ultimately show ?case by (auto intro!: exI [of _ "w # ws"])
qed simp

end

section \<open>Messages\<close>

datatype worker_status = StatusReady | StatusRestart

record worker_config =
  w_input :: input
  w_auto_args :: "(string \<times> auto_arg) list"
  w_force_recurse :: bool
  w_gc_roots_dir :: "path option"
  w_max_memory_size :: usize
  w_item_timeout_seconds :: u64
  w_meta :: bool
  w_show_input_drvs :: bool
  w_override_inputs :: "(string \<times> string) list"
  w_nix_options :: "(string \<times> string) list"
  w_locked_flake_json :: "string option"

definition worker_config_of :: "config \<Rightarrow> worker_config" where
  "worker_config_of c = \<lparr>
     w_input = c_input c,
     w_auto_args = c_auto_args c,
     w_force_recurse = c_force_recurse c,
     w_gc_roots_dir = c_gc_roots_dir c,
     w_max_memory_size = c_max_memory_size c,
     w_item_timeout_seconds = c_item_timeout_seconds c,
     w_meta = c_meta c,
     w_show_input_drvs = c_show_input_drvs c,
     w_override_inputs = c_override_inputs c,
     w_nix_options = c_nix_options c,
     w_locked_flake_json = None\<rparr>"

datatype client_message =
    Setup worker_config "string option" "string option"
  | Work "string list"
  | Shutdown

datatype server_message =
    ServerReady
  | ServerEvent event
  | ServerStatus worker_status
  | ServerError string

definition WORKER_PROTOCOL_VERSION :: u32 where
  "WORKER_PROTOCOL_VERSION = 1"

definition REMOTE_TRAVERSAL_LIMIT_WORDS :: usize where
  "REMOTE_TRAVERSAL_LIMIT_WORDS = 8 * 1024 * 1024"

definition LOCAL_TRAVERSAL_LIMIT_WORDS :: usize where
  "LOCAL_TRAVERSAL_LIMIT_WORDS = 64 * 1024 * 1024"

definition NESTING_LIMIT :: nat where
  "NESTING_LIMIT = 64"

record reader_options =
  traversal_limit_in_words :: "usize option"
  nesting_limit :: nat

definition remote_reader_options :: reader_options where
  "remote_reader_options = \<lparr>traversal_limit_in_words = Some REMOTE_TRAVERSAL_LIMIT_WORDS,
     nesting_limit = NESTING_LIMIT\<rparr>"

definition local_reader_options :: reader_options where
  "local_reader_options = \<lparr>traversal_limit_in_words = Some LOCAL_TRAVERSAL_LIMIT_WORDS,
     nesting_limit = NESTING_LIMIT\<rparr>"

subsection \<open>The schema\<close>

text \<open>A union carries one of its members or a tag the schema does not have.\<close>

type_synonym wtext = string

datatype wire_text_opt = TextNone | TextSome wtext | TextTag nat

datatype wire_text_list_opt = TextsNone | TextsSome "wtext list" | TextsTag nat

datatype wire_input = WFlake wtext | WExpr wtext | WFile wtext | WInputTag nat

datatype wire_arg_value = WArgExpr wtext | WArgStr wtext | WArgTag nat

record wire_auto_arg =
  wa_name :: wtext
  wa_value :: wire_arg_value

record wire_pair =
  wp_key :: wtext
  wp_value :: wtext

record wire_worker_config =
  wc_input :: wire_input
  wc_auto_args :: "wire_auto_arg list"
  wc_force_recurse :: bool
  wc_gc_roots_dir :: wire_text_opt
  wc_max_memory_size :: u64
  wc_meta :: bool
  wc_show_input_drvs :: bool
  wc_override_inputs :: "wire_pair list"
  wc_nix_options :: "wire_pair list"
  wc_item_timeout_seconds :: u64
  wc_locked_flake_json :: wire_text_opt

datatype wire_output_path = WAbsent | WPath wtext | WOutputTag nat

record wire_output =
  wo_name :: wtext
  wo_path :: wire_output_path

record wire_input_drv =
  wi_drv_path :: wtext
  wi_value_json :: wtext

record wire_derivation =
  wd_attr :: wtext
  wd_attr_path :: "wtext list"
  wd_name :: wtext
  wd_system :: wtext
  wd_drv_path :: wtext
  wd_outputs :: "wire_output list"
  wd_meta_json :: wire_text_opt
  wd_input_drvs :: "wire_input_drv list"
  wd_constituents :: wire_text_list_opt
  wd_gc_root_error :: wire_text_opt

record wire_eval_error =
  we_attr :: wtext
  we_attr_path :: "wtext list"
  we_error :: wtext
  we_fatal :: bool

datatype wire_event =
    WDerivation wire_derivation
  | WAttrSet wtext "wtext list" "wtext list"
  | WError wire_eval_error
  | WEventTag nat

record wire_setup =
  su_config :: wire_worker_config
  su_token :: wire_text_opt
  su_expected_store_dir :: wire_text_opt
  su_protocol_version :: u32

datatype wire_client = WSetup wire_setup | WWork "wtext list" | WShutdown | WClientTag nat

datatype wire_status = WStatusReady | WStatusRestart | WStatusTag nat

datatype wire_server =
    WReady
  | WEvent wire_event
  | WStatus wire_status
  | WServerError wtext
  | WServerTag nat

section \<open>Text, options and lists\<close>

definition not_in_schema :: "'a result" where
  "not_in_schema = external ''capnp''"

definition read_text :: "wtext \<Rightarrow> string result" where
  "read_text t = (if valid_utf8 t then Inr t else external ''utf8'')"

definition list_len :: "nat \<Rightarrow> string \<Rightarrow> u32 result" where
  "list_len len field =
     (if len < 2 ^ 32 then Inr (of_nat len)
      else with_context (field @ '' length exceeds Cap'n Proto list limit'') (external ''num''))"

definition list_index :: "nat \<Rightarrow> u32 result" where
  "list_index index =
     (if index < 2 ^ 32 then Inr (of_nat index)
      else with_context ''Cap'n Proto list index exceeds u32'' (external ''num''))"

text \<open>
  A list field: allocated with its length, then filled in index order. Element \<open>i\<close> of the
  result is what the loop body wrote at index \<open>i\<close>.
\<close>

definition set_list :: "string \<Rightarrow> ('a \<Rightarrow> 'w result) \<Rightarrow> 'a list \<Rightarrow> 'w list result" where
  "set_list field body xs =
     and_then (list_len (length xs) field) (\<lambda>_.
       collect_results (\<lambda>(index, x). and_then (list_index index) (\<lambda>_. body x)) (enumerate 0 xs))"

definition set_text_opt :: "string option \<Rightarrow> wire_text_opt" where
  "set_text_opt v = (case v of Some s \<Rightarrow> TextSome s | None \<Rightarrow> TextNone)"

fun read_text_opt :: "wire_text_opt \<Rightarrow> string option result" where
  "read_text_opt TextNone = Inr None"
| "read_text_opt (TextSome t) = and_then (read_text t) (\<lambda>s. Inr (Some s))"
| "read_text_opt (TextTag n) = not_in_schema"

definition set_text_list :: "string \<Rightarrow> string list \<Rightarrow> wtext list result" where
  "set_text_list field values = set_list field Inr values"

definition read_text_list :: "wtext list \<Rightarrow> string list result" where
  "read_text_list ts = collect_results read_text ts"

fun read_text_list_opt :: "wire_text_list_opt \<Rightarrow> string list option result" where
  "read_text_list_opt TextsNone = Inr None"
| "read_text_list_opt (TextsSome ts) = and_then (read_text_list ts) (\<lambda>xs. Inr (Some xs))"
| "read_text_list_opt (TextsTag n) = not_in_schema"

definition set_pair :: "string \<times> string \<Rightarrow> wire_pair result" where
  "set_pair kv = Inr \<lparr>wp_key = fst kv, wp_value = snd kv\<rparr>"

definition set_pairs :: "string \<Rightarrow> (string \<times> string) list \<Rightarrow> wire_pair list result" where
  "set_pairs field pairs = set_list field set_pair pairs"

definition read_pair :: "wire_pair \<Rightarrow> (string \<times> string) result" where
  "read_pair p = and_then (read_text (wp_key p)) (\<lambda>k. and_then (read_text (wp_value p)) (\<lambda>v. Inr (k, v)))"

definition read_pairs :: "wire_pair list \<Rightarrow> (string \<times> string) list result" where
  "read_pairs ps = collect_results read_pair ps"

section \<open>The worker's configuration\<close>

fun set_input :: "input \<Rightarrow> wire_input result" where
  "set_input (InputFlake v) = Inr (WFlake v)"
| "set_input (InputExpr v) = Inr (WExpr v)"
| "set_input (InputFile p) =
     (if valid_utf8 p then Inr (WFile p)
      else bail_fmt ''input file {path:?} is not valid UTF-8'' [p])"

fun read_input :: "wire_input \<Rightarrow> input result" where
  "read_input (WFlake t) = and_then (read_text t) (\<lambda>v. Inr (InputFlake v))"
| "read_input (WExpr t) = and_then (read_text t) (\<lambda>v. Inr (InputExpr v))"
| "read_input (WFile t) = and_then (read_text t) (\<lambda>v. Inr (InputFile v))"
| "read_input (WInputTag n) = not_in_schema"

definition set_auto_arg :: "string \<times> auto_arg \<Rightarrow> wire_auto_arg result" where
  "set_auto_arg na = Inr \<lparr>wa_name = fst na,
     wa_value = (case snd na of ArgExpr e \<Rightarrow> WArgExpr e | ArgStr v \<Rightarrow> WArgStr v)\<rparr>"

definition read_auto_arg :: "wire_auto_arg \<Rightarrow> (string \<times> auto_arg) result" where
  "read_auto_arg item =
     and_then (read_text (wa_name item)) (\<lambda>name.
       (case wa_value item of
          WArgExpr t \<Rightarrow> and_then (read_text t) (\<lambda>v. Inr (name, ArgExpr v))
        | WArgStr t \<Rightarrow> and_then (read_text t) (\<lambda>v. Inr (name, ArgStr v))
        | WArgTag n \<Rightarrow> not_in_schema))"

definition read_auto_args :: "wire_auto_arg list \<Rightarrow> (string \<times> auto_arg) list result" where
  "read_auto_args items = collect_results read_auto_arg items"

definition gc_roots_text :: "path option \<Rightarrow> string option result" where
  "gc_roots_text dir =
     transpose_option (map_option (\<lambda>p. if valid_utf8 p then Inr p
       else bail_fmt ''gc roots directory {path:?} is not valid UTF-8'' [p]) dir)"

definition set_worker_config :: "worker_config \<Rightarrow> wire_worker_config result" where
  "set_worker_config c =
     and_then (set_input (w_input c)) (\<lambda>input.
     and_then (set_list ''auto args'' set_auto_arg (w_auto_args c)) (\<lambda>auto_args.
     and_then (gc_roots_text (w_gc_roots_dir c)) (\<lambda>gc_roots_dir.
     and_then (set_pairs ''override inputs'' (w_override_inputs c)) (\<lambda>override_inputs.
     and_then (set_pairs ''nix options'' (w_nix_options c)) (\<lambda>nix_options.
       Inr \<lparr>wc_input = input, wc_auto_args = auto_args, wc_force_recurse = w_force_recurse c,
         wc_gc_roots_dir = set_text_opt gc_roots_dir,
         wc_max_memory_size = w_max_memory_size c, wc_meta = w_meta c,
         wc_show_input_drvs = w_show_input_drvs c, wc_override_inputs = override_inputs,
         wc_nix_options = nix_options, wc_item_timeout_seconds = w_item_timeout_seconds c,
         wc_locked_flake_json = set_text_opt (w_locked_flake_json c)\<rparr>)))))"

definition read_item_timeout_seconds :: "wire_worker_config \<Rightarrow> u64" where
  "read_item_timeout_seconds r =
     (if wc_item_timeout_seconds r = 0 then DEFAULT_ITEM_TIMEOUT_SECONDS else wc_item_timeout_seconds r)"

definition read_worker_config :: "wire_worker_config \<Rightarrow> worker_config result" where
  "read_worker_config r =
     and_then (read_input (wc_input r)) (\<lambda>input.
     and_then (read_auto_args (wc_auto_args r)) (\<lambda>auto_args.
     and_then (read_text_opt (wc_gc_roots_dir r)) (\<lambda>gc_roots_dir.
     and_then (read_pairs (wc_override_inputs r)) (\<lambda>override_inputs.
     and_then (read_pairs (wc_nix_options r)) (\<lambda>nix_options.
     and_then (read_text_opt (wc_locked_flake_json r)) (\<lambda>locked_flake_json.
       Inr \<lparr>w_input = input, w_auto_args = auto_args, w_force_recurse = wc_force_recurse r,
         w_gc_roots_dir = gc_roots_dir, w_max_memory_size = wc_max_memory_size r,
         w_item_timeout_seconds = read_item_timeout_seconds r, w_meta = wc_meta r,
         w_show_input_drvs = wc_show_input_drvs r, w_override_inputs = override_inputs,
         w_nix_options = nix_options, w_locked_flake_json = locked_flake_json\<rparr>))))))"

section \<open>Events\<close>

definition set_eval_error :: "eval_error \<Rightarrow> wire_eval_error result" where
  "set_eval_error e =
     and_then (set_text_list ''error attr path'' (e_attr_path e)) (\<lambda>attr_path.
       Inr \<lparr>we_attr = e_attr e, we_attr_path = attr_path, we_error = e_error e, we_fatal = e_fatal e\<rparr>)"

definition read_eval_error :: "wire_eval_error \<Rightarrow> eval_error result" where
  "read_eval_error r =
     and_then (read_text (we_attr r)) (\<lambda>attr.
     and_then (read_text_list (we_attr_path r)) (\<lambda>attr_path.
     and_then (read_text (we_error r)) (\<lambda>error.
       Inr \<lparr>e_attr = attr, e_attr_path = attr_path, e_error = error, e_fatal = we_fatal r\<rparr>)))"

definition set_output :: "string \<times> string option \<Rightarrow> wire_output result" where
  "set_output np = Inr \<lparr>wo_name = fst np,
     wo_path = (case snd np of Some p \<Rightarrow> WPath p | None \<Rightarrow> WAbsent)\<rparr>"

definition read_output :: "wire_output \<Rightarrow> (string \<times> string option) result" where
  "read_output r =
     and_then (case wo_path r of
         WAbsent \<Rightarrow> Inr None
       | WPath t \<Rightarrow> and_then (read_text t) (\<lambda>p. Inr (Some p))
       | WOutputTag n \<Rightarrow> not_in_schema) (\<lambda>val.
     and_then (read_text (wo_name r)) (\<lambda>name. Inr (name, val)))"

definition set_input_drv :: "(json \<Rightarrow> string result) \<Rightarrow> string \<times> string list \<Rightarrow> wire_input_drv result" where
  "set_input_drv to_str kv =
     and_then (to_str (json_strings (snd kv))) (\<lambda>t. Inr \<lparr>wi_drv_path = fst kv, wi_value_json = t\<rparr>)"

definition read_input_drv :: "(string \<Rightarrow> json result) \<Rightarrow> wire_input_drv \<Rightarrow> (string \<times> string list) result" where
  "read_input_drv from_str r =
     and_then (read_text (wi_drv_path r)) (\<lambda>drv_path.
     and_then (read_text (wi_value_json r)) (\<lambda>t.
     and_then (with_context ''parsing inputDrv outputs'' (and_then (from_str t) strings_of_json)) (\<lambda>outs.
       Inr (drv_path, outs))))"

definition set_constituents :: "string list option \<Rightarrow> wire_text_list_opt result" where
  "set_constituents v =
     (case v of
        Some xs \<Rightarrow> and_then (set_text_list ''constituents'' xs) (\<lambda>ts. Inr (TextsSome ts))
      | None \<Rightarrow> Inr TextsNone)"

definition set_derivation :: "(json \<Rightarrow> string result) \<Rightarrow> derivation \<Rightarrow> wire_derivation result" where
  "set_derivation to_str d =
     and_then (set_text_list ''derivation attr path'' (d_attr_path d)) (\<lambda>attr_path.
     and_then (set_list ''derivation outputs'' set_output (d_outputs d)) (\<lambda>outputs.
     and_then (transpose_option (map_option to_str (d_meta d))) (\<lambda>meta_json.
     and_then (set_list ''input drvs'' (set_input_drv to_str) (d_input_drvs d)) (\<lambda>input_drvs.
     and_then (set_constituents (d_constituents d)) (\<lambda>constituents.
       Inr \<lparr>wd_attr = d_attr d, wd_attr_path = attr_path, wd_name = d_name d,
         wd_system = d_system d, wd_drv_path = d_drv_path d, wd_outputs = outputs,
         wd_meta_json = set_text_opt meta_json, wd_input_drvs = input_drvs,
         wd_constituents = constituents, wd_gc_root_error = set_text_opt (d_gc_root_error d)\<rparr>)))))"

definition read_meta :: "(string \<Rightarrow> json result) \<Rightarrow> wire_text_opt \<Rightarrow> json option result" where
  "read_meta from_str r =
     and_then (read_text_opt r) (\<lambda>t.
       with_context ''parsing meta JSON value'' (transpose_option (map_option from_str t)))"

definition read_derivation :: "(string \<Rightarrow> json result) \<Rightarrow> wire_derivation \<Rightarrow> derivation result" where
  "read_derivation from_str r =
     and_then (collect_results read_output (wd_outputs r)) (\<lambda>outputs.
     and_then (collect_results (read_input_drv from_str) (wd_input_drvs r)) (\<lambda>input_drvs.
     and_then (read_text (wd_attr r)) (\<lambda>attr.
     and_then (read_text_list (wd_attr_path r)) (\<lambda>attr_path.
     and_then (read_text (wd_name r)) (\<lambda>name.
     and_then (read_text (wd_system r)) (\<lambda>system.
     and_then (read_text (wd_drv_path r)) (\<lambda>drv_path.
     and_then (read_meta from_str (wd_meta_json r)) (\<lambda>meta.
     and_then (read_text_list_opt (wd_constituents r)) (\<lambda>constituents.
     and_then (read_text_opt (wd_gc_root_error r)) (\<lambda>gc_root_error.
       Inr \<lparr>d_attr = attr, d_attr_path = attr_path, d_name = name, d_system = system,
         d_drv_path = drv_path, d_outputs = bt_of_list outputs, d_meta = meta,
         d_input_drvs = bt_of_list input_drvs, d_constituents = constituents,
         d_gc_root_error = gc_root_error\<rparr>))))))))))"

fun set_event :: "(json \<Rightarrow> string result) \<Rightarrow> event \<Rightarrow> wire_event result" where
  "set_event to_str (Derivation d) = and_then (set_derivation to_str d) (\<lambda>w. Inr (WDerivation w))"
| "set_event to_str (AttrSet attr attr_path attrs) =
     and_then (set_text_list ''attr path'' attr_path) (\<lambda>p.
     and_then (set_text_list ''attr set children'' attrs) (\<lambda>xs. Inr (WAttrSet attr p xs)))"
| "set_event to_str (EventError e) = and_then (set_eval_error e) (\<lambda>w. Inr (WError w))"

fun read_event :: "(string \<Rightarrow> json result) \<Rightarrow> wire_event \<Rightarrow> event result" where
  "read_event from_str (WDerivation r) = and_then (read_derivation from_str r) (\<lambda>d. Inr (Derivation d))"
| "read_event from_str (WAttrSet attr attr_path attrs) =
     and_then (read_text attr) (\<lambda>a.
     and_then (read_text_list attr_path) (\<lambda>p.
     and_then (read_text_list attrs) (\<lambda>xs. Inr (AttrSet a p xs))))"
| "read_event from_str (WError r) = and_then (read_eval_error r) (\<lambda>e. Inr (EventError e))"
| "read_event from_str (WEventTag n) = not_in_schema"

section \<open>Client and server messages\<close>

fun encode_client :: "client_message \<Rightarrow> wire_client result" where
  "encode_client (Setup config token expected_store_dir) =
     and_then (set_worker_config config) (\<lambda>c.
       Inr (WSetup \<lparr>su_config = c, su_token = set_text_opt token,
         su_expected_store_dir = set_text_opt expected_store_dir,
         su_protocol_version = WORKER_PROTOCOL_VERSION\<rparr>))"
| "encode_client (Work p) = and_then (set_text_list ''work attr path'' p) (\<lambda>ts. Inr (WWork ts))"
| "encode_client Shutdown = Inr WShutdown"

definition validate_worker_protocol :: "u32 \<Rightarrow> unit result" where
  "validate_worker_protocol actual =
     (if actual = WORKER_PROTOCOL_VERSION then Inr ()
      else bail (''unsupported worker protocol version '' @ show_nat (unat actual) @ ''; expected '' @
        show_nat (unat WORKER_PROTOCOL_VERSION)))"

fun decode_client :: "wire_client \<Rightarrow> client_message result" where
  "decode_client (WSetup setup) =
     and_then (validate_worker_protocol (su_protocol_version setup)) (\<lambda>_.
     and_then (read_worker_config (su_config setup)) (\<lambda>config.
     and_then (read_text_opt (su_token setup)) (\<lambda>token.
     and_then (read_text_opt (su_expected_store_dir setup)) (\<lambda>store_dir.
       Inr (Setup config token store_dir)))))"
| "decode_client (WWork ts) = and_then (read_text_list ts) (\<lambda>p. Inr (Work p))"
| "decode_client WShutdown = Inr Shutdown"
| "decode_client (WClientTag n) = not_in_schema"

fun encode_server :: "(json \<Rightarrow> string result) \<Rightarrow> server_message \<Rightarrow> wire_server result" where
  "encode_server to_str ServerReady = Inr WReady"
| "encode_server to_str (ServerEvent e) = and_then (set_event to_str e) (\<lambda>w. Inr (WEvent w))"
| "encode_server to_str (ServerStatus s) =
     Inr (WStatus (case s of StatusReady \<Rightarrow> WStatusReady | StatusRestart \<Rightarrow> WStatusRestart))"
| "encode_server to_str (ServerError e) = Inr (WServerError e)"

fun decode_server :: "(string \<Rightarrow> json result) \<Rightarrow> wire_server \<Rightarrow> server_message result" where
  "decode_server from_str WReady = Inr ServerReady"
| "decode_server from_str (WEvent w) = and_then (read_event from_str w) (\<lambda>e. Inr (ServerEvent e))"
| "decode_server from_str (WStatus s) =
     (case s of
        WStatusReady \<Rightarrow> Inr (ServerStatus StatusReady)
      | WStatusRestart \<Rightarrow> Inr (ServerStatus StatusRestart)
      | WStatusTag n \<Rightarrow> not_in_schema)"
| "decode_server from_str (WServerError t) = and_then (read_text t) (\<lambda>e. Inr (ServerError e))"
| "decode_server from_str (WServerTag n) = not_in_schema"

text \<open>Reading and writing on a byte stream, with the library's framing as a parameter.\<close>

definition write_client :: "(wire_client \<Rightarrow> string) \<Rightarrow> client_message \<Rightarrow> string result" where
  "write_client write_message m = and_then (encode_client m) (\<lambda>w. Inr (write_message w))"

definition read_client :: "(reader_options \<Rightarrow> string \<Rightarrow> wire_client result) \<Rightarrow> string \<Rightarrow> client_message result" where
  "read_client read_message bytes = and_then (read_message remote_reader_options bytes) decode_client"

definition read_local_client_blocking ::
  "(reader_options \<Rightarrow> string \<Rightarrow> wire_client result) \<Rightarrow> string \<Rightarrow> client_message result"
where
  "read_local_client_blocking read_message bytes =
     and_then (read_message local_reader_options bytes) decode_client"

definition write_server ::
  "(json \<Rightarrow> string result) \<Rightarrow> (wire_server \<Rightarrow> string) \<Rightarrow> server_message \<Rightarrow> string result"
where
  "write_server to_str write_message m =
     and_then (encode_server to_str m) (\<lambda>w. Inr (write_message w))"

definition read_server_with_options ::
  "(string \<Rightarrow> json result) \<Rightarrow> (reader_options \<Rightarrow> string \<Rightarrow> wire_server result) \<Rightarrow> reader_options \<Rightarrow>
    string \<Rightarrow> server_message result"
where
  "read_server_with_options from_str read_message options bytes =
     and_then (read_message options bytes) (decode_server from_str)"

definition read_server ::
  "(string \<Rightarrow> json result) \<Rightarrow> (reader_options \<Rightarrow> string \<Rightarrow> wire_server result) \<Rightarrow> string \<Rightarrow> server_message result"
where
  "read_server from_str read_message = read_server_with_options from_str read_message remote_reader_options"

definition read_local_server ::
  "(string \<Rightarrow> json result) \<Rightarrow> (reader_options \<Rightarrow> string \<Rightarrow> wire_server result) \<Rightarrow> string \<Rightarrow> server_message result"
where
  "read_local_server from_str read_message = read_server_with_options from_str read_message local_reader_options"

definition expect_ready :: "server_message \<Rightarrow> string \<Rightarrow> unit result" where
  "expect_ready m label =
     (case m of
        ServerReady \<Rightarrow> Inr ()
      | ServerError e \<Rightarrow> bail (''remote worker '' @ label @ '' failed: '' @ e)
      | _ \<Rightarrow> bail_fmt ''remote worker {label} sent unexpected handshake: {other:?}'' [label])"

section \<open>Reading back what was written\<close>

lemma collect_results_enumerate:
  "n + length xs \<le> 2 ^ 32 \<Longrightarrow>
    collect_results (\<lambda>(i, x). and_then (list_index i) (\<lambda>_. f x)) (enumerate n xs) = collect_results f xs"
  by (induction xs arbitrary: n) (simp_all add: list_index_def)

lemma set_list_collect: "length xs < 2 ^ 32 \<Longrightarrow> set_list field f xs = collect_results f xs"
  by (simp add: set_list_def list_len_def collect_results_enumerate)

lemma set_list_too_long: "2 ^ 32 \<le> length xs \<Longrightarrow> isl (set_list field f xs)"
  by (simp add: set_list_def list_len_def external_def)

context codec
begin

text \<open>A list field of fewer than \<open>2 ^ 32\<close> good elements reads back.\<close>

lemma set_list_dec:
  assumes "list_all ok xs" and "length xs < 2 ^ 32"
  shows "\<exists>ws. set_list field enc xs = Inr ws \<and> collect_results dec ws = Inr xs"
  using dec_enc_list [OF assms(1)] assms(2) by (auto simp: set_list_collect)

end

lemma read_text_valid [simp, codec_simps]: "valid_utf8 t \<Longrightarrow> read_text t = Inr t"
  by (simp add: read_text_def)

interpretation utf8: codec Inr read_text valid_utf8
  by unfold_locales simp

interpretation text_opt: codec "\<lambda>v. Inr (set_text_opt v)" read_text_opt "pred_option valid_utf8"
  by unfold_locales (auto simp: set_text_opt_def split: option.splits)

lemma read_set_text_opt [simp, codec_simps]:
  "pred_option valid_utf8 v \<Longrightarrow> read_text_opt (set_text_opt v) = Inr v"
  using text_opt.dec_enc [of v] by simp

definition texts_ok :: "string list \<Rightarrow> bool" where
  "texts_ok xs \<longleftrightarrow> list_all valid_utf8 xs \<and> length xs < 2 ^ 32"

interpretation texts: codec "set_text_list field" read_text_list texts_ok for field
  by unfold_locales (simp add: set_text_list_def read_text_list_def texts_ok_def utf8.set_list_dec)

definition pair_ok :: "string \<times> string \<Rightarrow> bool" where
  "pair_ok kv \<longleftrightarrow> valid_utf8 (fst kv) \<and> valid_utf8 (snd kv)"

interpretation pair: codec set_pair read_pair pair_ok
  by unfold_locales (simp add: set_pair_def read_pair_def pair_ok_def)

definition pairs_ok :: "(string \<times> string) list \<Rightarrow> bool" where
  "pairs_ok kvs \<longleftrightarrow> list_all pair_ok kvs \<and> length kvs < 2 ^ 32"

interpretation pairs: codec "set_pairs field" read_pairs pairs_ok for field
  by unfold_locales (simp add: set_pairs_def read_pairs_def pairs_ok_def pair.set_list_dec)

fun input_ok :: "input \<Rightarrow> bool" where
  "input_ok (InputFlake v) = valid_utf8 v"
| "input_ok (InputExpr v) = valid_utf8 v"
| "input_ok (InputFile v) = valid_utf8 v"

interpretation input: codec set_input read_input input_ok
proof unfold_locales
  fix x assume "input_ok x"
  then show "\<exists>w. set_input x = Inr w \<and> read_input w = Inr x" by (cases x) simp_all
qed

fun auto_arg_ok :: "string \<times> auto_arg \<Rightarrow> bool" where
  "auto_arg_ok (n, ArgExpr v) = (valid_utf8 n \<and> valid_utf8 v)"
| "auto_arg_ok (n, ArgStr v) = (valid_utf8 n \<and> valid_utf8 v)"

interpretation auto_arg: codec set_auto_arg read_auto_arg auto_arg_ok
proof unfold_locales
  fix x assume "auto_arg_ok x"
  then show "\<exists>w. set_auto_arg x = Inr w \<and> read_auto_arg w = Inr x"
    by (cases x rule: auto_arg_ok.cases) (simp_all add: set_auto_arg_def read_auto_arg_def)
qed

definition worker_config_ok :: "worker_config \<Rightarrow> bool" where
  "worker_config_ok c \<longleftrightarrow>
     input_ok (w_input c) \<and> list_all auto_arg_ok (w_auto_args c) \<and> length (w_auto_args c) < 2 ^ 32 \<and>
     pred_option valid_utf8 (w_gc_roots_dir c) \<and> w_item_timeout_seconds c \<noteq> 0 \<and>
     pairs_ok (w_override_inputs c) \<and> pairs_ok (w_nix_options c) \<and>
     pred_option valid_utf8 (w_locked_flake_json c)"

lemma gc_roots_text_ok [simp]: "pred_option valid_utf8 d \<Longrightarrow> gc_roots_text d = Inr d"
  by (cases d) (simp_all add: gc_roots_text_def)

interpretation worker_config: codec set_worker_config read_worker_config worker_config_ok
proof unfold_locales
  fix c assume c: "worker_config_ok c"
  then obtain i a ov n where
    "set_input (w_input c) = Inr i" "read_input i = Inr (w_input c)"
    "set_list ''auto args'' set_auto_arg (w_auto_args c) = Inr a"
    "collect_results read_auto_arg a = Inr (w_auto_args c)"
    "set_pairs ''override inputs'' (w_override_inputs c) = Inr ov" "read_pairs ov = Inr (w_override_inputs c)"
    "set_pairs ''nix options'' (w_nix_options c) = Inr n" "read_pairs n = Inr (w_nix_options c)"
    unfolding worker_config_ok_def
    by (metis input.dec_enc auto_arg.set_list_dec pairs.dec_enc)
  with c show "\<exists>w. set_worker_config c = Inr w \<and> read_worker_config w = Inr c"
    by (simp add: set_worker_config_def read_worker_config_def read_auto_args_def worker_config_ok_def
        read_item_timeout_seconds_def)
qed

fun client_ok :: "client_message \<Rightarrow> bool" where
  "client_ok (Setup c token dir) \<longleftrightarrow>
     worker_config_ok c \<and> pred_option valid_utf8 token \<and> pred_option valid_utf8 dir"
| "client_ok (Work p) \<longleftrightarrow> texts_ok p"
| "client_ok Shutdown \<longleftrightarrow> True"

interpretation client: codec encode_client decode_client client_ok
proof unfold_locales
  fix m assume m: "client_ok m"
  show "\<exists>w. encode_client m = Inr w \<and> decode_client w = Inr m"
  proof (cases m)
    case (Setup c token dir)
    with m worker_config.dec_enc [of c] show ?thesis
      by (auto simp: validate_worker_protocol_def)
  next
    case (Work p)
    with m texts.dec_enc [of p "''work attr path''"] show ?thesis by auto
  qed simp
qed

subsection \<open>Events and server messages\<close>

text \<open>The JSON text codec reads back what it printed, and prints UTF-8.\<close>

definition json_text_ok :: "(json \<Rightarrow> string result) \<Rightarrow> (string \<Rightarrow> json result) \<Rightarrow> json \<Rightarrow> bool" where
  "json_text_ok to_str from_str v =
     (case to_str v of Inl _ \<Rightarrow> False | Inr t \<Rightarrow> valid_utf8 t \<and> from_str t = Inr v)"

lemma json_text_okE:
  assumes "json_text_ok to_str from_str v"
  obtains t where "to_str v = Inr t" "valid_utf8 t" "from_str t = Inr v"
  using assms by (auto simp: json_text_ok_def split: sum.splits)

definition eval_error_ok :: "eval_error \<Rightarrow> bool" where
  "eval_error_ok e \<longleftrightarrow> valid_utf8 (e_attr e) \<and> texts_ok (e_attr_path e) \<and> valid_utf8 (e_error e)"

interpretation eval_error: codec set_eval_error read_eval_error eval_error_ok
proof unfold_locales
  fix e assume "eval_error_ok e"
  then show "\<exists>w. set_eval_error e = Inr w \<and> read_eval_error w = Inr e"
    using texts.dec_enc [of "e_attr_path e" "''error attr path''"]
    by (auto simp: set_eval_error_def read_eval_error_def eval_error_ok_def)
qed

definition output_ok :: "string \<times> string option \<Rightarrow> bool" where
  "output_ok np \<longleftrightarrow> valid_utf8 (fst np) \<and> pred_option valid_utf8 (snd np)"

interpretation outp: codec set_output read_output output_ok
proof unfold_locales
  fix np assume "output_ok np"
  then show "\<exists>w. set_output np = Inr w \<and> read_output w = Inr np"
    by (cases np; cases "snd np") (auto simp: set_output_def read_output_def output_ok_def)
qed

definition input_drv_ok ::
  "(json \<Rightarrow> string result) \<Rightarrow> (string \<Rightarrow> json result) \<Rightarrow> string \<times> string list \<Rightarrow> bool"
where
  "input_drv_ok to_str from_str kv \<longleftrightarrow>
     valid_utf8 (fst kv) \<and> json_text_ok to_str from_str (json_strings (snd kv))"

interpretation input_drv: codec "set_input_drv to_str" "read_input_drv from_str" "input_drv_ok to_str from_str"
  for to_str from_str
  by unfold_locales
    (auto simp: set_input_drv_def read_input_drv_def input_drv_ok_def elim!: json_text_okE)

interpretation constituents: codec set_constituents read_text_list_opt "pred_option texts_ok"
proof unfold_locales
  fix x assume "pred_option texts_ok x"
  then show "\<exists>w. set_constituents x = Inr w \<and> read_text_list_opt w = Inr x"
  proof (cases x)
    case (Some xs)
    assume "pred_option texts_ok x"
    with Some texts.dec_enc [of xs "''constituents''"] show ?thesis
      by (auto simp: set_constituents_def)
  qed (simp add: set_constituents_def)
qed

definition derivation_wire_ok ::
  "(json \<Rightarrow> string result) \<Rightarrow> (string \<Rightarrow> json result) \<Rightarrow> derivation \<Rightarrow> bool"
where
  "derivation_wire_ok to_str from_str d \<longleftrightarrow>
     derivation_ok d \<and> valid_utf8 (d_attr d) \<and> texts_ok (d_attr_path d) \<and> valid_utf8 (d_name d) \<and>
     valid_utf8 (d_system d) \<and> valid_utf8 (d_drv_path d) \<and>
     list_all output_ok (d_outputs d) \<and> length (d_outputs d) < 2 ^ 32 \<and>
     pred_option (json_text_ok to_str from_str) (d_meta d) \<and>
     list_all (input_drv_ok to_str from_str) (d_input_drvs d) \<and> length (d_input_drvs d) < 2 ^ 32 \<and>
     pred_option texts_ok (d_constituents d) \<and> pred_option valid_utf8 (d_gc_root_error d)"

lemma read_set_meta:
  assumes "pred_option (json_text_ok to_str from_str) m"
  shows "\<exists>t. transpose_option (map_option to_str m) = Inr t \<and> read_meta from_str (set_text_opt t) = Inr m"
proof (cases m)
  case (Some v)
  with assms obtain t where "to_str v = Inr t" "valid_utf8 t" "from_str t = Inr v"
    by (auto elim: json_text_okE)
  with Some show ?thesis by (simp add: read_meta_def set_text_opt_def)
qed (simp add: read_meta_def set_text_opt_def)

interpretation drv: codec "set_derivation to_str" "read_derivation from_str" "derivation_wire_ok to_str from_str"
  for to_str from_str
proof unfold_locales
  fix d assume d: "derivation_wire_ok to_str from_str d"
  obtain p where p: "set_text_list ''derivation attr path'' (d_attr_path d) = Inr p"
    "read_text_list p = Inr (d_attr_path d)"
    using d texts.dec_enc [of "d_attr_path d"] by (auto simp: derivation_wire_ok_def)
  obtain os where os: "set_list ''derivation outputs'' set_output (d_outputs d) = Inr os"
    "collect_results read_output os = Inr (d_outputs d)"
    using d outp.set_list_dec by (metis derivation_wire_ok_def)
  obtain t where t: "transpose_option (map_option to_str (d_meta d)) = Inr t"
    "read_meta from_str (set_text_opt t) = Inr (d_meta d)"
    using d read_set_meta by (metis derivation_wire_ok_def)
  obtain ds where ds: "set_list ''input drvs'' (set_input_drv to_str) (d_input_drvs d) = Inr ds"
    "collect_results (read_input_drv from_str) ds = Inr (d_input_drvs d)"
    using d input_drv.set_list_dec by (metis derivation_wire_ok_def)
  obtain c where c: "set_constituents (d_constituents d) = Inr c" "read_text_list_opt c = Inr (d_constituents d)"
    using d constituents.dec_enc by (metis derivation_wire_ok_def)
  from d p os t ds c show "\<exists>w. set_derivation to_str d = Inr w \<and> read_derivation from_str w = Inr d"
    by (simp add: set_derivation_def read_derivation_def derivation_wire_ok_def derivation_ok_def)
qed

fun event_wire_ok :: "(json \<Rightarrow> string result) \<Rightarrow> (string \<Rightarrow> json result) \<Rightarrow> event \<Rightarrow> bool" where
  "event_wire_ok to_str from_str (Derivation d) \<longleftrightarrow> derivation_wire_ok to_str from_str d"
| "event_wire_ok to_str from_str (AttrSet a p xs) \<longleftrightarrow> valid_utf8 a \<and> texts_ok p \<and> texts_ok xs"
| "event_wire_ok to_str from_str (EventError e) \<longleftrightarrow> eval_error_ok e"

interpretation ev: codec "set_event to_str" "read_event from_str" "event_wire_ok to_str from_str"
  for to_str from_str
proof unfold_locales
  fix e assume e: "event_wire_ok to_str from_str e"
  show "\<exists>w. set_event to_str e = Inr w \<and> read_event from_str w = Inr e"
  proof (cases e)
    case (Derivation d)
    with e drv.dec_enc [of to_str from_str d] show ?thesis by auto
  next
    case (AttrSet a p xs)
    with e texts.dec_enc [of p "''attr path''"] texts.dec_enc [of xs "''attr set children''"]
    show ?thesis by auto
  next
    case (EventError err)
    with e eval_error.dec_enc [of err] show ?thesis by auto
  qed
qed

fun server_ok :: "(json \<Rightarrow> string result) \<Rightarrow> (string \<Rightarrow> json result) \<Rightarrow> server_message \<Rightarrow> bool" where
  "server_ok to_str from_str (ServerEvent e) \<longleftrightarrow> event_wire_ok to_str from_str e"
| "server_ok to_str from_str (ServerError e) \<longleftrightarrow> valid_utf8 e"
| "server_ok to_str from_str _ \<longleftrightarrow> True"

interpretation server: codec "encode_server to_str" "decode_server from_str" "server_ok to_str from_str"
  for to_str from_str
proof unfold_locales
  fix m assume m: "server_ok to_str from_str m"
  show "\<exists>w. encode_server to_str m = Inr w \<and> decode_server from_str w = Inr m"
  proof (cases m)
    case (ServerEvent e)
    with m ev.dec_enc [of to_str from_str e] show ?thesis by auto
  next
    case (ServerStatus s)
    then show ?thesis by (cases s) simp_all
  qed (use m in simp_all)
qed

section \<open>What the protocol promises\<close>

text \<open>
  C28. Client messages survive the wire: a setup, work or shutdown message of UTF-8 strings
  and lists below the Cap'n Proto limit, with a non-zero timeout, arrives as it was sent,
  for any framing that reads back the message it wrote; so the worker runs the configuration
  the coordinator sent.
\<close>

theorem client_message_roundtrip:
  assumes "client_ok m"
    and "\<And>w. encode_client m = Inr w \<Longrightarrow> read_message remote_reader_options (write_message w) = Inr w"
  shows "and_then (write_client write_message m) (read_client read_message) = Inr m"
  using client.dec_enc [OF assms(1)] assms(2)
  by (auto simp: write_client_def read_client_def)

theorem client_message_roundtrip_witness:
  "and_then (write_client (\<lambda>_. ''bytes'') (Work [''a'', ''b'']))
     (read_client (\<lambda>_ _. Inr (WWork [''a'', ''b'']))) = Inr (Work [''a'', ''b''])"
proof (rule client_message_roundtrip)
  show "client_ok (Work [''a'', ''b''])" by (simp add: texts_ok_def)
  fix w assume "encode_client (Work [''a'', ''b'']) = Inr w"
  then show "Inr (WWork [''a'', ''b'']) = (Inr w :: wire_client result)"
    by (simp add: set_text_list_def set_list_collect)
qed

text \<open>
  C29. Server messages survive the wire: the worker's readiness, events (derivations with all
  their maps and optional fields, attribute sets, errors), restart status and errors arrive
  as they were sent, under four conditions: their strings are UTF-8; their lists stay below
  the Cap'n Proto limit; the text of a derivation's metadata parses back; and the framing, under
  the reader options in use, gives back the message that was written (options with too small a
  limit refuse it, and then the read fails).
\<close>

theorem server_message_roundtrip:
  assumes "server_ok to_str from_str m"
    and "\<And>w. encode_server to_str m = Inr w \<Longrightarrow> read_message opts (write_message w) = Inr w"
  shows "and_then (write_server to_str write_message m)
    (read_server_with_options from_str read_message opts) = Inr m"
  using server.dec_enc [OF assms(1)] assms(2)
  by (auto simp: write_server_def read_server_with_options_def)

theorem server_message_roundtrip_witness:
  "and_then (write_server (\<lambda>_. Inr ''null'') (\<lambda>_. ''bytes'')
       (ServerEvent (AttrSet ''a'' [''a''] [''x'', ''y''])))
     (read_server_with_options (\<lambda>_. Inr JNull) (\<lambda>_ _. Inr (WEvent (WAttrSet ''a'' [''a''] [''x'', ''y''])))
        local_reader_options) =
   Inr (ServerEvent (AttrSet ''a'' [''a''] [''x'', ''y'']))"
proof (rule server_message_roundtrip)
  show "server_ok (\<lambda>_. Inr ''null'') (\<lambda>_. Inr JNull) (ServerEvent (AttrSet ''a'' [''a''] [''x'', ''y'']))"
    by (simp add: texts_ok_def)
  fix w assume "encode_server (\<lambda>_. Inr ''null'') (ServerEvent (AttrSet ''a'' [''a''] [''x'', ''y''])) = Inr w"
  then show "Inr (WEvent (WAttrSet ''a'' [''a''] [''x'', ''y''])) = (Inr w :: wire_server result)"
    by (simp add: set_text_list_def set_list_collect)
qed

text \<open>
  The handshake rejects foreign versions: a setup message is accepted only when it carries
  this protocol version, and its configuration is read with a timeout that is never zero;
  an older peer's missing timeout becomes the default.
\<close>

theorem setup_accepted_version_and_timeout:
  assumes "decode_client (WSetup setup) = Inr m"
  shows "su_protocol_version setup = WORKER_PROTOCOL_VERSION \<and>
    (\<exists>c token dir. m = Setup c token dir \<and> w_item_timeout_seconds c \<noteq> 0 \<and>
      w_item_timeout_seconds c =
        (if wc_item_timeout_seconds (su_config setup) = 0 then DEFAULT_ITEM_TIMEOUT_SECONDS
         else wc_item_timeout_seconds (su_config setup)))"
proof -
  have "validate_worker_protocol v = Inr () \<longleftrightarrow> v = WORKER_PROTOCOL_VERSION" for v
    by (simp add: validate_worker_protocol_def)
  then show ?thesis
    using assms
    by (auto simp: and_then_Ok_iff read_worker_config_def read_item_timeout_seconds_def
        DEFAULT_ITEM_TIMEOUT_SECONDS_def)
qed

theorem setup_accepted_version_and_timeout_witness:
  "\<exists>m. (let setup = \<lparr>su_config = \<lparr>wc_input = WExpr ''1'', wc_auto_args = [], wc_force_recurse = False,
       wc_gc_roots_dir = TextNone, wc_max_memory_size = 0, wc_meta = False, wc_show_input_drvs = False,
       wc_override_inputs = [], wc_nix_options = [], wc_item_timeout_seconds = 0,
       wc_locked_flake_json = TextNone\<rparr>, su_token = TextNone, su_expected_store_dir = TextNone,
       su_protocol_version = 1\<rparr>
    in decode_client (WSetup setup) = Inr m \<and> su_protocol_version setup = WORKER_PROTOCOL_VERSION \<and>
       (\<exists>c token dir. m = Setup c token dir \<and> w_item_timeout_seconds c = 1800))"
proof -
  let ?su = "\<lparr>su_config = \<lparr>wc_input = WExpr ''1'', wc_auto_args = [], wc_force_recurse = False,
       wc_gc_roots_dir = TextNone, wc_max_memory_size = 0, wc_meta = False, wc_show_input_drvs = False,
       wc_override_inputs = [], wc_nix_options = [], wc_item_timeout_seconds = 0,
       wc_locked_flake_json = TextNone\<rparr>, su_token = TextNone, su_expected_store_dir = TextNone,
       su_protocol_version = 1\<rparr>"
  have "\<not> isl (decode_client (WSetup ?su))" by code_simp
  then obtain m where m: "decode_client (WSetup ?su) = Inr m" by (metis isl_def sum.exhaust)
  from setup_accepted_version_and_timeout [OF m] m show ?thesis
    by (auto simp: DEFAULT_ITEM_TIMEOUT_SECONDS_def Let_def)
qed

text \<open>
  Nothing is truncated: a list longer than a Cap'n Proto list can be is refused when it is
  written, never shortened, and a message that reads back has exactly the elements written.
\<close>

theorem long_lists_are_refused:
  "(2 ^ 32 \<le> length p \<longrightarrow> isl (encode_client (Work p))) \<and>
   (encode_client (Work p) = Inr (WWork ts) \<longrightarrow> ts = p)"
proof -
  have "collect_results Inr xs = Inr ys \<longleftrightarrow> ys = xs" for xs ys :: "string list"
    by (induction xs arbitrary: ys) (auto simp: and_then_Ok_iff)
  then show ?thesis
    using set_list_too_long [of p "''work attr path''" "Inr :: string \<Rightarrow> string result"]
    by (cases "length p < 2 ^ 32") (auto simp: set_text_list_def set_list_collect isl_def)
qed

theorem long_lists_are_refused_witness:
  "encode_client (Work [''a'']) = Inr (WWork [''a''])"
proof -
  obtain ts where "encode_client (Work [''a'']) = Inr (WWork ts)"
    by (simp add: set_text_list_def set_list_collect)
  with long_lists_are_refused [of "[''a'']" ts] show ?thesis by simp
qed

end
