(* ===== verification/Serde_Config.thy ===== *)
theory Serde_Config
  imports Worker_Wire
begin

text \<open>
  The JSON documents of configurations, filters and daemon requests: the hand-written
  conversions of \<open>crates/evix-protocol/src/serde_config.rs\<close> and the derived ones of
  \<open>Config\<close>, \<open>Remote\<close>, \<open>Filter\<close> and \<open>Request\<close> in \<open>lib.rs\<close>, field by field as their serde
  attributes say. An object is the list of its fields in the order they are written; how a
  document is printed and parsed is \<open>serde_json\<close>. The decoders read structures from objects;
  that serde also takes one from an array of its fields is left out.
\<close>

section \<open>Fields\<close>

definition enc_uint :: "u64 \<Rightarrow> json" where
  "enc_uint n = JNumber (PosInt n)"

definition enc_option :: "('a \<Rightarrow> json) \<Rightarrow> 'a option \<Rightarrow> json" where
  "enc_option f x = (case x of None \<Rightarrow> JNull | Some y \<Rightarrow> f y)"

definition enc_pair :: "string \<times> string \<Rightarrow> json" where
  "enc_pair p = JArray [JString (fst p), JString (snd p)]"

text \<open>A path is written as a string, which fails unless it is UTF-8.\<close>

definition enc_path :: "path \<Rightarrow> json result" where
  "enc_path p = (if valid_utf8 p then Inr (JString p) else external ''serde'')"

definition dec_string :: "json \<Rightarrow> string result" where
  "dec_string v = (case v of JString s \<Rightarrow> Inr s | _ \<Rightarrow> external ''serde'')"

definition dec_bool :: "json \<Rightarrow> bool result" where
  "dec_bool v = (case v of JBool b \<Rightarrow> Inr b | _ \<Rightarrow> external ''serde'')"

definition dec_uint :: "json \<Rightarrow> u64 result" where
  "dec_uint v = (case v of JNumber (PosInt n) \<Rightarrow> Inr n | _ \<Rightarrow> external ''serde'')"

definition dec_u32 :: "json \<Rightarrow> u32 result" where
  "dec_u32 v = and_then (dec_uint v) (\<lambda>n. if unat n < 2 ^ 32 then Inr (ucast n) else external ''serde'')"

definition dec_list :: "(json \<Rightarrow> 'a result) \<Rightarrow> json \<Rightarrow> 'a list result" where
  "dec_list f v = (case v of JArray vs \<Rightarrow> collect_results f vs | _ \<Rightarrow> external ''serde'')"

definition dec_pair :: "json \<Rightarrow> (string \<times> string) result" where
  "dec_pair v =
     (case v of
        JArray [a, b] \<Rightarrow> and_then (dec_string a) (\<lambda>x. and_then (dec_string b) (\<lambda>y. Inr (x, y)))
      | _ \<Rightarrow> external ''serde'')"

definition dec_option :: "(json \<Rightarrow> 'a result) \<Rightarrow> json \<Rightarrow> 'a option result" where
  "dec_option f v = (if v = JNull then Inr None else and_then (f v) (\<lambda>x. Inr (Some x)))"

text \<open>The fields of an object, none of the known ones twice.\<close>

definition object_fields :: "string list \<Rightarrow> json \<Rightarrow> (string \<times> json) list result" where
  "object_fields known v =
     (case v of
        JObject m \<Rightarrow> if distinct (filter (\<lambda>k. k \<in> set known) (map fst m)) then Inr m else external ''serde''
      | _ \<Rightarrow> external ''serde'')"

text \<open>A field without a default, with one, and of an option type.\<close>

definition required :: "(json \<Rightarrow> 'a result) \<Rightarrow> string \<Rightarrow> (string \<times> json) list \<Rightarrow> 'a result" where
  "required f k m = (case map_of m k of None \<Rightarrow> external ''serde'' | Some v \<Rightarrow> f v)"

definition defaulted :: "'a \<Rightarrow> (json \<Rightarrow> 'a result) \<Rightarrow> string \<Rightarrow> (string \<times> json) list \<Rightarrow> 'a result" where
  "defaulted d f k m = (case map_of m k of None \<Rightarrow> Inr d | Some v \<Rightarrow> f v)"

definition optional :: "(json \<Rightarrow> 'a result) \<Rightarrow> string \<Rightarrow> (string \<times> json) list \<Rightarrow> 'a option result" where
  "optional f = defaulted None (dec_option f)"

text \<open>A field that is skipped when it is \<open>None\<close>.\<close>

definition skipped :: "string \<Rightarrow> ('a \<Rightarrow> json) \<Rightarrow> 'a option \<Rightarrow> (string \<times> json) list" where
  "skipped k f x = (case x of None \<Rightarrow> [] | Some y \<Rightarrow> [(k, f y)])"

section \<open>Inputs and arguments\<close>

datatype input_wire = FlakeWire string | ExprWire string | FileWire path

fun input_wire_json :: "input_wire \<Rightarrow> json result" where
  "input_wire_json (FlakeWire v) = Inr (JObject [(''type'', JString ''flake''), (''value'', JString v)])"
| "input_wire_json (ExprWire v) = Inr (JObject [(''type'', JString ''expr''), (''value'', JString v)])"
| "input_wire_json (FileWire p) =
     and_then (enc_path p) (\<lambda>v. Inr (JObject [(''type'', JString ''file''), (''path'', v)]))"

definition json_input_wire :: "json \<Rightarrow> input_wire result" where
  "json_input_wire v =
     and_then (object_fields [''type''] v) (\<lambda>m.
     and_then (required dec_string ''type'' m) (\<lambda>t.
       if t = ''flake'' then
         and_then (object_fields [''value''] v) (\<lambda>m. map_sum id FlakeWire (required dec_string ''value'' m))
       else if t = ''expr'' then
         and_then (object_fields [''value''] v) (\<lambda>m. map_sum id ExprWire (required dec_string ''value'' m))
       else if t = ''file'' then
         and_then (object_fields [''path''] v) (\<lambda>m. map_sum id FileWire (required dec_string ''path'' m))
       else external ''serde''))"

definition serialize_input :: "input \<Rightarrow> json result" where
  "serialize_input i =
     input_wire_json (case i of
        InputFlake v \<Rightarrow> FlakeWire v
      | InputExpr v \<Rightarrow> ExprWire v
      | InputFile p \<Rightarrow> FileWire p)"

definition deserialize_input :: "json \<Rightarrow> input result" where
  "deserialize_input v =
     and_then (json_input_wire v) (\<lambda>w. Inr (case w of
        FlakeWire s \<Rightarrow> InputFlake s
      | ExprWire s \<Rightarrow> InputExpr s
      | FileWire p \<Rightarrow> InputFile p))"

datatype auto_arg_kind = KindExpr | KindStr

record auto_arg_wire =
  aw_name :: string
  aw_kind :: auto_arg_kind
  aw_value :: string

definition auto_arg_wire_json :: "auto_arg_wire \<Rightarrow> json" where
  "auto_arg_wire_json w =
     JObject [(''name'', JString (aw_name w)),
       (''kind'', JString (case aw_kind w of KindExpr \<Rightarrow> ''expr'' | KindStr \<Rightarrow> ''str'')),
       (''value'', JString (aw_value w))]"

definition json_auto_arg_kind :: "json \<Rightarrow> auto_arg_kind result" where
  "json_auto_arg_kind v =
     and_then (dec_string v) (\<lambda>s.
       if s = ''expr'' then Inr KindExpr else if s = ''str'' then Inr KindStr else external ''serde'')"

definition json_auto_arg_wire :: "json \<Rightarrow> auto_arg_wire result" where
  "json_auto_arg_wire v =
     and_then (object_fields [''name'', ''kind'', ''value''] v) (\<lambda>m.
     and_then (required dec_string ''name'' m) (\<lambda>name.
     and_then (required json_auto_arg_kind ''kind'' m) (\<lambda>kind.
     and_then (required dec_string ''value'' m) (\<lambda>val.
       Inr \<lparr>aw_name = name, aw_kind = kind, aw_value = val\<rparr>))))"

definition serialize_auto_args :: "(string \<times> auto_arg) list \<Rightarrow> json" where
  "serialize_auto_args args =
     JArray (map (\<lambda>(name, arg). auto_arg_wire_json
       (case arg of
          ArgExpr v \<Rightarrow> \<lparr>aw_name = name, aw_kind = KindExpr, aw_value = v\<rparr>
        | ArgStr v \<Rightarrow> \<lparr>aw_name = name, aw_kind = KindStr, aw_value = v\<rparr>)) args)"

definition deserialize_auto_args :: "json \<Rightarrow> (string \<times> auto_arg) list result" where
  "deserialize_auto_args v =
     and_then (dec_list json_auto_arg_wire v) (\<lambda>ws.
       Inr (map (\<lambda>w. (aw_name w,
         case aw_kind w of KindExpr \<Rightarrow> ArgExpr (aw_value w) | KindStr \<Rightarrow> ArgStr (aw_value w))) ws))"


section \<open>Configurations\<close>

definition remote_json :: "remote \<Rightarrow> json" where
  "remote_json r =
     JObject ([(''endpoint'', JString (r_endpoint r)), (''systems'', json_strings (r_systems r)),
       (''workers'', enc_uint (r_workers r))] @ skipped ''token'' JString (r_token r))"

text \<open>\<open>host\<close> is another name of \<open>endpoint\<close>; giving both gives the field twice.\<close>

definition json_remote :: "json \<Rightarrow> remote result" where
  "json_remote v =
     and_then (object_fields [''endpoint'', ''host'', ''systems'', ''workers'', ''token''] v) (\<lambda>m.
     if map_of m ''endpoint'' \<noteq> None \<and> map_of m ''host'' \<noteq> None then external ''serde''
     else
       and_then (required dec_string (if map_of m ''host'' \<noteq> None then ''host'' else ''endpoint'') m) (\<lambda>endpoint.
       and_then (required (dec_list dec_string) ''systems'' m) (\<lambda>systems.
       and_then (required dec_uint ''workers'' m) (\<lambda>workers.
       and_then (optional dec_string ''token'' m) (\<lambda>token.
         Inr \<lparr>r_endpoint = endpoint, r_systems = systems, r_workers = workers, r_token = token\<rparr>)))))"

definition config_json :: "wire_config \<Rightarrow> json result" where
  "config_json c =
     and_then (serialize_input (c_input c)) (\<lambda>input.
     and_then (case c_gc_roots_dir c of None \<Rightarrow> Inr JNull | Some p \<Rightarrow> enc_path p) (\<lambda>gc_roots_dir.
       Inr (JObject [
         (''input'', input),
         (''autoArgs'', serialize_auto_args (c_auto_args c)),
         (''forceRecurse'', JBool (c_force_recurse c)),
         (''gcRootsDir'', gc_roots_dir),
         (''workers'', enc_uint (c_workers c)),
         (''maxMemorySize'', enc_uint (c_max_memory_size c)),
         (''itemTimeoutSeconds'', enc_uint (c_item_timeout_seconds c)),
         (''meta'', JBool (c_meta c)),
         (''showInputDrvs'', JBool (c_show_input_drvs c)),
         (''overrideInputs'', JArray (map enc_pair (c_override_inputs c))),
         (''nixOptions'', JArray (map enc_pair (c_nix_options c))),
         (''remotes'', JArray (map remote_json (c_remotes c)))])))"

definition CONFIG_FIELDS :: "string list" where
  "CONFIG_FIELDS = [''input'', ''autoArgs'', ''forceRecurse'', ''gcRootsDir'', ''workers'', ''maxMemorySize'',
     ''itemTimeoutSeconds'', ''meta'', ''showInputDrvs'', ''overrideInputs'', ''nixOptions'', ''remotes'']"

definition json_config :: "json \<Rightarrow> wire_config result" where
  "json_config v =
     and_then (object_fields CONFIG_FIELDS v) (\<lambda>m.
     and_then (required deserialize_input ''input'' m) (\<lambda>input.
     and_then (required deserialize_auto_args ''autoArgs'' m) (\<lambda>auto_args.
     and_then (defaulted False dec_bool ''forceRecurse'' m) (\<lambda>force_recurse.
     and_then (optional dec_string ''gcRootsDir'' m) (\<lambda>gc_roots_dir.
     and_then (required dec_uint ''workers'' m) (\<lambda>workers.
     and_then (required dec_uint ''maxMemorySize'' m) (\<lambda>max_memory_size.
     and_then (defaulted DEFAULT_ITEM_TIMEOUT_SECONDS dec_uint ''itemTimeoutSeconds'' m) (\<lambda>timeout.
     and_then (defaulted False dec_bool ''meta'' m) (\<lambda>meta.
     and_then (defaulted False dec_bool ''showInputDrvs'' m) (\<lambda>show_input_drvs.
     and_then (defaulted [] (dec_list dec_pair) ''overrideInputs'' m) (\<lambda>override_inputs.
     and_then (defaulted [] (dec_list dec_pair) ''nixOptions'' m) (\<lambda>nix_options.
     and_then (defaulted [] (dec_list json_remote) ''remotes'' m) (\<lambda>remotes.
       Inr \<lparr>c_input = input, c_auto_args = auto_args, c_force_recurse = force_recurse,
         c_gc_roots_dir = gc_roots_dir, c_workers = workers, c_max_memory_size = max_memory_size,
         c_item_timeout_seconds = timeout, c_meta = meta, c_show_input_drvs = show_input_drvs,
         c_override_inputs = override_inputs, c_nix_options = nix_options, c_remotes = remotes\<rparr>)))))))))))))"

section \<open>Filters and requests\<close>

definition enc_paths :: "string list list \<Rightarrow> json" where
  "enc_paths xs = JArray (map json_strings xs)"

definition filter_json :: "query_filter \<Rightarrow> json" where
  "filter_json f =
     JObject ([(''systems'', enc_option json_strings (f_systems f)),
       (''attrPrefix'', enc_option json_strings (f_attr_prefix f))] @
       skipped ''attrPrefixes'' enc_paths (f_attr_prefixes f) @
       skipped ''attrs'' enc_paths (f_attrs f) @
       skipped ''names'' json_strings (f_names f) @
       skipped ''drvPaths'' json_strings (f_drv_paths f) @
       skipped ''includePatterns'' json_strings (f_include_patterns f) @
       skipped ''excludePatterns'' json_strings (f_exclude_patterns f))"

definition FILTER_FIELDS :: "string list" where
  "FILTER_FIELDS = [''systems'', ''attrPrefix'', ''attrPrefixes'', ''attrs'', ''names'', ''drvPaths'',
     ''includePatterns'', ''excludePatterns'']"

definition json_filter :: "json \<Rightarrow> query_filter result" where
  "json_filter v =
     and_then (object_fields FILTER_FIELDS v) (\<lambda>m.
     and_then (optional (dec_list dec_string) ''systems'' m) (\<lambda>systems.
     and_then (optional (dec_list dec_string) ''attrPrefix'' m) (\<lambda>attr_prefix.
     and_then (optional (dec_list (dec_list dec_string)) ''attrPrefixes'' m) (\<lambda>attr_prefixes.
     and_then (optional (dec_list (dec_list dec_string)) ''attrs'' m) (\<lambda>attrs.
     and_then (optional (dec_list dec_string) ''names'' m) (\<lambda>names.
     and_then (optional (dec_list dec_string) ''drvPaths'' m) (\<lambda>drv_paths.
     and_then (optional (dec_list dec_string) ''includePatterns'' m) (\<lambda>include_patterns.
     and_then (optional (dec_list dec_string) ''excludePatterns'' m) (\<lambda>exclude_patterns.
       Inr \<lparr>f_systems = systems, f_attr_prefix = attr_prefix, f_attr_prefixes = attr_prefixes,
         f_attrs = attrs, f_names = names, f_drv_paths = drv_paths,
         f_include_patterns = include_patterns, f_exclude_patterns = exclude_patterns\<rparr>)))))))))"

definition request_fields :: "string \<Rightarrow> u32 \<Rightarrow> json \<Rightarrow> (string \<times> json) list" where
  "request_fields tag version config =
     [(''type'', JString tag), (''protocolVersion'', enc_uint (ucast version)), (''config'', config)]"

fun request_json :: "request \<Rightarrow> json result" where
  "request_json (RequestEval v c) =
     and_then (config_json c) (\<lambda>j. Inr (JObject (request_fields ''eval'' v j)))"
| "request_json (RequestReplay v c) =
     and_then (config_json c) (\<lambda>j. Inr (JObject (request_fields ''replay'' v j)))"
| "request_json (RequestWatch v c) =
     and_then (config_json c) (\<lambda>j. Inr (JObject (request_fields ''watch'' v j)))"
| "request_json (RequestQuery v c f) =
     and_then (config_json c) (\<lambda>j. Inr (JObject (request_fields ''query'' v j @ [(''filter'', filter_json f)])))"
| "request_json (RequestDiff v c) =
     and_then (config_json c) (\<lambda>j. Inr (JObject (request_fields ''diff'' v j)))"

text \<open>A request denies every field that its variant does not have.\<close>

definition request_parts :: "string list \<Rightarrow> json \<Rightarrow> (u32 \<times> wire_config \<times> (string \<times> json) list) result" where
  "request_parts extra v =
     (let known = [''type'', ''protocolVersion'', ''config''] @ extra
      in and_then (object_fields known v) (\<lambda>m.
         if \<not> list_all (\<lambda>(k, _). k \<in> set known) m then external ''serde''
         else
           and_then (required dec_u32 ''protocolVersion'' m) (\<lambda>version.
           and_then (required json_config ''config'' m) (\<lambda>config. Inr (version, config, m)))))"

definition json_request :: "json \<Rightarrow> request result" where
  "json_request v =
     and_then (object_fields [''type''] v) (\<lambda>m.
     and_then (required dec_string ''type'' m) (\<lambda>t.
       if t = ''eval'' then map_sum id (\<lambda>(v, c, _). RequestEval v c) (request_parts [] v)
       else if t = ''replay'' then map_sum id (\<lambda>(v, c, _). RequestReplay v c) (request_parts [] v)
       else if t = ''watch'' then map_sum id (\<lambda>(v, c, _). RequestWatch v c) (request_parts [] v)
       else if t = ''query'' then
         and_then (request_parts [''filter''] v) (\<lambda>(v, c, m).
           map_sum id (RequestQuery v c) (defaulted default_filter json_filter ''filter'' m))
       else if t = ''diff'' then map_sum id (\<lambda>(v, c, _). RequestDiff v c) (request_parts [] v)
       else external ''serde''))"


section \<open>Reading back what was written\<close>

lemma dec_enc [simp, codec_simps]:
  "dec_string (JString s) = Inr s" "dec_bool (JBool b) = Inr b" "dec_uint (enc_uint n) = Inr n"
  "dec_pair (enc_pair p) = Inr p" "dec_option f JNull = Inr None"
  by (simp_all add: dec_string_def dec_bool_def dec_uint_def enc_uint_def dec_pair_def enc_pair_def dec_option_def)

lemma dec_u32_enc [simp, codec_simps]: "dec_u32 (enc_uint (ucast v)) = Inr v"
proof -
  have "uint (ucast v :: u64) = uint v" by (rule uint_up_ucast) (simp add: is_up)
  then have "unat (ucast v :: u64) = unat v" by (simp only: unat_eq_nat_uint)
  moreover have "unat v < 4294967296" using unsigned_less [of v, where 'a = nat] by simp
  moreover have "ucast (ucast v :: u64) = v" by (rule ucast_up_ucast_id) (simp add: is_up)
  ultimately show ?thesis by (simp only: dec_u32_def dec_enc and_then_simps) simp
qed

lemma dec_list_map [simp, codec_simps]:
  "(\<And>x. x \<in> set xs \<Longrightarrow> f (g x) = Inr x) \<Longrightarrow> dec_list f (JArray (map g xs)) = Inr xs"
  using collect_results_map_Ok [of xs f g id] by (simp add: dec_list_def)

lemma dec_strings [simp, codec_simps]: "dec_list dec_string (json_strings xs) = Inr xs"
  by (simp add: json_strings_def)

lemma dec_paths [simp, codec_simps]: "dec_list (dec_list dec_string) (enc_paths xs) = Inr xs"
  by (simp add: enc_paths_def)

lemma object_fields_JObject:
  "distinct (map fst m) \<Longrightarrow> object_fields known (JObject m) = Inr m"
  by (simp add: object_fields_def distinct_map_filter distinct_filter)

lemma field_found [simp, codec_simps]:
  "map_of m k = Some v \<Longrightarrow> required f k m = f v"
  "map_of m k = Some v \<Longrightarrow> defaulted d f k m = f v"
  "map_of m k = Some v \<Longrightarrow> optional f k m = dec_option f v"
  "map_of m k = None \<Longrightarrow> optional f k m = Inr None"
  by (simp_all add: required_def defaulted_def optional_def)

lemma dec_option_enc [codec_simps]:
  "(\<And>y. f (g y) = Inr y) \<Longrightarrow> (\<And>y. g y \<noteq> JNull) \<Longrightarrow> dec_option f (enc_option g x) = Inr x"
  by (cases x) (auto simp: dec_option_def enc_option_def)

lemma not_JNull [simp]:
  "json_strings xs \<noteq> JNull" "enc_paths ps \<noteq> JNull" "JNull \<noteq> json_strings xs" "JNull \<noteq> enc_paths ps"
  by (simp_all add: json_strings_def enc_paths_def)

lemma deserialize_serialize_input:
  "serialize_input i = Inr v \<Longrightarrow> deserialize_input v = Inr i"
  by (cases i) (auto simp: serialize_input_def deserialize_input_def json_input_wire_def object_fields_def
      enc_path_def split: if_splits)

lemma deserialize_serialize_auto_args [simp, codec_simps]:
  "deserialize_auto_args (serialize_auto_args args) = Inr args"
proof -
  let ?w = "\<lambda>a. case snd a of
      ArgExpr v \<Rightarrow> \<lparr>aw_name = fst a, aw_kind = KindExpr, aw_value = v\<rparr>
    | ArgStr v \<Rightarrow> \<lparr>aw_name = fst a, aw_kind = KindStr, aw_value = v\<rparr>"
  have "json_auto_arg_wire (auto_arg_wire_json w) = Inr w" for w
    by (cases w; cases "aw_kind w")
      (auto simp: json_auto_arg_wire_def auto_arg_wire_json_def object_fields_def json_auto_arg_kind_def)
  then have "dec_list json_auto_arg_wire (JArray (map auto_arg_wire_json (map ?w args))) = Inr (map ?w args)"
    by (intro dec_list_map) simp
  moreover have "map (\<lambda>w. (aw_name w, case aw_kind w of KindExpr \<Rightarrow> ArgExpr (aw_value w) | KindStr \<Rightarrow> ArgStr (aw_value w)))
      (map ?w args) = args"
    by (auto intro!: map_idI split: auto_arg.split)
  moreover have "serialize_auto_args args = JArray (map auto_arg_wire_json (map ?w args))"
    by (simp add: serialize_auto_args_def comp_def split_beta)
  ultimately show ?thesis by (simp only: deserialize_auto_args_def and_then_simps)
qed

lemma json_remote_json [simp, codec_simps]: "json_remote (remote_json r) = Inr r"
  by (cases r; cases "r_token r")
    (auto simp: json_remote_def remote_json_def object_fields_def skipped_def dec_option_def)


lemma enc_path_Ok: "enc_path p = Inr v \<longleftrightarrow> valid_utf8 p \<and> v = JString p"
  by (auto simp: enc_path_def)

lemma json_config_json:
  assumes "config_json c = Inr v"
  shows "json_config v = Inr c"
proof -
  obtain i where i: "serialize_input (c_input c) = Inr i"
    using assms by (auto simp: config_json_def and_then_Ok_iff)
  obtain g where g: "(case c_gc_roots_dir c of None \<Rightarrow> Inr JNull | Some p \<Rightarrow> enc_path p) = Inr g"
    using assms i by (auto simp: config_json_def and_then_Ok_iff)
  have dirs: "dec_option dec_string g = Inr (c_gc_roots_dir c)"
    using g by (cases "c_gc_roots_dir c") (auto simp: enc_path_Ok dec_option_def)
  have "dec_list dec_pair (JArray (map enc_pair xs)) = Inr xs" for xs by (rule dec_list_map) simp
  moreover have "dec_list json_remote (JArray (map remote_json xs)) = Inr xs" for xs by (rule dec_list_map) simp
  ultimately show ?thesis
    using assms i g deserialize_serialize_input [OF i] dirs
    by (auto simp: config_json_def json_config_def object_fields_JObject)
qed

lemma map_of_skipped:
  "map_of (skipped k g x @ m) k' =
     (if k' = k then (case x of None \<Rightarrow> map_of m k' | Some y \<Rightarrow> Some (g y)) else map_of m k')"
  "map_of (skipped k g x) k' = (if k' = k then map_option g x else None)"
  by (auto simp: skipped_def split: option.splits)

lemma optional_strings:
  "map_of m k = map_option json_strings x \<Longrightarrow> optional (dec_list dec_string) k m = Inr x"
  "map_of m k = map_option enc_paths y \<Longrightarrow> optional (dec_list (dec_list dec_string)) k m = Inr y"
  by (cases x, simp_all add: dec_option_def, cases y, simp_all add: dec_option_def)

lemma json_filter_json [simp, codec_simps]: "json_filter (filter_json f) = Inr f"
proof -
  let ?m = "[(''systems'', enc_option json_strings (f_systems f)),
       (''attrPrefix'', enc_option json_strings (f_attr_prefix f))] @
       skipped ''attrPrefixes'' enc_paths (f_attr_prefixes f) @
       skipped ''attrs'' enc_paths (f_attrs f) @
       skipped ''names'' json_strings (f_names f) @
       skipped ''drvPaths'' json_strings (f_drv_paths f) @
       skipped ''includePatterns'' json_strings (f_include_patterns f) @
       skipped ''excludePatterns'' json_strings (f_exclude_patterns f)"
  have dist: "distinct (map fst ?m)"
    by (auto simp: skipped_def split: option.splits)
  have two: "optional (dec_list dec_string) ''systems'' ?m = Inr (f_systems f)"
    "optional (dec_list dec_string) ''attrPrefix'' ?m = Inr (f_attr_prefix f)"
    by (simp_all add: dec_option_enc)
  have rest: "optional (dec_list (dec_list dec_string)) ''attrPrefixes'' ?m = Inr (f_attr_prefixes f)"
    "optional (dec_list (dec_list dec_string)) ''attrs'' ?m = Inr (f_attrs f)"
    "optional (dec_list dec_string) ''names'' ?m = Inr (f_names f)"
    "optional (dec_list dec_string) ''drvPaths'' ?m = Inr (f_drv_paths f)"
    "optional (dec_list dec_string) ''includePatterns'' ?m = Inr (f_include_patterns f)"
    "optional (dec_list dec_string) ''excludePatterns'' ?m = Inr (f_exclude_patterns f)"
    by (rule optional_strings, simp add: map_of_skipped del: map_of_append split: option.split)+
  show ?thesis
    unfolding filter_json_def json_filter_def object_fields_JObject [OF dist] and_then_simps two rest
    by simp
qed


lemma request_parts_fields:
  assumes "json_config j = Inr c" and "xs = [] \<and> extra = [] \<or> xs = [(''filter'', filter_json f)] \<and> extra = [''filter'']"
  shows "request_parts extra (JObject (request_fields tag v j @ xs)) = Inr (v, c, request_fields tag v j @ xs)"
  using assms by (auto simp: request_parts_def request_fields_def object_fields_JObject Let_def)

lemma request_type:
  assumes "xs = [] \<or> xs = [(''filter'', y)]"
  shows "object_fields [''type''] (JObject (request_fields tag v j @ xs)) = Inr (request_fields tag v j @ xs)"
    and "required dec_string ''type'' (request_fields tag v j @ xs) = Inr tag"
  using assms by (auto simp: request_fields_def object_fields_def)

definition paths_utf8 :: "wire_config \<Rightarrow> bool" where
  "paths_utf8 c \<longleftrightarrow>
     (case c_input c of InputFile p \<Rightarrow> valid_utf8 p | _ \<Rightarrow> True) \<and>
     (case c_gc_roots_dir c of Some p \<Rightarrow> valid_utf8 p | None \<Rightarrow> True)"

lemma config_json_cases:
  "if paths_utf8 c then \<exists>j. config_json c = Inr j \<and> json_config j = Inr c else isl (config_json c)"
proof (cases "config_json c")
  case (Inl e)
  then show ?thesis
    by (auto simp: paths_utf8_def config_json_def serialize_input_def enc_path_def and_then_Err_iff
        split: input.splits option.splits if_splits)
next
  case (Inr j)
  moreover have "paths_utf8 c"
    using Inr by (auto simp: paths_utf8_def config_json_def serialize_input_def enc_path_def and_then_Ok_iff
        split: input.splits option.splits if_splits)
  ultimately show ?thesis using json_config_json by simp
qed

interpretation config_document: codec config_json json_config paths_utf8
  by unfold_locales (use config_json_cases in force)

interpretation filter_document: codec "\<lambda>f. Inr (filter_json f)" json_filter "\<lambda>_. True"
  by unfold_locales simp

fun request_wire_config :: "request \<Rightarrow> wire_config" where
  "request_wire_config (RequestEval v c) = c"
| "request_wire_config (RequestReplay v c) = c"
| "request_wire_config (RequestWatch v c) = c"
| "request_wire_config (RequestQuery v c f) = c"
| "request_wire_config (RequestDiff v c) = c"

text \<open>
  C26. A daemon decodes the request its client sent: reading the JSON document of a request
  gives the request back, with its version, every field of its configuration and its filter;
  only a path that is not UTF-8 keeps a request from being written.
\<close>

theorem request_json_roundtrip:
  "if paths_utf8 (request_wire_config r) then \<exists>v. request_json r = Inr v \<and> json_request v = Inr r
   else isl (request_json r)"
proof (cases "paths_utf8 (request_wire_config r)")
  case True
  then obtain j where j: "config_json (request_wire_config r) = Inr j" "json_config j = Inr (request_wire_config r)"
    using config_json_cases [of "request_wire_config r"] by auto
  note parts = request_parts_fields [OF j(2), of "[]" "[]", simplified]
    and type = request_type [of "[]", simplified]
  show ?thesis
  proof (cases r)
    case (RequestQuery v c f)
    let ?m = "request_fields ''query'' v j @ [(''filter'', filter_json f)]"
    have "request_parts [''filter''] (JObject ?m) = Inr (v, c, ?m)"
      using j(2) RequestQuery by (intro request_parts_fields [of j c _ _ f]) simp_all
    moreover have "map_of ?m ''filter'' = Some (filter_json f)" by (simp add: request_fields_def)
    ultimately show ?thesis
      using True j(1) RequestQuery request_type [of "[(''filter'', filter_json f)]" "filter_json f" "''query''" v j]
      by (simp add: json_request_def)
  qed (use True j(1) parts type in \<open>simp_all add: json_request_def\<close>)
next
  case False
  with config_json_cases [of "request_wire_config r"] obtain e where "config_json (request_wire_config r) = Inl e"
    by (auto simp: isl_def)
  with False show ?thesis by (cases r) simp_all
qed

end
