(* ===== verification/Json_Events.thy ===== *)
theory Json_Events
  imports Protocol
begin

text \<open>
  The flat JSON shape of events and diffs (\<open>crates/evix/src/json.rs\<close>): the encoders
  \<open>derivation_value\<close>, \<open>event_value\<close>, \<open>diff_value\<close>, the decoder \<open>parse_event_value\<close> with its
  field readers, and the line versions, whose text codec is \<open>serde_json\<close> and a parameter.
\<close>

section \<open>Encoding\<close>

definition output_json :: "string option \<Rightarrow> json" where
  "output_json v = (case v of None \<Rightarrow> JNull | Some p \<Rightarrow> JString p)"

definition opt_insert :: "string \<Rightarrow> json option \<Rightarrow> json_map \<Rightarrow> json_map" where
  "opt_insert k v obj = (case v of None \<Rightarrow> obj | Some x \<Rightarrow> bt_insert k x obj)"

definition derivation_value :: "derivation \<Rightarrow> json" where
  "derivation_value d =
     (let outputs = foldl (\<lambda>m (k, v). bt_insert k (output_json v) m) [] (d_outputs d);
          obj = bt_insert ''attr'' (JString (d_attr d)) [];
          obj = bt_insert ''attrPath'' (json_strings (d_attr_path d)) obj;
          obj = bt_insert ''name'' (JString (d_name d)) obj;
          obj = bt_insert ''system'' (JString (d_system d)) obj;
          obj = bt_insert ''drvPath'' (JString (d_drv_path d)) obj;
          obj = bt_insert ''outputs'' (JObject outputs) obj;
          obj = opt_insert ''meta'' (d_meta d) obj;
          obj = (if d_input_drvs d \<noteq> [] then
                   bt_insert ''inputDrvs''
                     (JObject (bt_of_list (map (\<lambda>(drv, outs). (drv, json_strings outs)) (d_input_drvs d)))) obj
                 else obj);
          obj = opt_insert ''constituents'' (map_option json_strings (d_constituents d)) obj;
          obj = opt_insert ''gcRootError'' (map_option JString (d_gc_root_error d)) obj
      in JObject obj)"

fun event_value :: "event \<Rightarrow> json" where
  "event_value (Derivation d) = derivation_value d"
| "event_value (AttrSet attr attr_path attrs) =
     JObject (bt_of_list [(''attr'', JString attr), (''attrPath'', json_strings attr_path),
       (''attrs'', json_strings attrs)])"
| "event_value (EventError e) =
     JObject (bt_of_list [(''attr'', JString (e_attr e)), (''attrPath'', json_strings (e_attr_path e)),
       (''error'', JString (e_error e)), (''fatal'', JBool (e_fatal e))])"

definition event_line :: "(json \<Rightarrow> string) \<Rightarrow> event \<Rightarrow> string" where
  "event_line to_string event = to_string (event_value event)"

text \<open>The derived \<open>Serialize\<close> of \<open>EvalError\<close> keeps the field names of the struct.\<close>

definition eval_error_value :: "eval_error \<Rightarrow> json" where
  "eval_error_value e =
     JObject (bt_of_list [(''attr'', JString (e_attr e)), (''attr_path'', json_strings (e_attr_path e)),
       (''error'', JString (e_error e)), (''fatal'', JBool (e_fatal e))])"

definition diff_value :: "diff \<Rightarrow> json" where
  "diff_value df =
     JObject (bt_of_list [(''added'', JArray (map derivation_value (df_added df))),
       (''removed'', JArray (map derivation_value (df_removed df))),
       (''errors'', JArray (map eval_error_value (df_errors df)))])"

definition diff_line :: "(json \<Rightarrow> string) \<Rightarrow> diff \<Rightarrow> string" where
  "diff_line to_string df = to_string (diff_value df)"

section \<open>Decoding\<close>

definition string_field :: "json \<Rightarrow> string \<Rightarrow> string result" where
  "string_field value name =
     (case Option.bind (json_get value name) as_str of
        Some s \<Rightarrow> Inr s
      | None \<Rightarrow> bail_fmt ''missing string field {name:?}'' [name])"

definition string_vec_field :: "json \<Rightarrow> string \<Rightarrow> string list result" where
  "string_vec_field value name =
     and_then (with_context (''parsing field '' @ name)
         (transpose_option (map_option strings_of_json (json_get value name))))
       (\<lambda>x. case x of Some xs \<Rightarrow> Inr xs
          | None \<Rightarrow> bail_fmt ''missing string list field {name:?}'' [name])"

definition parse_outputs :: "json \<Rightarrow> string option btree" where
  "parse_outputs value =
     option_or (map_option (\<lambda>outputs. bt_of_list (map (\<lambda>(name, path). (name, as_str path)) outputs))
       (Option.bind (json_get value ''outputs'') as_object)) []"

definition parse_input_drvs :: "json \<Rightarrow> string list btree result" where
  "parse_input_drvs value =
     and_then (with_context ''parsing inputDrvs'' (transpose_option (map_option
         (\<lambda>drvs. and_then (collect_results (\<lambda>(path, v). and_then (strings_of_json v) (\<lambda>outs. Inr (path, outs))) drvs)
            (\<lambda>kvs. Inr (bt_of_list kvs)))
         (Option.bind (json_get value ''inputDrvs'') as_object))))
       (\<lambda>x. Inr (option_or x []))"

definition parse_derivation :: "json \<Rightarrow> derivation result" where
  "parse_derivation value =
     (let outputs = parse_outputs value in
      and_then (parse_input_drvs value) (\<lambda>input_drvs.
      and_then (with_context ''parsing constituents''
          (transpose_option (map_option strings_of_json (json_get value ''constituents'')))) (\<lambda>constituents.
      and_then (string_field value ''attr'') (\<lambda>attr.
      and_then (string_vec_field value ''attrPath'') (\<lambda>attr_path.
      and_then (string_field value ''name'') (\<lambda>name.
      and_then (string_field value ''system'') (\<lambda>system.
      and_then (string_field value ''drvPath'') (\<lambda>drv_path.
        Inr \<lparr>d_attr = attr, d_attr_path = attr_path, d_name = name, d_system = system,
          d_drv_path = drv_path, d_outputs = outputs, d_meta = json_get value ''meta'',
          d_input_drvs = input_drvs, d_constituents = constituents,
          d_gc_root_error = Option.bind (json_get value ''gcRootError'') as_str\<rparr>))))))))"

definition parse_event_value :: "json \<Rightarrow> event result" where
  "parse_event_value value =
     (if json_get value ''drvPath'' \<noteq> None then
        and_then (parse_derivation value) (\<lambda>d. Inr (Derivation d))
      else if json_get value ''error'' \<noteq> None then
        and_then (string_field value ''attr'') (\<lambda>attr.
        and_then (string_vec_field value ''attrPath'') (\<lambda>attr_path.
        and_then (string_field value ''error'') (\<lambda>error.
          Inr (EventError \<lparr>e_attr = attr, e_attr_path = attr_path, e_error = error,
            e_fatal = option_or (Option.bind (json_get value ''fatal'') as_bool) False\<rparr>))))
      else
        and_then (string_field value ''attr'') (\<lambda>attr.
        and_then (string_vec_field value ''attrPath'') (\<lambda>attr_path.
          Inr (AttrSet attr attr_path (result_or (string_vec_field value ''attrs'') [])))))"

definition parse_event_line :: "(string \<Rightarrow> json result) \<Rightarrow> string \<Rightarrow> event result" where
  "parse_event_line from_str line =
     and_then (with_context ''parsing event line'' (from_str line)) parse_event_value"

section \<open>Reading back what was written\<close>

lemma string_field_get [simp]:
  "json_get v n = Some (JString s) \<Longrightarrow> string_field v n = Inr s"
  by (simp add: string_field_def)

lemma string_vec_field_get [simp]:
  "json_get v n = Some (json_strings xs) \<Longrightarrow> string_vec_field v n = Inr xs"
  by (simp add: string_vec_field_def)

lemma opt_insert_ok [simp]: "bt_ok m \<Longrightarrow> bt_ok (opt_insert k v m)"
  by (cases v) (simp_all add: opt_insert_def)

lemma opt_insert_lookup [simp]:
  "bt_ok m \<Longrightarrow> map_of (opt_insert k v m) =
     (case v of None \<Rightarrow> map_of m | Some x \<Rightarrow> (map_of m)(k \<mapsto> x))"
  by (cases v) (simp_all add: opt_insert_def)

lemma foldl_output_json:
  "foldl (\<lambda>m (k, v). bt_insert k (output_json v) m) m kvs =
     foldl (\<lambda>m (k, v). bt_insert k v m) m (map (\<lambda>(k, v). (k, output_json v)) kvs)"
  by (induction kvs arbitrary: m) (simp_all add: split_beta)

lemma outputs_json:
  "bt_ok m \<Longrightarrow> foldl (\<lambda>m (k, v). bt_insert k (output_json v) m) [] m = map (\<lambda>(k, v). (k, output_json v)) m"
  using bt_of_list_id [of "map (\<lambda>(k, v). (k, output_json v)) m"]
  by (simp add: foldl_output_json bt_of_list_def bt_ok_map [where f = "\<lambda>_. output_json"])

lemma as_str_output_json [simp]: "as_str (output_json v) = v"
  by (cases v) (simp_all add: output_json_def)

lemma parse_outputs_roundtrip:
  assumes "bt_ok m" and "json_get v ''outputs'' = Some (JObject (map (\<lambda>(k, v). (k, output_json v)) m))"
  shows "parse_outputs v = m"
proof -
  have "map (\<lambda>(name, path). (name, as_str path)) (map (\<lambda>(k, v). (k, output_json v)) m) = m"
    by (induction m) auto
  with assms show ?thesis by (simp add: parse_outputs_def)
qed

lemma parse_input_drvs_roundtrip:
  assumes "bt_ok m"
    and "json_get v ''inputDrvs'' =
      (if m = [] then None else Some (JObject (map (\<lambda>(k, outs). (k, json_strings outs)) m)))"
  shows "parse_input_drvs v = Inr m"
proof (cases "m = []")
  case True
  with assms show ?thesis by (simp add: parse_input_drvs_def)
next
  case False
  have "collect_results (\<lambda>(path, v). and_then (strings_of_json v) (\<lambda>outs. Inr (path, outs)))
      (map (\<lambda>(k, outs). (k, json_strings outs)) m) = (Inr (map id m) :: (string \<times> string list) list result)"
    by (rule collect_results_map_Ok) auto
  with False assms show ?thesis by (simp add: parse_input_drvs_def)
qed

definition put :: "string \<Rightarrow> json option \<Rightarrow> (string \<rightharpoonup> json) \<Rightarrow> (string \<rightharpoonup> json)" where
  "put k v m = (\<lambda>k'. if k' = k then option_or (map_option Some v) (m k) else m k')"

lemma put_same: "put k v m k = (case v of None \<Rightarrow> m k | Some x \<Rightarrow> Some x)"
  by (cases v) (simp_all add: put_def)

lemma put_other: "k' \<noteq> k \<Longrightarrow> put k v m k' = m k'"
  by (simp add: put_def)

lemma map_of_opt_insert: "bt_ok m \<Longrightarrow> map_of (opt_insert k v m) = put k v (map_of m)"
  by (cases v) (auto simp: opt_insert_def put_def fun_eq_iff)

lemma map_of_bt_insert: "bt_ok m \<Longrightarrow> map_of (bt_insert k v m) = put k (Some v) (map_of m)"
  by (auto simp: put_def fun_eq_iff)

lemma if_nonempty_opt_insert:
  "(if c then bt_insert k v m else m) = opt_insert k (if c then Some v else None) m"
  by (simp add: opt_insert_def)

lemma derivation_value_get:
  assumes "derivation_ok d"
  shows "json_get (derivation_value d) =
    put ''gcRootError'' (map_option JString (d_gc_root_error d))
     (put ''constituents'' (map_option json_strings (d_constituents d))
      (put ''inputDrvs'' (if d_input_drvs d \<noteq> [] then
         Some (JObject (map (\<lambda>(k, outs). (k, json_strings outs)) (d_input_drvs d))) else None)
       (put ''meta'' (d_meta d)
        (put ''outputs'' (Some (JObject (map (\<lambda>(k, v). (k, output_json v)) (d_outputs d))))
         (put ''drvPath'' (Some (JString (d_drv_path d)))
          (put ''system'' (Some (JString (d_system d)))
           (put ''name'' (Some (JString (d_name d)))
            (put ''attrPath'' (Some (json_strings (d_attr_path d)))
             (put ''attr'' (Some (JString (d_attr d))) Map.empty)))))))))"
proof -
  have ok: "bt_ok (map (\<lambda>(k, outs). (k, json_strings outs)) (d_input_drvs d))"
    using assms bt_ok_map [where f = "\<lambda>_. json_strings" and m = "d_input_drvs d"]
    by (simp add: derivation_ok_def)
  have outs: "foldl (\<lambda>m (k, v). bt_insert k (output_json v) m) [] (d_outputs d) =
      map (\<lambda>(k, v). (k, output_json v)) (d_outputs d)"
    using assms by (simp add: outputs_json derivation_ok_def)
  have get: "json_get (JObject m) = map_of m" for m by (rule ext) simp
  show ?thesis
    unfolding derivation_value_def Let_def outs bt_of_list_id [OF ok] if_nonempty_opt_insert get
    by (simp only: map_of_opt_insert map_of_bt_insert opt_insert_ok bt_insert_ok bt_ok_simps map_of.simps)
qed

lemmas derivation_value_fields = derivation_value_get put_same put_other

lemma parse_derivation_roundtrip:
  assumes "derivation_ok d"
  shows "parse_derivation (derivation_value d) = Inr d"
proof -
  let ?v = "derivation_value d"
  note get = derivation_value_get [OF assms] put_same put_other
  have "parse_outputs ?v = d_outputs d"
    using assms by (intro parse_outputs_roundtrip) (simp_all add: get derivation_ok_def)
  moreover have "parse_input_drvs ?v = Inr (d_input_drvs d)"
    using assms by (intro parse_input_drvs_roundtrip) (simp_all add: get derivation_ok_def)
  moreover have "transpose_option (map_option strings_of_json (json_get ?v ''constituents'')) =
      Inr (d_constituents d)"
    by (cases "d_constituents d") (simp_all add: get)
  moreover have "json_get ?v ''meta'' = d_meta d" by (cases "d_meta d") (simp_all add: get)
  moreover have "Option.bind (json_get ?v ''gcRootError'') as_str = d_gc_root_error d"
    by (cases "d_gc_root_error d") (simp_all add: get)
  ultimately show ?thesis
    by (simp add: parse_derivation_def get)
qed

lemma parse_event_value_roundtrip: "event_ok e \<Longrightarrow> parse_event_value (event_value e) = Inr e"
proof (cases e)
  case (Derivation d)
  assume "event_ok e"
  with Derivation show ?thesis
    by (simp add: parse_event_value_def parse_derivation_roundtrip derivation_value_fields)
next
  case (AttrSet attr attr_path attrs)
  then show ?thesis by (simp add: parse_event_value_def bt_of_list_def)
next
  case (EventError err)
  then show ?thesis by (simp add: parse_event_value_def bt_of_list_def)
qed

lemma json_ok_get: "json_ok v \<Longrightarrow> json_get v k = Some x \<Longrightarrow> json_ok x"
  by (cases v) (fastforce dest: map_of_SomeD)+

lemma parse_outputs_ok [simp]: "bt_ok (parse_outputs v)"
  by (cases "Option.bind (json_get v ''outputs'') as_object") (simp_all add: parse_outputs_def)

lemma parse_input_drvs_ok: "parse_input_drvs v = Inr m \<Longrightarrow> bt_ok m"
  by (cases "Option.bind (json_get v ''inputDrvs'') as_object")
    (auto simp: parse_input_drvs_def and_then_Ok_iff transpose_option_def)

lemma parse_event_value_ok:
  assumes "parse_event_value v = Inr e" and "json_ok v"
  shows "event_ok e"
  using assms json_ok_get [OF assms(2)]
  by (auto simp: parse_event_value_def parse_derivation_def derivation_ok_def Let_def and_then_Ok_iff
      parse_input_drvs_ok split: if_splits)

text \<open>
  C30. Event lines round-trip: what the encoder writes for an event, the decoder reads back as
  that event, every optional field (meta, input derivations, constituents, the garbage
  collector root error) present or absent as it was; on lines, for any text codec that reads
  back the value it printed.
\<close>

theorem event_line_roundtrip:
  assumes "event_ok e" and "from_str (to_string (event_value e)) = Inr (event_value e)"
  shows "parse_event_line from_str (event_line to_string e) = Inr e"
  using assms by (simp add: parse_event_line_def event_line_def parse_event_value_roundtrip)

definition ex_json_event :: event where
  "ex_json_event = Derivation \<lparr>d_attr = ''a.b'', d_attr_path = [''a'', ''b''], d_name = ''n'',
     d_system = ''s'', d_drv_path = ''p.drv'', d_outputs = [(''dev'', None), (''out'', Some ''o'')],
     d_meta = Some JNull, d_input_drvs = [(''i.drv'', [''out''])], d_constituents = Some [],
     d_gc_root_error = Some ''e''\<rparr>"

theorem event_line_roundtrip_witness:
  "parse_event_line (\<lambda>line. if line = ''x'' then Inr (event_value ex_json_event) else external ''serde_json'')
     (event_line (\<lambda>_. ''x'') ex_json_event) = Inr ex_json_event"
proof (rule event_line_roundtrip)
  show "event_ok ex_json_event"
    by (simp add: ex_json_event_def derivation_ok_def)
qed simp

text \<open>
  Decoding normalises: whatever JSON value the decoder accepts, encoding the event and
  decoding again gives the same event.
\<close>

theorem parse_event_value_normalises:
  assumes "parse_event_value v = Inr e" and "json_ok v"
  shows "parse_event_value (event_value e) = Inr e"
  using assms parse_event_value_ok parse_event_value_roundtrip by blast

theorem parse_event_value_normalises_witness:
  "parse_event_value (event_value (AttrSet ''a'' [''a''] [])) = Inr (AttrSet ''a'' [''a''] [])"
proof (rule parse_event_value_normalises)
  show "parse_event_value (JObject [(''attr'', JString ''a''), (''attrPath'', JArray [JString ''a'']),
      (''attrs'', JNull)]) = Inr (AttrSet ''a'' [''a''] [])"
    by code_simp
  show "json_ok (JObject [(''attr'', JString ''a''), (''attrPath'', JArray [JString ''a'']),
      (''attrs'', JNull)])"
    by code_simp
qed

text \<open>
  How a JSON object is classified: with a \<open>drvPath\<close> field it can only become a derivation,
  else with an \<open>error\<close> field only an error, else only an attribute set; and a value without a
  string \<open>attr\<close> field is always rejected.
\<close>

theorem parse_event_value_classifies:
  "(case parse_event_value v of
      Inr (Derivation d) \<Rightarrow> json_get v ''drvPath'' = Some (JString (d_drv_path d))
    | Inr (EventError e) \<Rightarrow> json_get v ''drvPath'' = None \<and> json_get v ''error'' = Some (JString (e_error e))
    | Inr (AttrSet a p xs) \<Rightarrow> json_get v ''drvPath'' = None \<and> json_get v ''error'' = None
    | Inl _ \<Rightarrow> True) \<and>
   (Option.bind (json_get v ''attr'') as_str = None \<longrightarrow> isl (parse_event_value v))"
proof -
  have field: "string_field v n = Inr s \<longleftrightarrow> json_get v n = Some (JString s)" for n s
    by (cases "json_get v n") (auto simp: string_field_def split: option.splits elim!: as_str.elims)
  have "Option.bind (json_get v ''attr'') as_str = None \<Longrightarrow> parse_event_value v \<noteq> Inr e" for e
    by (auto simp: parse_event_value_def parse_derivation_def and_then_Ok_iff Let_def field)
  then show ?thesis
    by (auto simp: parse_event_value_def parse_derivation_def and_then_Ok_iff Let_def field isl_def
        split: sum.splits event.splits if_splits)
qed

theorem parse_event_value_classifies_witness:
  "isl (parse_event_value (JObject [(''drvPath'', JString ''p'')]))"
  using parse_event_value_classifies [of "JObject [(''drvPath'', JString ''p'')]"] by simp

end
