(* ===== verification/Serde_Response.thy ===== *)
theory Serde_Response
  imports Serde_Config Json_Events
begin

text \<open>
  The JSON documents of daemon responses: the derived conversions of \<open>Derivation\<close>,
  \<open>EvalError\<close>, \<open>Diff\<close>, \<open>Event\<close> and \<open>Response\<close> in \<open>crates/evix-protocol/src/lib.rs\<close>, field by
  field as their serde attributes say, with the readers of fields of \<open>Serde_Config\<close>. A
  response is tagged by its field \<open>type\<close>, an event by the only key of its object, and the
  fields of both keep the names of the Rust fields.
\<close>

section \<open>Maps and values\<close>

text \<open>\<open>BTreeMap\<close>: written in its order; of a key that is read twice the last value stays.\<close>

definition enc_map :: "('a \<Rightarrow> json) \<Rightarrow> 'a btree \<Rightarrow> json" where
  "enc_map f m = JObject (map (\<lambda>(k, x). (k, f x)) m)"

definition dec_map :: "(json \<Rightarrow> 'a result) \<Rightarrow> json \<Rightarrow> 'a btree result" where
  "dec_map f v =
     (case v of
        JObject m \<Rightarrow>
          and_then (collect_results (\<lambda>(k, x). and_then (f x) (\<lambda>y. Inr (k, y))) m) (\<lambda>kvs. Inr (bt_of_list kvs))
      | _ \<Rightarrow> external ''serde'')"

text \<open>Reading a \<open>serde_json::Value\<close>, whose objects are such maps.\<close>

fun json_value :: "json \<Rightarrow> json" where
  "json_value (JArray vs) = JArray (map json_value vs)"
| "json_value (JObject m) = JObject (bt_of_list (map (\<lambda>kv. (fst kv, json_value (snd kv))) m))"
| "json_value v = v"

section \<open>Derivations, errors, diffs\<close>

definition drv_json :: "derivation \<Rightarrow> json" where
  "drv_json d =
     JObject ([(''attr'', JString (d_attr d)), (''attr_path'', json_strings (d_attr_path d)),
       (''name'', JString (d_name d)), (''system'', JString (d_system d)),
       (''drv_path'', JString (d_drv_path d)), (''outputs'', enc_map (enc_option JString) (d_outputs d))] @
       skipped ''meta'' id (d_meta d) @
       (if d_input_drvs d = [] then [] else [(''input_drvs'', enc_map json_strings (d_input_drvs d))]) @
       skipped ''constituents'' json_strings (d_constituents d) @
       skipped ''gc_root_error'' JString (d_gc_root_error d))"

definition DERIVATION_FIELDS :: "string list" where
  "DERIVATION_FIELDS = [''attr'', ''attr_path'', ''name'', ''system'', ''drv_path'', ''outputs'', ''meta'',
     ''input_drvs'', ''constituents'', ''gc_root_error'']"

definition json_drv :: "json \<Rightarrow> derivation result" where
  "json_drv v =
     and_then (object_fields DERIVATION_FIELDS v) (\<lambda>m.
     and_then (required dec_string ''attr'' m) (\<lambda>attr.
     and_then (required (dec_list dec_string) ''attr_path'' m) (\<lambda>attr_path.
     and_then (required dec_string ''name'' m) (\<lambda>name.
     and_then (required dec_string ''system'' m) (\<lambda>system.
     and_then (required dec_string ''drv_path'' m) (\<lambda>drv_path.
     and_then (required (dec_map (dec_option dec_string)) ''outputs'' m) (\<lambda>outputs.
     and_then (optional (\<lambda>v. Inr (json_value v)) ''meta'' m) (\<lambda>meta.
     and_then (defaulted [] (dec_map (dec_list dec_string)) ''input_drvs'' m) (\<lambda>input_drvs.
     and_then (optional (dec_list dec_string) ''constituents'' m) (\<lambda>constituents.
     and_then (optional dec_string ''gc_root_error'' m) (\<lambda>gc_root_error.
       Inr \<lparr>d_attr = attr, d_attr_path = attr_path, d_name = name, d_system = system, d_drv_path = drv_path,
         d_outputs = outputs, d_meta = meta, d_input_drvs = input_drvs, d_constituents = constituents,
         d_gc_root_error = gc_root_error\<rparr>)))))))))))"

definition eval_error_json :: "eval_error \<Rightarrow> json" where
  "eval_error_json e =
     JObject [(''attr'', JString (e_attr e)), (''attr_path'', json_strings (e_attr_path e)),
       (''error'', JString (e_error e)), (''fatal'', JBool (e_fatal e))]"

definition json_eval_error :: "json \<Rightarrow> eval_error result" where
  "json_eval_error v =
     and_then (object_fields [''attr'', ''attr_path'', ''error'', ''fatal''] v) (\<lambda>m.
     and_then (required dec_string ''attr'' m) (\<lambda>attr.
     and_then (required (dec_list dec_string) ''attr_path'' m) (\<lambda>attr_path.
     and_then (required dec_string ''error'' m) (\<lambda>err.
     and_then (required dec_bool ''fatal'' m) (\<lambda>fatal.
       Inr \<lparr>e_attr = attr, e_attr_path = attr_path, e_error = err, e_fatal = fatal\<rparr>)))))"

definition diff_json :: "diff \<Rightarrow> json" where
  "diff_json df =
     JObject [(''added'', JArray (map drv_json (df_added df))),
       (''removed'', JArray (map drv_json (df_removed df))),
       (''errors'', JArray (map eval_error_json (df_errors df)))]"

definition json_diff :: "json \<Rightarrow> diff result" where
  "json_diff v =
     and_then (object_fields [''added'', ''removed'', ''errors''] v) (\<lambda>m.
     and_then (required (dec_list json_drv) ''added'' m) (\<lambda>added.
     and_then (required (dec_list json_drv) ''removed'' m) (\<lambda>removed.
     and_then (required (dec_list json_eval_error) ''errors'' m) (\<lambda>errors.
       Inr \<lparr>df_added = added, df_removed = removed, df_errors = errors\<rparr>))))"

section \<open>Events and responses\<close>

fun event_json :: "event \<Rightarrow> json" where
  "event_json (Derivation d) = JObject [(''derivation'', drv_json d)]"
| "event_json (AttrSet attr attr_path attrs) =
     JObject [(''attr_set'', JObject [(''attr'', JString attr), (''attr_path'', json_strings attr_path),
       (''attrs'', json_strings attrs)])]"
| "event_json (EventError e) = JObject [(''error'', eval_error_json e)]"

definition json_attr_set :: "json \<Rightarrow> event result" where
  "json_attr_set v =
     and_then (object_fields [''attr'', ''attr_path'', ''attrs''] v) (\<lambda>m.
     and_then (required dec_string ''attr'' m) (\<lambda>attr.
     and_then (required (dec_list dec_string) ''attr_path'' m) (\<lambda>attr_path.
     and_then (required (dec_list dec_string) ''attrs'' m) (\<lambda>attrs.
       Inr (AttrSet attr attr_path attrs)))))"

definition json_event :: "json \<Rightarrow> event result" where
  "json_event v =
     (case v of
        JObject [(tag, x)] \<Rightarrow>
          if tag = ''derivation'' then map_sum id Derivation (json_drv x)
          else if tag = ''attr_set'' then json_attr_set x
          else if tag = ''error'' then map_sum id EventError (json_eval_error x)
          else external ''serde''
      | _ \<Rightarrow> external ''serde'')"

fun response_json :: "response \<Rightarrow> json" where
  "response_json (ResponseEvent e) = JObject [(''type'', JString ''event''), (''event'', event_json e)]"
| "response_json (ResponseDiff df) = JObject [(''type'', JString ''diff''), (''diff'', diff_json df)]"
| "response_json ResponseDone = JObject [(''type'', JString ''done'')]"
| "response_json (ResponseError message) =
     JObject [(''type'', JString ''error''), (''message'', JString message)]"

definition json_response :: "json \<Rightarrow> response result" where
  "json_response v =
     and_then (object_fields [''type''] v) (\<lambda>m.
     and_then (required dec_string ''type'' m) (\<lambda>t.
       if t = ''event'' then
         and_then (object_fields [''event''] v) (\<lambda>m. map_sum id ResponseEvent (required json_event ''event'' m))
       else if t = ''diff'' then
         and_then (object_fields [''diff''] v) (\<lambda>m. map_sum id ResponseDiff (required json_diff ''diff'' m))
       else if t = ''done'' then Inr ResponseDone
       else if t = ''error'' then
         and_then (object_fields [''message''] v) (\<lambda>m. map_sum id ResponseError (required dec_string ''message'' m))
       else external ''serde''))"

section \<open>Reading back what was written\<close>

lemma dec_map_enc_map:
  assumes "bt_ok m" and "\<And>x. f (g x) = Inr x"
  shows "dec_map f (enc_map g m) = Inr m"
proof -
  have "collect_results (\<lambda>(k, x). and_then (f x) (\<lambda>y. Inr (k, y))) (map (\<lambda>(k, x). (k, g x)) m) = Inr m"
    by (induction m) (auto simp: assms(2))
  then show ?thesis using assms(1) by (simp add: dec_map_def enc_map_def)
qed

lemma json_value_ok: "json_ok v \<Longrightarrow> json_value v = v"
proof (induction v rule: json_value.induct)
  case (1 vs)
  then show ?case by (simp add: map_idI)
next
  case (2 m)
  then have "map (\<lambda>kv. (fst kv, json_value (snd kv))) m = m" by (intro map_idI) auto
  with 2 show ?case by simp
qed simp_all

lemma dec_option_strings [codec_simps]:
  "dec_option dec_string (enc_option JString x) = Inr x"
  by (rule dec_option_enc) simp_all

text \<open>A derivation as the other side reads it: a \<open>meta\<close> of \<open>null\<close> is taken for none.\<close>

definition received_derivation :: "derivation \<Rightarrow> derivation" where
  "received_derivation d = d\<lparr>d_meta := (if d_meta d = Some JNull then None else d_meta d)\<rparr>"

lemma json_drv_json:
  assumes "derivation_ok d"
  shows "json_drv (drv_json d) = Inr (received_derivation d)"
proof -
  let ?drvs = "if d_input_drvs d = [] then [] else [(''input_drvs'', enc_map json_strings (d_input_drvs d))]"
  let ?m = "[(''attr'', JString (d_attr d)), (''attr_path'', json_strings (d_attr_path d)),
       (''name'', JString (d_name d)), (''system'', JString (d_system d)),
       (''drv_path'', JString (d_drv_path d)), (''outputs'', enc_map (enc_option JString) (d_outputs d))] @
       skipped ''meta'' id (d_meta d) @ ?drvs @
       skipped ''constituents'' json_strings (d_constituents d) @
       skipped ''gc_root_error'' JString (d_gc_root_error d)"
  have dist: "distinct (map fst ?m)" by (auto simp: skipped_def split: option.splits)
  have at: "map_of ?m ''meta'' = d_meta d"
    "map_of ?m ''input_drvs'' = (if d_input_drvs d = [] then None else Some (enc_map json_strings (d_input_drvs d)))"
    "map_of ?m ''constituents'' = map_option json_strings (d_constituents d)"
    "map_of ?m ''gc_root_error'' = map_option JString (d_gc_root_error d)"
    by (auto simp: map_of_skipped simp del: map_of_append split: option.split)
  have meta: "optional (\<lambda>v. Inr (json_value v)) ''meta'' ?m = Inr (d_meta (received_derivation d))"
    using assms at(1) unfolding optional_def defaulted_def received_derivation_def
    by (auto simp: derivation_ok_def json_value_ok dec_option_def simp del: map_of_append split: option.split)
  have outputs: "dec_map (dec_option dec_string) (enc_map (enc_option JString) (d_outputs d)) = Inr (d_outputs d)"
    using assms by (intro dec_map_enc_map) (simp_all add: derivation_ok_def dec_option_strings)
  have drvs: "defaulted [] (dec_map (dec_list dec_string)) ''input_drvs'' ?m = Inr (d_input_drvs d)"
    using assms dec_map_enc_map [of "d_input_drvs d" "dec_list dec_string" json_strings] unfolding defaulted_def at
    by (simp add: derivation_ok_def)
  have rest: "optional (dec_list dec_string) ''constituents'' ?m = Inr (d_constituents d)"
    "optional dec_string ''gc_root_error'' ?m = Inr (d_gc_root_error d)"
    unfolding optional_def defaulted_def at by (simp_all add: dec_option_def split: option.split)
  show ?thesis
    unfolding drv_json_def json_drv_def object_fields_JObject [OF dist] and_then_simps meta drvs rest
    by (simp add: outputs received_derivation_def)
qed

lemma json_eval_error_json [simp, codec_simps]: "json_eval_error (eval_error_json e) = Inr e"
  by (cases e) (simp add: json_eval_error_def eval_error_json_def object_fields_def)

text \<open>What arrives as it was sent: ordered maps, and no derivation with a \<open>meta\<close> of \<open>null\<close>.\<close>

definition derivation_sendable :: "derivation \<Rightarrow> bool" where
  "derivation_sendable d \<longleftrightarrow> derivation_ok d \<and> d_meta d \<noteq> Some JNull"

fun event_sendable :: "event \<Rightarrow> bool" where
  "event_sendable (Derivation d) = derivation_sendable d"
| "event_sendable _ = True"

fun response_sendable :: "response \<Rightarrow> bool" where
  "response_sendable (ResponseEvent e) = event_sendable e"
| "response_sendable (ResponseDiff df) = (\<forall>d \<in> set (df_added df @ df_removed df). derivation_sendable d)"
| "response_sendable _ = True"

lemma json_drv_sendable:
  "derivation_sendable d \<Longrightarrow> json_drv (drv_json d) = Inr d"
  using json_drv_json [of d] by (simp add: derivation_sendable_def received_derivation_def)

lemma json_event_json: "event_sendable e \<Longrightarrow> json_event (event_json e) = Inr e"
  by (cases e) (simp_all add: json_event_def json_drv_sendable json_attr_set_def object_fields_def)

lemma json_diff_json:
  assumes "response_sendable (ResponseDiff df)"
  shows "json_diff (diff_json df) = Inr df"
proof -
  have "dec_list json_drv (JArray (map drv_json (df_added df))) = Inr (df_added df)"
    "dec_list json_drv (JArray (map drv_json (df_removed df))) = Inr (df_removed df)"
    "dec_list json_eval_error (JArray (map eval_error_json (df_errors df))) = Inr (df_errors df)"
    using assms by (auto intro!: dec_list_map simp: json_drv_sendable)
  then show ?thesis by (simp add: json_diff_def diff_json_def object_fields_def)
qed

interpretation response_document: codec "\<lambda>r. Inr (response_json r)" json_response response_sendable
proof
  fix r assume "response_sendable r"
  then have "json_response (response_json r) = Inr r"
    by (cases r) (simp_all add: json_response_def object_fields_def json_event_json json_diff_json)
  then show "\<exists>w. Inr (response_json r) = Inr w \<and> json_response w = Inr r" by simp
qed

lemma json_response_json: "response_sendable r \<Longrightarrow> json_response (response_json r) = Inr r"
  using response_document.dec_enc [of r] by simp

text \<open>
  A derivation whose \<open>meta\<close> is \<open>null\<close> reaches the client of a daemon without \<open>meta\<close>: the
  derived reader takes \<open>null\<close> for a missing value, so its line loses the field that a local
  run prints.
\<close>

lemma null_meta_is_lost:
  assumes "derivation_ok d" and "d_meta d = Some JNull"
  shows "json_response (response_json (ResponseEvent (Derivation d))) =
      Inr (ResponseEvent (Derivation (d\<lparr>d_meta := None\<rparr>)))"
    and "event_value (Derivation (d\<lparr>d_meta := None\<rparr>)) \<noteq> event_value (Derivation d)"
proof -
  have received: "received_derivation d = d\<lparr>d_meta := None\<rparr>" using assms(2) by (simp add: received_derivation_def)
  show "json_response (response_json (ResponseEvent (Derivation d))) =
      Inr (ResponseEvent (Derivation (d\<lparr>d_meta := None\<rparr>)))"
    using json_drv_json [OF assms(1)]
    by (simp add: json_response_def json_event_def object_fields_def received)
  have ok: "event_ok (Derivation d)" "event_ok (Derivation (d\<lparr>d_meta := None\<rparr>))"
    using assms(1) by (simp_all add: derivation_ok_def)
  from ok [THEN parse_event_value_roundtrip]
  have "event_value (Derivation (d\<lparr>d_meta := None\<rparr>)) = event_value (Derivation d) \<Longrightarrow>
      Derivation (d\<lparr>d_meta := None\<rparr>) = Derivation d" by simp
  moreover have "d_meta (d\<lparr>d_meta := None\<rparr>) \<noteq> d_meta d" using assms(2) by simp
  ultimately show "event_value (Derivation (d\<lparr>d_meta := None\<rparr>)) \<noteq> event_value (Derivation d)" by fastforce
qed

end
