(* ===== verification/Cli_Main.thy ===== *)
theory Cli_Main
  imports Cli_Args Daemon Serde_Response Paths
begin

text \<open>
  The command-line program (\<open>crates/evix-cli/src/main.rs\<close>): how a plan is run, the rewriting of
  a request so that a daemon with another working directory understands it, the client side
  of the daemon protocol with its fallback to a local run, and the lines that are printed.
  Connecting, the bytes of the daemon's answer, the resolution of paths and the standard
  output are parameters.
\<close>

section \<open>Requests for the daemon\<close>

definition split_flake_fragment :: "string \<Rightarrow> string \<times> string" where
  "split_flake_fragment reference =
     (case split_once CHR ''#'' reference of
        Some (p, fragment) \<Rightarrow> (p, ''#'' @ fragment)
      | None \<Rightarrow> (reference, []))"

definition is_relative_flake_path :: "string \<Rightarrow> bool" where
  "is_relative_flake_path p \<longleftrightarrow>
     p = [] \<or> p = ''.'' \<or> starts_with p ''./'' \<or> starts_with p ''../'' \<or>
     (CHR ''/'' \<in> set p \<and> CHR '':'' \<notin> set p \<and> \<not> is_absolute p)"

definition canonical_flake_path :: "(path \<Rightarrow> path result) \<Rightarrow> string \<Rightarrow> string result" where
  "canonical_flake_path canonicalize p =
     (let p = (if p = [] then ''.'' else p) in
      and_then (with_context (''canonicalizing flake path '' @ p) (canonicalize p)) (\<lambda>canonical.
        if valid_utf8 canonical then Inr canonical
        else bail_fmt ''flake path {path:?} is not valid UTF-8'' [canonical]))"

definition daemon_flake_ref :: "(path \<Rightarrow> path result) \<Rightarrow> string \<Rightarrow> string result" where
  "daemon_flake_ref canonicalize reference =
     (case strip_prefix ''path:'' reference of
        Some path_ref \<Rightarrow>
          (case split_flake_fragment path_ref of (p, fragment) \<Rightarrow>
             and_then (canonical_flake_path canonicalize p) (\<lambda>canonical. Inr (''path:'' @ canonical @ fragment)))
      | None \<Rightarrow>
          (case split_flake_fragment reference of (p, fragment) \<Rightarrow>
             if is_relative_flake_path p \<or> is_absolute p then
               and_then (canonical_flake_path canonicalize p) (\<lambda>canonical. Inr (''path:'' @ canonical @ fragment))
             else Inr reference))"

definition daemon_config :: "(path \<Rightarrow> path result) \<Rightarrow> wire_config \<Rightarrow> wire_config result" where
  "daemon_config canonicalize c =
     and_then (case c_input c of
         InputFile p \<Rightarrow>
           and_then (with_context (''canonicalizing input file '' @ p) (canonicalize p)) (\<lambda>q. Inr (InputFile q))
       | InputFlake reference \<Rightarrow> and_then (daemon_flake_ref canonicalize reference) (\<lambda>r. Inr (InputFlake r))
       | InputExpr e \<Rightarrow> Inr (InputExpr e)) (\<lambda>i. Inr (c\<lparr>c_input := i\<rparr>))"

definition daemon_request :: "(path \<Rightarrow> path result) \<Rightarrow> request \<Rightarrow> request result" where
  "daemon_request canonicalize request =
     (case request of
        RequestEval _ c \<Rightarrow> and_then (daemon_config canonicalize c) (\<lambda>c'. Inr (request_eval c'))
      | RequestReplay _ c \<Rightarrow> and_then (daemon_config canonicalize c) (\<lambda>c'. Inr (request_replay c'))
      | RequestWatch _ c \<Rightarrow> and_then (daemon_config canonicalize c) (\<lambda>c'. Inr (request_watch c'))
      | RequestQuery _ c f \<Rightarrow> and_then (daemon_config canonicalize c) (\<lambda>c'. Inr (request_query c' f))
      | RequestDiff _ c \<Rightarrow> and_then (daemon_config canonicalize c) (\<lambda>c'. Inr (request_diff c')))"

section \<open>Printing\<close>

datatype io_kind = NotFound | BrokenPipe | OtherIo

type_synonym io_error = "io_kind \<times> report"

datatype output_write = OutputContinue | OutputClosed

text \<open>The standard output: what the next write gives after some lines were written.\<close>

type_synonym stdout = "string list \<Rightarrow> io_error + unit"

definition write_output_line :: "stdout \<Rightarrow> string \<Rightarrow> string list \<Rightarrow> output_write result \<times> string list" where
  "write_output_line out line written =
     (case out written of
        Inr _ \<Rightarrow> (Inr OutputContinue, written @ [line])
      | Inl (kind, err) \<Rightarrow>
          if kind = BrokenPipe then (Inr OutputClosed, written)
          else (with_context ''writing stdout'' (Inl err), written))"

text \<open>The items of a stream, printed until one is an error or the output is closed.\<close>

fun print_items :: "stdout \<Rightarrow> string result list \<Rightarrow> string list \<Rightarrow> unit result \<times> string list" where
  "print_items out [] written = (Inr (), written)"
| "print_items out (Inl e # items) written = (Inl e, written)"
| "print_items out (Inr line # items) written =
     (case write_output_line out line written of
        (Inl e, written1) \<Rightarrow> (Inl e, written1)
      | (Inr OutputClosed, written1) \<Rightarrow> (Inr (), written1)
      | (Inr OutputContinue, written1) \<Rightarrow> print_items out items written1)"

definition with_runtime :: "unit result \<Rightarrow> unit result \<times> string list \<Rightarrow> unit result \<times> string list" where
  "with_runtime runtime body =
     (case with_context ''building CLI runtime'' runtime of Inl e \<Rightarrow> (Inl e, []) | Inr _ \<Rightarrow> body)"

text \<open>
  The outside of the program: rendering JSON, the conversion of session errors, the run
  behind an evaluation, the loop behind a watch.
\<close>

record cli_env =
  ce_to_string :: "json \<Rightarrow> string"
  ce_from_str :: "string \<Rightarrow> response result"
  ce_report :: "session_error \<Rightarrow> report"
  ce_render :: "report \<Rightarrow> string"
  ce_runtime :: "unit result"
  ce_run :: "config \<Rightarrow> master_run"
  ce_watch :: "session \<Rightarrow> unit result option \<times> warm_state \<times> watch_items"
  ce_stdout :: stdout
  ce_canonicalize :: "path \<Rightarrow> path result"
  ce_uid :: u32
  ce_socket :: "path option"

definition run_local_eval :: "cli_env \<Rightarrow> config \<Rightarrow> unit result \<times> string list" where
  "run_local_eval ce c = with_runtime (ce_runtime ce)
     (case stream_bounded (ce_render ce) True True True (ce_run ce c) DEFAULT_STREAM_BUFFER_CAPACITY (session_open c) of
        (items, _) \<Rightarrow>
          print_items (ce_stdout ce) (map (map_sum (ce_report ce) (event_line (ce_to_string ce))) items) [])"

definition run_local_watch :: "cli_env \<Rightarrow> config \<Rightarrow> unit result \<times> string list" where
  "run_local_watch ce c = with_runtime (ce_runtime ce)
     (case session_watch_bounded (ce_render ce) True True (ce_watch ce) (ce_run ce c)
            DEFAULT_STREAM_BUFFER_CAPACITY (session_open c) of
        (items, _) \<Rightarrow>
          print_items (ce_stdout ce) (map (map_sum (ce_report ce) (diff_line (ce_to_string ce))) items) [])"

section \<open>The client of the daemon\<close>

text \<open>The responses, by lines; the end of the list is the end of the connection.\<close>

fun response_loop ::
  "cli_env \<Rightarrow> bool \<Rightarrow> string result list \<Rightarrow> string list \<Rightarrow> unit result \<times> string list" where
  "response_loop ce expect_done [] written =
     (if expect_done then bail ''daemon closed connection before completing request'' else Inr (), written)"
| "response_loop ce expect_done (Inl e # lines) written = (Inl e, written)"
| "response_loop ce expect_done (Inr line # lines) written =
     (if trim line = [] then response_loop ce expect_done lines written
      else
        (case ce_from_str ce line of
           Inl e \<Rightarrow> (Inl e, written)
         | Inr ResponseDone \<Rightarrow> (Inr (), written)
         | Inr (ResponseError message) \<Rightarrow> (bail message, written)
         | Inr (ResponseEvent event) \<Rightarrow>
             (case write_output_line (ce_stdout ce) (event_line (ce_to_string ce) event) written of
                (Inl e, written1) \<Rightarrow> (Inl e, written1)
              | (Inr OutputClosed, written1) \<Rightarrow> (Inr (), written1)
              | (Inr OutputContinue, written1) \<Rightarrow> response_loop ce expect_done lines written1)
         | Inr (ResponseDiff d) \<Rightarrow>
             (case write_output_line (ce_stdout ce) (diff_line (ce_to_string ce) d) written of
                (Inl e, written1) \<Rightarrow> (Inl e, written1)
              | (Inr OutputClosed, written1) \<Rightarrow> (Inr (), written1)
              | (Inr OutputContinue, written1) \<Rightarrow> response_loop ce expect_done lines written1)))"

text \<open>A connected daemon: what sending a request gives, and the lines it answers with.\<close>

record daemon_stream =
  ds_send :: "request \<Rightarrow> unit result"
  ds_lines :: "request \<Rightarrow> string result list"

definition run_daemon_request :: "cli_env \<Rightarrow> daemon_stream \<Rightarrow> request \<Rightarrow> unit result \<times> string list" where
  "run_daemon_request ce conn request =
     (case ds_send conn request of
        Inl e \<Rightarrow> (Inl e, [])
      | Inr _ \<Rightarrow>
          response_loop ce (case request of RequestWatch _ _ \<Rightarrow> False | _ \<Rightarrow> True) (ds_lines conn request) [])"

definition allows_local_fallback :: "io_error \<Rightarrow> bool" where
  "allows_local_fallback err \<longleftrightarrow> fst err = NotFound"

definition daemon_connect_error :: "path \<Rightarrow> io_error \<Rightarrow> unit result" where
  "daemon_connect_error socket err = with_context (''connecting to evix daemon at '' @ socket) (Inl (snd err))"

definition run_client_or_local ::
  "cli_env \<Rightarrow> (path \<Rightarrow> io_error + daemon_stream) \<Rightarrow> request \<Rightarrow> path option \<Rightarrow> unit result \<times> string list
    \<Rightarrow> unit result \<times> string list" where
  "run_client_or_local ce connect request socket fallback =
     (let socket = socket_path (ce_uid ce) (ce_socket ce) socket in
      case connect socket of
        Inr conn \<Rightarrow> run_daemon_request ce conn request
      | Inl err \<Rightarrow>
          if allows_local_fallback err then fallback else (daemon_connect_error socket err, []))"

definition run_daemon_only ::
  "cli_env \<Rightarrow> (path \<Rightarrow> io_error + daemon_stream) \<Rightarrow> request \<Rightarrow> path option \<Rightarrow> unit result \<times> string list" where
  "run_daemon_only ce connect request socket =
     (let socket = socket_path (ce_uid ce) (ce_socket ce) socket in
      case connect socket of
        Inr conn \<Rightarrow> run_daemon_request ce conn request
      | Inl err \<Rightarrow> (daemon_connect_error socket err, []))"

text \<open>\<open>serve_daemon\<close> and \<open>serve_worker\<close> are the two services, which run until they fail.\<close>

definition run_plan ::
  "cli_env \<Rightarrow> (path \<Rightarrow> io_error + daemon_stream) \<Rightarrow> (path \<Rightarrow> bool \<Rightarrow> unit result) \<Rightarrow> (string \<Rightarrow> string option \<Rightarrow> unit result)
    \<Rightarrow> command_plan \<Rightarrow> unit result \<times> string list" where
  "run_plan ce connect serve_daemon serve_worker plan =
     (let request = (\<lambda>r. daemon_request (ce_canonicalize ce) r) in
      case plan of
        PlanEval c socket use_daemon replay \<Rightarrow>
          if use_daemon then
            (case request (if replay then request_replay (wire_of_config c) else request_eval (wire_of_config c)) of
               Inl e \<Rightarrow> (Inl e, [])
             | Inr r \<Rightarrow>
                 if replay then run_daemon_only ce connect r socket
                 else run_client_or_local ce connect r socket (run_local_eval ce c))
          else run_local_eval ce c
      | PlanWatch c socket use_daemon \<Rightarrow>
          if use_daemon then
            (case request (request_watch (wire_of_config c)) of
               Inl e \<Rightarrow> (Inl e, [])
             | Inr r \<Rightarrow> run_client_or_local ce connect r socket (run_local_watch ce c))
          else run_local_watch ce c
      | PlanQuery c f socket \<Rightarrow>
          (case request (request_query (wire_of_config c) f) of
             Inl e \<Rightarrow> (Inl e, [])
           | Inr r \<Rightarrow> run_daemon_only ce connect r socket)
      | PlanDiff c socket \<Rightarrow>
          (case request (request_diff (wire_of_config c)) of
             Inl e \<Rightarrow> (Inl e, [])
           | Inr r \<Rightarrow> run_daemon_only ce connect r socket)
      | PlanDaemon socket foreground \<Rightarrow>
          (serve_daemon (socket_path (ce_uid ce) (ce_socket ce) socket) foreground, [])
      | PlanWorker listen token \<Rightarrow> with_runtime (ce_runtime ce) (serve_worker listen token, []))"

text \<open>
  The entry point: a worker subprocess serves its protocol and ends; otherwise the command
  runs. The result is the exit status.
\<close>

definition run_worker_if_requested :: "bool \<Rightarrow> unit result \<Rightarrow> bool result" where
  "run_worker_if_requested worker_env run_worker =
     (if \<not> worker_env then Inr False else and_then run_worker (\<lambda>_. Inr True))"

definition main_status :: "bool \<Rightarrow> unit result \<Rightarrow> unit result \<Rightarrow> nat" where
  "main_status worker_env run_worker run_cli =
     (case run_worker_if_requested worker_env run_worker of
        Inr True \<Rightarrow> 0
      | Inl _ \<Rightarrow> 1
      | Inr False \<Rightarrow> (case run_cli of Inl _ \<Rightarrow> 1 | Inr _ \<Rightarrow> 0))"

section \<open>The daemon's answer, line by line\<close>

text \<open>
  What is needed of the text of a JSON document: it parses back to the document, and is one
  line that is not blank.
\<close>

definition json_line :: "(json \<Rightarrow> string) \<Rightarrow> (string \<Rightarrow> json result) \<Rightarrow> json \<Rightarrow> bool" where
  "json_line print parse v \<longleftrightarrow>
     parse (print v) = Inr v \<and> CHR 0x0A \<notin> set (print v) \<and> trim (print v) \<noteq> [] \<and>
     (print v = [] \<or> last (print v) \<noteq> CHR 0x0D)"

text \<open>The responses of a completed run, in any order.\<close>

definition run_responses :: "master_run \<Rightarrow> response set" where
  "run_responses run = insert ResponseDone (ResponseEvent ` set (fst run))"

lemma eval_items_lines:
  assumes "eval_items en (map Inr evs) recorded k = (Inr (), rec, k')"
  shows "\<exists>ls. list_all2 (\<lambda>e l. en_to_vec en (ResponseEvent e) = Inr l) evs ls \<and>
    k_out k' = k_out k @ concat (map (\<lambda>l. l @ [CHR 0x0A]) ls)"
  using assms
proof (induction evs arbitrary: recorded k)
  case (Cons e evs)
  then obtain l k1 where l: "en_to_vec en (ResponseEvent e) = Inr l"
    and k1: "write_all (l @ [CHR 0x0A]) k = (Inr (), k1)"
    and rest: "eval_items en (map Inr evs) (map_option (\<lambda>r. r @ l @ [CHR 0x0A]) recorded) k1 = (Inr (), rec, k')"
    by (auto simp: response_line_def and_then_Ok_iff split: sum.splits prod.splits)
  from Cons.IH [OF rest] obtain ls where "list_all2 (\<lambda>e l. en_to_vec en (ResponseEvent e) = Inr l) evs ls"
    "k_out k' = k_out k1 @ concat (map (\<lambda>l. l @ [CHR 0x0A]) ls)" by blast
  with l k1 show ?case by (intro exI [of _ "l # ls"]) (auto dest!: write_all_out)
qed simp

lemma handle_eval_lines:
  assumes "handle_eval en run c d k = (Inr (), d1, k1)" and "snd run = Inr Completed"
  shows "\<exists>ls dn. list_all2 (\<lambda>e l. en_to_vec en (ResponseEvent e) = Inr l) (fst run) ls \<and>
    en_to_vec en ResponseDone = Inr dn \<and> k_out k1 = k_out k @ concat (map (\<lambda>l. l @ [CHR 0x0A]) (ls @ [dn]))"
proof -
  obtain items s where st: "stream (en_render en) True True True run (session_open c) = (items, s)" by force
  with stream_open_completed [OF assms(2), of "en_render en" c] have items: "items = map Inr (fst run)" by simp
  obtain w rec k' where ev: "eval_items en (map Inr (fst run)) (Some []) k = (w, rec, k')" by (metis prod_cases3)
  from assms(1) st ev have w: "w = Inr ()" and dn: "\<exists>k2. write_response (en_to_vec en) ResponseDone k' = (Inr (), k2) \<and> k2 = k1"
    by (auto simp: handle_eval_def items Let_def split: prod.splits sum.splits)
  from eval_items_lines [OF ev [unfolded w]] obtain ls where
    ls: "list_all2 (\<lambda>e l. en_to_vec en (ResponseEvent e) = Inr l) (fst run) ls"
    "k_out k' = k_out k @ concat (map (\<lambda>l. l @ [CHR 0x0A]) ls)" by blast
  from dn obtain l where "en_to_vec en ResponseDone = Inr l" "k_out k1 = k_out k' @ l @ [CHR 0x0A]"
    by (auto simp: write_response_def response_line_def and_then_Ok_iff split: sum.splits dest!: write_all_out)
  with ls show ?thesis by (intro exI [of _ ls] exI [of _ l]) simp
qed

lemma response_loop_events:
  assumes "\<And>r. r \<in> insert ResponseDone (ResponseEvent ` set evs) \<Longrightarrow>
      ce_from_str ce (line r) = Inr r \<and> trim (line r) \<noteq> []"
  shows "response_loop ce expect_done (map Inr (map (\<lambda>e. line (ResponseEvent e)) evs @ [line ResponseDone])) written =
    print_items (ce_stdout ce) (map (\<lambda>e. Inr (event_line (ce_to_string ce) e)) evs) written"
  using assms
proof (induction evs arbitrary: written)
  case (Cons e evs)
  then have "ce_from_str ce (line (ResponseEvent e)) = Inr (ResponseEvent e)" "trim (line (ResponseEvent e)) \<noteq> []"
    by auto
  moreover have "response_loop ce expect_done
      (map Inr (map (\<lambda>e. line (ResponseEvent e)) evs @ [line ResponseDone])) x =
      print_items (ce_stdout ce) (map (\<lambda>e. Inr (event_line (ce_to_string ce) e)) evs) x" for x
    by (rule Cons.IH) (use Cons.prems in auto)
  ultimately show ?case by (simp add: comp_def split: sum.split prod.split output_write.split)
qed simp

section \<open>The claims\<close>

text \<open>
  C39. With or without a daemon, the same lines: when a daemon has fully answered an eval
  request whose run completed, the client prints from the bytes it wrote exactly what a local
  evaluation with that run prints, and ends the same way, also when the standard output is
  closed or fails at some line. Both ends convert responses as the derived implementations do.
  The conditions are that the text of the documents of this run parses back and is one line
  that is not blank, that the maps of its events are ordered, and that no derivation has a
  \<open>meta\<close> of \<open>null\<close>, which the daemon's client would lose.
\<close>

theorem daemon_eval_prints_like_local:
  assumes "handle_eval en run c d k = (Inr (), d1, k1)" and "snd run = Inr Completed" and "k_out k = []"
    and "en_to_vec en = (\<lambda>r. Inr (print (response_json r)))"
    and "ce_from_str ce = (\<lambda>line. and_then (parse line) json_response)"
    and "\<forall>r \<in> run_responses run. json_line print parse (response_json r) \<and> response_sendable r"
    and "ce_run ce c = run" and "ce_runtime ce = Inr ()"
    and "ds_send conn request = Inr ()" and "request = request_eval (wire_of_config c)"
    and "ds_lines conn request = map Inr (read_lines (k_out k1))"
  shows "run_daemon_request ce conn request = run_local_eval ce c"
proof -
  let ?line = "\<lambda>r. print (response_json r)"
  let ?ls = "map (\<lambda>e. ?line (ResponseEvent e)) (fst run) @ [?line ResponseDone]"
  have reads: "ce_from_str ce (?line r) = Inr r \<and> trim (?line r) \<noteq> [] \<and> CHR 0x0A \<notin> set (?line r) \<and>
      (?line r = [] \<or> last (?line r) \<noteq> CHR 0x0D)" if "r \<in> run_responses run" for r
    using assms(6) that json_response_json by (simp add: assms(5) json_line_def)
  have "list_all2 (\<lambda>e l. en_to_vec en (ResponseEvent e) = Inr l) evs ls \<Longrightarrow>
      ls = map (\<lambda>e. ?line (ResponseEvent e)) evs" for evs ls
    by (induction rule: list_all2_induct) (simp_all add: assms(4))
  with handle_eval_lines [OF assms(1,2)] assms(3)
  have out: "k_out k1 = concat (map (\<lambda>l. l @ [CHR 0x0A]) ?ls)"
    by (metis append_Nil assms(4) sum.inject(2))
  have lines: "read_lines (k_out k1) = ?ls"
    unfolding out by (rule read_lines_lines) (use reads in \<open>auto simp: run_responses_def simp del: response_json.simps\<close>)
  have "run_daemon_request ce conn request =
      print_items (ce_stdout ce) (map (\<lambda>e. Inr (event_line (ce_to_string ce) e)) (fst run)) []"
    using assms(9-11) response_loop_events [of "fst run" ce ?line True "[]"] reads
    by (simp add: run_daemon_request_def lines request_eval_def run_responses_def)
  moreover have "fst (stream (ce_render ce) True True True run (session_open c)) = map Inr (fst run)"
    by (rule stream_open_completed [OF assms(2)])
  ultimately show ?thesis
    using assms(7,8)
    by (simp add: run_local_eval_def with_runtime_def bounded_streams_same_items case_prod_beta comp_def)
qed

text \<open>The configuration of a request, and the request for another one at the current version.\<close>

fun request_config :: "request \<Rightarrow> wire_config" where
  "request_config (RequestEval v c) = c"
| "request_config (RequestReplay v c) = c"
| "request_config (RequestWatch v c) = c"
| "request_config (RequestQuery v c f) = c"
| "request_config (RequestDiff v c) = c"

fun request_for :: "wire_config \<Rightarrow> request \<Rightarrow> request" where
  "request_for c' (RequestEval v c) = request_eval c'"
| "request_for c' (RequestReplay v c) = request_replay c'"
| "request_for c' (RequestWatch v c) = request_watch c'"
| "request_for c' (RequestQuery v c f) = request_query c' f"
| "request_for c' (RequestDiff v c) = request_diff c'"

lemma daemon_request_Ok:
  "daemon_request canonicalize r = Inr r' \<longleftrightarrow>
     (\<exists>c. daemon_config canonicalize (request_config r) = Inr c \<and> r' = request_for c r)"
  by (cases r) (auto simp: daemon_request_def and_then_Ok_iff)

lemma request_for_version: "validate_protocol (request_for c r) = Inr ()"
  by (cases r) (simp_all add: validate_protocol_def request_eval_def request_replay_def request_watch_def
      request_query_def request_diff_def)

text \<open>A reference is a path with a fragment, possibly empty.\<close>

definition path_and_fragment :: "string \<Rightarrow> string \<Rightarrow> string \<Rightarrow> bool" where
  "path_and_fragment reference p fragment \<longleftrightarrow>
     reference = p @ fragment \<and> CHR ''#'' \<notin> set p \<and> (fragment = [] \<or> hd fragment = CHR ''#'')"

lemma split_flake_fragment_parts:
  "split_flake_fragment reference = (p, fragment) \<Longrightarrow> path_and_fragment reference p fragment"
  by (auto simp: split_flake_fragment_def path_and_fragment_def split_once_None_iff split_once_Some_iff
      split: option.splits)

definition ex_built :: event where
  "ex_built = Derivation \<lparr>d_attr = ''a'', d_attr_path = [''a''], d_name = ''n'', d_system = ''s'',
     d_drv_path = ''/nix/store/n.drv'', d_outputs = [(''out'', Some ''/nix/store/n'')],
     d_meta = Some (JObject [(''broken'', JBool False)]), d_input_drvs = [], d_constituents = None,
     d_gc_root_error = None\<rparr>"

text \<open>A printer of three documents and its parser.\<close>

definition ex_print :: "json \<Rightarrow> string" where
  "ex_print v =
     (if v = response_json ResponseDone then ''D''
      else if v = response_json (ResponseEvent ex_built) then ''B'' else ''A'')"

definition ex_parse :: "string \<Rightarrow> json result" where
  "ex_parse s =
     (if s = ''D'' then Inr (response_json ResponseDone)
      else if s = ''B'' then Inr (response_json (ResponseEvent ex_built))
      else if s = ''A'' then Inr (response_json (ResponseEvent (AttrSet [] [] [''a''])))
      else external ''json'')"

definition ex_daemon_env :: env where
  "ex_daemon_env = \<lparr>en_key = (\<lambda>_. Inr ''k''), en_to_vec = (\<lambda>r. Inr (ex_print (response_json r))),
     en_from_str = (\<lambda>_. external ''json''), en_render = (\<lambda>_. [])\<rparr>"

definition ex_cli :: cli_env where
  "ex_cli = \<lparr>ce_to_string = (\<lambda>_. ''line''),
     ce_from_str = (\<lambda>line. and_then (ex_parse line) json_response),
     ce_report = (\<lambda>e. Report [] (Message (display_error e))), ce_render = (\<lambda>_. []), ce_runtime = Inr (),
     ce_run = (\<lambda>_. ([AttrSet [] [] [''a''], ex_built], Inr Completed)),
     ce_watch = (\<lambda>s. (None, ss_state s, [])),
     ce_stdout = (\<lambda>written. if length written < 9 then Inr () else Inl (BrokenPipe, Report [] (Message []))),
     ce_canonicalize = Inr, ce_uid = 0, ce_socket = None\<rparr>"

definition ex_handled :: "unit result \<times> daemon \<times> sock" where
  "ex_handled = handle_eval ex_daemon_env (ce_run ex_cli default_config) default_config initial_daemon
     \<lparr>k_out = [], k_room = None\<rparr>"

definition ex_stream_of_daemon :: daemon_stream where
  "ex_stream_of_daemon = \<lparr>ds_send = (\<lambda>_. Inr ()), ds_lines = (\<lambda>_. map Inr (read_lines (k_out (snd (snd ex_handled)))))\<rparr>"

theorem daemon_eval_prints_like_local_witness:
  "run_daemon_request ex_cli ex_stream_of_daemon (request_eval (wire_of_config default_config)) =
     run_local_eval ex_cli default_config"
proof (rule daemon_eval_prints_like_local)
  have "fst ex_handled = Inr ()" by code_simp
  then show "handle_eval ex_daemon_env (ce_run ex_cli default_config) default_config initial_daemon
      \<lparr>k_out = [], k_room = None\<rparr> = (Inr (), fst (snd ex_handled), snd (snd ex_handled))"
    by (simp add: ex_handled_def [symmetric] prod_eq_iff)
  have trimmed: "trim ''D'' \<noteq> []" "trim ''B'' \<noteq> []" "trim ''A'' \<noteq> []"
    by (simp_all add: trim_def white_piece_def is_whitespace_def)
  have "ex_print (response_json ResponseDone) = ''D''" "ex_print (response_json (ResponseEvent ex_built)) = ''B''"
    "ex_print (response_json (ResponseEvent (AttrSet [] [] [''a'']))) = ''A''"
    by (simp_all add: ex_print_def ex_built_def)
  moreover have "response_sendable (ResponseEvent ex_built)"
    by (simp add: ex_built_def derivation_sendable_def derivation_ok_def bt_ok_def)
  ultimately show "\<forall>r \<in> run_responses (ce_run ex_cli default_config).
      json_line ex_print ex_parse (response_json r) \<and> response_sendable r"
    using trimmed by (simp add: run_responses_def ex_cli_def json_line_def ex_parse_def)
qed (simp_all add: ex_cli_def ex_daemon_env_def ex_stream_of_daemon_def)

end
