(* ===== verification/Coordinator.thy ===== *)
theory Coordinator
  imports Scheduler
begin

text \<open>
  The evaluation coordinator of \<open>crates/evix/src/async_master.rs\<close>: \<open>dispatch_available\<close>,
  the \<open>coordinate\<close> loop, and the worker pool it talks to. One iteration of the loop is
  \<open>coordinate_turn\<close>; what it reads from outside (the cancellation flag, whether a worker's
  command channel is open, the message it receives, the answer of the event sink) is a
  \<open>turn\<close>. \<open>sys_turn\<close> adds the pool: which worker holds which item, which forked workers have
  not reported ready. Workers answer in any order; the theorems hold for every order.
\<close>

section \<open>The coordinator\<close>

datatype worker_message =
    Ready nat
  | WorkResult nat work_item "event result"
  | WorkerCancelled
  | Exited string

datatype dispatch_state = Running | DispatchDone

fun dispatch_loop ::
  "(nat \<Rightarrow> bool) \<Rightarrow> worker_spec list \<Rightarrow> nat \<Rightarrow> scheduler \<Rightarrow> nat list \<Rightarrow> (nat \<times> work_item) list \<Rightarrow>
    dispatch_state result \<times> scheduler \<times> nat list \<times> (nat \<times> work_item) list"
where
  "dispatch_loop send_ok workers 0 s idle sent = (Inr Running, s, idle, sent)"
| "dispatch_loop send_ok workers (Suc k) s idle sent =
     (case idle of
        [] \<Rightarrow> (bail ''idle worker queue changed while dispatching'', s, idle, sent)
      | worker_id # idle' \<Rightarrow>
          if worker_id \<ge> length workers then (panic, s, idle', sent)
          else
            (case next_for (sp_id (workers ! worker_id)) s of
               (Dispatch item, s') \<Rightarrow>
                 if send_ok worker_id
                 then dispatch_loop send_ok workers k s' idle' (sent @ [(worker_id, item)])
                 else
                   (with_context (''sending work to worker '' @ sp_label (workers ! worker_id))
                      (external ''tokio''), s', idle', sent)
             | (Wait, s') \<Rightarrow> dispatch_loop send_ok workers k s' (idle' @ [worker_id]) sent
             | (WorkDone, s') \<Rightarrow> (Inr DispatchDone, s', idle', sent)
             | (Fatal e, s') \<Rightarrow> (bail e, s', idle', sent)))"

definition dispatch_available ::
  "(nat \<Rightarrow> bool) \<Rightarrow> worker_spec list \<Rightarrow> scheduler \<Rightarrow> nat list \<Rightarrow>
    dispatch_state result \<times> scheduler \<times> nat list \<times> (nat \<times> work_item) list"
where
  "dispatch_available send_ok workers s idle = dispatch_loop send_ok workers (length idle) s idle []"

record turn =
  t_cancel :: bool
  t_send_ok :: "nat \<Rightarrow> bool"
  t_recv :: "worker_message option"
  t_sink :: "event \<Rightarrow> unit result"

record turn_result =
  tr_sched :: scheduler
  tr_idle :: "nat list"
  tr_sent :: "(nat \<times> work_item) list"
  tr_received :: "worker_message option"
  tr_emitted :: "event list"
  tr_exit :: "run_outcome result option"

definition received_event :: "(report \<Rightarrow> string) \<Rightarrow> worker_spec \<Rightarrow> work_item \<Rightarrow> event result \<Rightarrow> event" where
  "received_event render spec item r =
     (case r of Inr event \<Rightarrow> event | Inl err \<Rightarrow> worker_failure_event render spec item err)"

text \<open>A turn that leaves the loop, and the match on the received message.\<close>

definition stopped ::
  "scheduler \<Rightarrow> nat list \<Rightarrow> (nat \<times> work_item) list \<Rightarrow> worker_message option \<Rightarrow> run_outcome result \<Rightarrow> turn_result"
where
  "stopped s idle sent received exit =
     \<lparr>tr_sched = s, tr_idle = idle, tr_sent = sent, tr_received = received, tr_emitted = [],
      tr_exit = Some exit\<rparr>"

definition handle_result ::
  "(report \<Rightarrow> string) \<Rightarrow> worker_spec list \<Rightarrow> turn \<Rightarrow> nat \<Rightarrow> work_item \<Rightarrow> event result \<Rightarrow>
    scheduler \<Rightarrow> nat list \<Rightarrow> (nat \<times> work_item) list \<Rightarrow> turn_result"
where
  "handle_result render specs t worker_id item r s1 idle1 sent =
     (let idle2 = idle1 @ [worker_id] in
      if worker_id \<ge> length specs then stopped s1 idle2 sent (t_recv t) panic
      else
        let spec = specs ! worker_id;
            event = received_event render spec item r
        in case complete spec specs item event s1 of (completed, s2) \<Rightarrow>
          let sink = (if cw_emit completed
                then with_context ''event sink returned an error'' (t_sink t event)
                else Inr ())
          in \<lparr>tr_sched = s2, tr_idle = idle2, tr_sent = sent,
              tr_received = t_recv t,
              tr_emitted = (if cw_emit completed then [event] else []),
              tr_exit =
                (case sink of
                   Inl e \<Rightarrow> Some (Inl e)
                 | Inr _ \<Rightarrow> map_option bail (cw_fatal_error completed))\<rparr>)"

definition handle_message ::
  "(report \<Rightarrow> string) \<Rightarrow> worker_spec list \<Rightarrow> turn \<Rightarrow> scheduler \<Rightarrow> nat list \<Rightarrow> (nat \<times> work_item) list \<Rightarrow> turn_result"
where
  "handle_message render specs t s1 idle1 sent =
     (case t_recv t of
        None \<Rightarrow>
          stopped s1 idle1 sent None
            (bail ''all worker tasks exited before evaluation completed'')
      | Some WorkerCancelled \<Rightarrow> stopped s1 idle1 sent (t_recv t) (Inr Cancelled)
      | Some (Exited e) \<Rightarrow> stopped s1 idle1 sent (t_recv t) (bail e)
      | Some (Ready worker_id) \<Rightarrow>
          \<lparr>tr_sched = s1, tr_idle = idle1 @ [worker_id], tr_sent = sent,
           tr_received = t_recv t, tr_emitted = [], tr_exit = None\<rparr>
      | Some (WorkResult worker_id item r) \<Rightarrow>
          handle_result render specs t worker_id item r s1 idle1 sent)"

definition coordinate_turn ::
  "(report \<Rightarrow> string) \<Rightarrow> worker_spec list \<Rightarrow> turn \<Rightarrow> scheduler \<Rightarrow> nat list \<Rightarrow> turn_result"
where
  "coordinate_turn render specs t s idle =
     (if t_cancel t then stopped s idle [] None (Inr Cancelled)
      else
        (case dispatch_available (t_send_ok t) specs s idle of (d, s1, idle1, sent) \<Rightarrow>
          (case d of
             Inl e \<Rightarrow> stopped s1 idle1 sent None (Inl e)
           | Inr DispatchDone \<Rightarrow> stopped s1 idle1 sent None (Inr Completed)
           | Inr Running \<Rightarrow>
               if is_done s1 then stopped s1 idle1 sent None (Inr Completed)
               else if \<not> has_active_work s1 \<and> length idle1 = length specs then
                 stopped s1 idle1 sent None (bail ''scheduler stalled with no active workers'')
               else handle_message render specs t s1 idle1 sent)))"

section \<open>The worker pool\<close>

record sys =
  y_sched :: scheduler
  y_idle :: "nat list"
  y_busy :: "(nat \<times> work_item) list"
  y_starting :: "nat list"
  y_done :: "(attr_path \<times> event) list"
  y_emitted :: "event list"

definition initial_idle :: "worker_spec list \<Rightarrow> nat list" where
  "initial_idle specs = filter (\<lambda>id. \<not> is_forked (specs ! id)) [0..<length specs]"

definition initial_sys :: "worker_spec list \<Rightarrow> sys" where
  "initial_sys specs = \<lparr>y_sched = initial_scheduler, y_idle = initial_idle specs, y_busy = [],
     y_starting = filter (\<lambda>id. is_forked (specs ! id)) [0..<length specs],
     y_done = [], y_emitted = []\<rparr>"

definition sys_turn ::
  "(report \<Rightarrow> string) \<Rightarrow> worker_spec list \<Rightarrow> turn \<Rightarrow> sys \<Rightarrow> sys \<times> run_outcome result option"
where
  "sys_turn render specs t y =
     (let r = coordinate_turn render specs t (y_sched y) (y_idle y);
          busy = y_busy y @ tr_sent r;
          y1 = y\<lparr>y_sched := tr_sched r, y_idle := tr_idle r, y_busy := busy,
                 y_emitted := y_emitted y @ tr_emitted r\<rparr>
      in ((case tr_received r of
             Some (Ready w) \<Rightarrow> y1\<lparr>y_starting := remove1 w (y_starting y)\<rparr>
           | Some (WorkResult w item res) \<Rightarrow>
               y1\<lparr>y_busy := remove1 (w, item) busy,
                  y_done := y_done y @ [(wi_path item, received_event render (specs ! w) item res)]\<rparr>
           | _ \<Rightarrow> y1), tr_exit r))"

fun sys_run ::
  "(report \<Rightarrow> string) \<Rightarrow> worker_spec list \<Rightarrow> turn list \<Rightarrow> sys \<Rightarrow> sys \<times> run_outcome result option"
where
  "sys_run render specs [] y = (y, None)"
| "sys_run render specs (t # ts) y =
     (case sys_turn render specs t y of
        (y', Some exit) \<Rightarrow> (y', Some exit)
      | (y', None) \<Rightarrow> sys_run render specs ts y')"

text \<open>
  What the pool may do: a forked worker reports ready once; a worker answers the item it
  holds, and the event the coordinator makes of the answer (the worker's event, or the
  failure event when the worker died or timed out) is the one \<open>answer\<close> gives the path.
\<close>

definition turn_ok ::
  "(attr_path \<Rightarrow> event) \<Rightarrow> (report \<Rightarrow> string) \<Rightarrow> worker_spec list \<Rightarrow> turn \<Rightarrow> sys \<Rightarrow> bool"
where
  "turn_ok answer render specs t y =
     (case t_recv t of
        Some (Ready w) \<Rightarrow> w \<in> set (y_starting y)
      | Some (WorkResult w item r) \<Rightarrow>
          (w, item) \<in> set (y_busy y @
             (case dispatch_available (t_send_ok t) specs (y_sched y) (y_idle y) of
                (d, s1, idle1, sent) \<Rightarrow> sent)) \<and>
          received_event render (specs ! w) item r = answer (wi_path item)
      | _ \<Rightarrow> True)"

fun turns_ok ::
  "(attr_path \<Rightarrow> event) \<Rightarrow> (report \<Rightarrow> string) \<Rightarrow> worker_spec list \<Rightarrow> turn list \<Rightarrow> sys \<Rightarrow> bool"
where
  "turns_ok answer render specs [] y = True"
| "turns_ok answer render specs (t # ts) y =
     (turn_ok answer render specs t y \<and>
      (case sys_turn render specs t y of
         (y', None) \<Rightarrow> turns_ok answer render specs ts y'
       | _ \<Rightarrow> True))"

section \<open>The attribute tree\<close>

fun child_paths :: "attr_path \<Rightarrow> event \<Rightarrow> attr_path list" where
  "child_paths p (AttrSet _ _ attrs) = map (\<lambda>name. p @ [name]) attrs"
| "child_paths p _ = []"

lemma child_paths_length: "q \<in> set (child_paths p e) \<Longrightarrow> length q = Suc (length p)"
  by (cases e) auto

fun tree_level :: "(attr_path \<Rightarrow> event) \<Rightarrow> nat \<Rightarrow> attr_path list" where
  "tree_level answer 0 = [[]]"
| "tree_level answer (Suc k) = concat (map (\<lambda>p. child_paths p (answer p)) (tree_level answer k))"

text \<open>Level order down to depth \<open>d\<close>; complete when attribute sets end there.\<close>

definition attr_tree :: "(attr_path \<Rightarrow> event) \<Rightarrow> nat \<Rightarrow> attr_path list" where
  "attr_tree answer d = concat (map (tree_level answer) [0..<Suc d])"

definition depth_bounded :: "(attr_path \<Rightarrow> event) \<Rightarrow> nat \<Rightarrow> bool" where
  "depth_bounded answer d \<longleftrightarrow> (\<forall>p. d \<le> length p \<longrightarrow> child_paths p (answer p) = [])"

subsection \<open>A multiset of paths closed under expansion is the tree\<close>

definition expand :: "(attr_path \<Rightarrow> event) \<Rightarrow> attr_path multiset \<Rightarrow> attr_path multiset" where
  "expand answer M = (\<Sum>p \<in># M. mset (child_paths p (answer p)))"

abbreviation at_level :: "nat \<Rightarrow> attr_path multiset \<Rightarrow> attr_path multiset" where
  "at_level k M \<equiv> filter_mset (\<lambda>p. length p = k) M"

lemma mset_concat_child_paths:
  "mset (concat (map (\<lambda>p. child_paths p (answer p)) ps)) = expand answer (mset ps)"
  by (induction ps) (simp_all add: expand_def)

lemma Nil_not_in_expand [simp]: "[] \<notin># expand answer M"
  by (auto simp: expand_def dest: child_paths_length)

lemma at_level_expand_0: "at_level 0 (expand answer M) = {#}"
  by (auto simp: filter_mset_eq_mempty_iff)

lemma at_level_child_paths:
  "at_level (Suc k) (mset (child_paths p e)) = (if length p = k then mset (child_paths p e) else {#})"
  by (auto simp: filter_mset_eq_conv filter_mset_eq_mempty_iff dest: child_paths_length)

lemma at_level_expand_Suc: "at_level (Suc k) (expand answer M) = expand answer (at_level k M)"
  by (induction M) (simp_all add: expand_def at_level_child_paths)

lemma expand_mono: "M \<subseteq># N \<Longrightarrow> expand answer M \<subseteq># expand answer N"
  by (auto simp: expand_def subset_mset.le_iff_add)

lemma at_level_mono: "M \<subseteq># N \<Longrightarrow> at_level k M \<subseteq># at_level k N"
  by (rule multiset_filter_mono)

lemma tree_level_expand:
  "mset (tree_level answer (Suc k)) = expand answer (mset (tree_level answer k))"
  by (simp add: mset_concat_child_paths)

lemma tree_level_0: "at_level 0 {#[]#} = mset (tree_level answer 0)"
  by simp

lemma at_level_root_Suc [simp]: "at_level (Suc k) {#[]#} = {#}"
  by simp

lemma closed_level:
  assumes "M + X = {#[]#} + expand answer M"
  shows "at_level k (M + X) \<subseteq># mset (tree_level answer k) \<and>
    (X = {#} \<longrightarrow> at_level k M = mset (tree_level answer k))"
proof (induction k)
  case 0
  have "at_level 0 (M + X) = {#[]#}"
    unfolding assms filter_union_mset at_level_expand_0 by simp
  then show ?case by auto
next
  case (Suc k)
  have eq: "at_level (Suc k) (M + X) = expand answer (at_level k M)"
    unfolding assms by (simp add: at_level_expand_Suc)
  have "at_level k M \<subseteq># mset (tree_level answer k)"
    using Suc by (metis filter_union_mset mset_subset_eq_add_left subset_mset.order_trans)
  then have "at_level (Suc k) (M + X) \<subseteq># mset (tree_level answer (Suc k))"
    unfolding eq tree_level_expand by (rule expand_mono)
  moreover have "at_level (Suc k) M = mset (tree_level answer (Suc k))" if "X = {#}"
    using eq that Suc by (simp add: tree_level_expand del: tree_level.simps)
  ultimately show ?case by blast
qed

lemma levels_sum:
  assumes "\<And>p. p \<in># M \<Longrightarrow> length p \<le> d"
  shows "(\<Sum>k \<le> d. at_level k M) = M"
  using assms
proof (induction M)
  case (add p M)
  have "(\<Sum>k \<le> d. at_level k (add_mset p M)) =
      (\<Sum>k \<le> d. (if k = length p then {#p#} else {#}) + at_level k M)"
    by (rule sum.cong) auto
  also have "\<dots> = (\<Sum>k \<le> d. if k = length p then {#p#} else {#}) + (\<Sum>k \<le> d. at_level k M)"
    by (rule sum.distrib)
  also have "(\<Sum>k \<le> d. if k = length p then {#p#} else {#}) = {#p#}"
    using add.prems [of p] by (simp add: sum.delta')
  finally show ?case using add by simp
qed simp

lemma mset_attr_tree: "mset (attr_tree answer d) = (\<Sum>k \<le> d. mset (tree_level answer k))"
proof -
  have "mset (concat (map f [0..<n])) = (\<Sum>k < n. mset (f k))" for f :: "nat \<Rightarrow> attr_path list" and n
    by (induction n) simp_all
  from this [of "tree_level answer" "Suc d"] show ?thesis
    by (simp only: attr_tree_def lessThan_Suc_atMost)
qed

lemma closed_lengths:
  assumes "M + X = {#[]#} + expand answer M" and "depth_bounded answer d" and "p \<in># M + X"
  shows "length p \<le> d"
proof -
  from assms(1,3) have "p = [] \<or> p \<in># expand answer M" by (metis union_iff insert_iff set_mset_add_mset_insert set_mset_empty empty_iff)
  moreover have "length p \<le> d" if "p \<in># expand answer M"
  proof -
    from that obtain q where q: "p \<in> set (child_paths q (answer q))"
      by (auto simp: expand_def)
    then have "length q < d"
      using assms(2) by (metis depth_bounded_def empty_iff linorder_not_le list.set(1))
    then show ?thesis using child_paths_length [OF q] by simp
  qed
  ultimately show ?thesis by auto
qed

lemma closed_paths_tree:
  assumes "M = {#[]#} + expand answer M" and "depth_bounded answer d"
  shows "M = mset (attr_tree answer d)"
proof -
  have closed: "M + {#} = {#[]#} + expand answer M" using assms(1) by simp
  have "M = (\<Sum>k \<le> d. at_level k M)"
    using levels_sum [of M d] closed_lengths [OF closed assms(2)] by simp
  also have "\<dots> = (\<Sum>k \<le> d. mset (tree_level answer k))"
    using closed_level [OF closed] by (intro sum.cong) auto
  finally show ?thesis by (simp add: mset_attr_tree)
qed

lemma sum_subseteq_mset: "(\<And>k. k \<in> A \<Longrightarrow> f k \<subseteq># g k) \<Longrightarrow> finite A \<Longrightarrow> sum f A \<subseteq># sum g A"
  by (induction A rule: infinite_finite_induct) (auto intro: subset_mset.add_mono)

lemma partial_paths_tree:
  assumes "M + X = {#[]#} + expand answer M" and "depth_bounded answer d"
  shows "M + X \<subseteq># mset (attr_tree answer d)"
proof -
  have "M + X = (\<Sum>k \<le> d. at_level k (M + X))"
    using levels_sum [of "M + X" d] closed_lengths [OF assms] by simp
  also have "\<dots> \<subseteq># (\<Sum>k \<le> d. mset (tree_level answer k))"
    using closed_level [OF assms(1)] by (intro sum_subseteq_mset) auto
  finally show ?thesis by (simp add: mset_attr_tree)
qed

section \<open>Dispatching\<close>

lemma next_for_None:
  assumes "s_error s = None"
  shows "next_for w s =
    (case s_todo s of
       item # rest \<Rightarrow> (Dispatch item, s\<lparr>s_todo := rest, s_active := s_active s + 1\<rparr>)
     | [] \<Rightarrow> if s_active s = 0 then (WorkDone, s) else (Wait, s))"
  using assms by (simp add: next_for_def)

text \<open>
  What a dispatch pass does: it hands the front of the queue, in order, to distinct idle
  workers; it stops with work left only when no worker is idle.
\<close>

definition dispatch_post ::
  "(nat \<Rightarrow> bool) \<Rightarrow> scheduler \<Rightarrow> nat list \<Rightarrow> (nat \<times> work_item) list \<Rightarrow>
    dispatch_state result \<times> scheduler \<times> nat list \<times> (nat \<times> work_item) list \<Rightarrow> bool"
where
  "dispatch_post send_ok s idle sent out =
     (case out of (d, s', idle', sent') \<Rightarrow>
        \<exists>new. sent' = sent @ new \<and> s_error s' = None \<and>
          s_active s + length new \<le> s_active s' \<and>
          (d = Inr Running \<longrightarrow> s_todo s = map snd new @ s_todo s' \<and>
             s_active s' = s_active s + length new \<and>
             mset idle = mset (map fst new) + mset idle' \<and> (idle' \<noteq> [] \<longrightarrow> s_todo s' = [])) \<and>
          (d = Inr DispatchDone \<longrightarrow> s_todo s = map snd new @ s_todo s' \<and>
             s_todo s' = [] \<and> s_active s' = 0) \<and>
          (isl d \<longrightarrow> (\<exists>w. \<not> send_ok w)))"

lemma dispatch_loop_post:
  assumes "s_error s = None" and "k \<le> length idle"
    and "drop k idle \<noteq> [] \<Longrightarrow> s_todo s = []" and "\<forall>w \<in> set idle. w < length workers"
  shows "dispatch_post send_ok s idle sent (dispatch_loop send_ok workers k s idle sent)"
  using assms
proof (induction k arbitrary: s idle sent)
  case 0
  then show ?case by (auto simp: dispatch_post_def)
next
  case (Suc k)
  then obtain w idle' where idle: "idle = w # idle'" by (cases idle) auto
  with Suc.prems have w: "w < length workers" by simp
  note nf = next_for_None [OF Suc.prems(1)]
  show ?case
  proof (cases "s_todo s")
    case Nil
    show ?thesis
    proof (cases "s_active s = 0")
      case True
      with Nil Suc.prems(1) w show ?thesis
        by (simp add: dispatch_post_def idle nf)
    next
      case False
      have "dispatch_post send_ok s (idle' @ [w]) sent
          (dispatch_loop send_ok workers k s (idle' @ [w]) sent)"
        using Suc.prems idle Nil by (intro Suc.IH) auto
      then show ?thesis
        using Nil False w by (auto simp: dispatch_post_def idle nf)
    qed
  next
    case (Cons item rest)
    let ?s = "s\<lparr>s_todo := rest, s_active := Suc (s_active s)\<rparr>"
    show ?thesis
    proof (cases "send_ok w")
      case True
      have "dispatch_post send_ok ?s idle' (sent @ [(w, item)])
          (dispatch_loop send_ok workers k ?s idle' (sent @ [(w, item)]))"
        using Suc.prems idle Cons by (intro Suc.IH) auto
      then obtain d s' i' new where
        out: "dispatch_loop send_ok workers k ?s idle' (sent @ [(w, item)]) =
          (d, s', i', (sent @ [(w, item)]) @ new)" and
        post: "dispatch_post send_ok ?s idle' (sent @ [(w, item)])
          (d, s', i', (sent @ [(w, item)]) @ new)"
        by (auto simp: dispatch_post_def split: prod.splits)
      have "dispatch_loop send_ok workers (Suc k) s idle sent = (d, s', i', sent @ (w, item) # new)"
        using Cons True w out by (simp add: idle nf)
      moreover have "dispatch_post send_ok s idle sent (d, s', i', sent @ (w, item) # new)"
        using post Cons unfolding dispatch_post_def idle
        by (auto intro!: exI [of _ "(w, item) # new"])
      ultimately show ?thesis by simp
    next
      case False
      with Cons w Suc.prems(1) show ?thesis
        by (auto simp: dispatch_post_def idle nf external_def)
    qed
  qed
qed

lemma dispatch_available_post:
  assumes "s_error s = None" and "\<forall>w \<in> set idle. w < length workers"
  shows "dispatch_post send_ok s idle [] (dispatch_available send_ok workers s idle)"
  unfolding dispatch_available_def using assms by (intro dispatch_loop_post) auto

section \<open>The pool's invariant\<close>

definition sys_inv :: "(attr_path \<Rightarrow> event) \<Rightarrow> worker_spec list \<Rightarrow> sys \<Rightarrow> bool" where
  "sys_inv answer specs y \<longleftrightarrow>
     s_error (y_sched y) = None \<and>
     s_active (y_sched y) = length (y_busy y) \<and>
     mset (y_idle y) + mset (map fst (y_busy y)) + mset (y_starting y) = mset [0..<length specs] \<and>
     (\<forall>w \<in> set (y_starting y). is_forked (specs ! w)) \<and>
     mset (map wi_path (s_todo (y_sched y))) + mset (map (wi_path \<circ> snd) (y_busy y)) +
       mset (map fst (y_done y)) = {#[]#} + expand answer (mset (map fst (y_done y))) \<and>
     (\<forall>(p, e) \<in> set (y_done y). e = answer p) \<and>
     y_emitted y = map snd (y_done y)"

lemma sys_inv_initial: "sys_inv answer specs (initial_sys specs)"
proof -
  have "mset (filter (\<lambda>id. \<not> P id) xs) + mset (filter P xs) = mset xs" for P and xs :: "nat list"
    by (induction xs) auto
  then show ?thesis
    by (simp add: sys_inv_def initial_sys_def initial_scheduler_def initial_idle_def expand_def
        del: mset_upt mset_filter)
qed

lemma sys_inv_idle: "sys_inv answer specs y \<Longrightarrow> \<forall>w \<in> set (y_idle y). w < length specs"
proof
  fix w assume "sys_inv answer specs y" and "w \<in> set (y_idle y)"
  then have "w \<in># mset [0..<length specs]"
    unfolding sys_inv_def by (metis set_mset_mset union_iff)
  then show "w < length specs" by simp
qed

text \<open>
  After a dispatch pass that leaves the loop running, the pool is again in order, and work
  is left only when no worker is idle.
\<close>

lemma sys_inv_dispatch:
  assumes "sys_inv answer specs y"
    and "dispatch_available send_ok specs (y_sched y) (y_idle y) = (Inr Running, s1, idle1, sent)"
  shows "sys_inv answer specs (y\<lparr>y_sched := s1, y_idle := idle1, y_busy := y_busy y @ sent\<rparr>)"
    and "idle1 \<noteq> [] \<Longrightarrow> s_todo s1 = []"
proof -
  have "dispatch_post send_ok (y_sched y) (y_idle y) [] (Inr Running, s1, idle1, sent)"
    using dispatch_available_post [of "y_sched y" "y_idle y" specs send_ok] assms sys_inv_idle
    by (auto simp: sys_inv_def)
  then have post: "s_error s1 = None" "s_todo (y_sched y) = map snd sent @ s_todo s1"
    "s_active s1 = s_active (y_sched y) + length sent"
    "mset (y_idle y) = mset (map fst sent) + mset idle1" "idle1 \<noteq> [] \<longrightarrow> s_todo s1 = []"
    by (auto simp: dispatch_post_def)
  show "idle1 \<noteq> [] \<Longrightarrow> s_todo s1 = []" using post by simp
  show "sys_inv answer specs (y\<lparr>y_sched := s1, y_idle := idle1, y_busy := y_busy y @ sent\<rparr>)"
    using assms(1) post unfolding sys_inv_def by (simp add: ac_simps)
qed

lemma sys_inv_dispatch_done:
  assumes "sys_inv answer specs y"
    and "dispatch_available send_ok specs (y_sched y) (y_idle y) = (Inr DispatchDone, s1, idle1, sent)"
  shows "s_todo (y_sched y) = []" and "y_busy y = []" and "sent = []"
proof -
  have "dispatch_post send_ok (y_sched y) (y_idle y) [] (Inr DispatchDone, s1, idle1, sent)"
    using dispatch_available_post [of "y_sched y" "y_idle y" specs send_ok] assms sys_inv_idle
    by (auto simp: sys_inv_def)
  then show "s_todo (y_sched y) = []" and "y_busy y = []" and "sent = []"
    using assms(1) by (auto simp: dispatch_post_def sys_inv_def)
qed

lemma sys_inv_ready:
  assumes "sys_inv answer specs y" and "w \<in> set (y_starting y)"
  shows "sys_inv answer specs (y\<lparr>y_idle := y_idle y @ [w], y_starting := remove1 w (y_starting y)\<rparr>)"
proof -
  let ?r = "remove1 w (y_starting y)"
  have "mset (y_starting y) = add_mset w (mset ?r)"
    using assms(2) by simp
  then have "mset (y_idle y @ [w]) + mset (map fst (y_busy y)) + mset ?r =
      mset (y_idle y) + mset (map fst (y_busy y)) + mset (y_starting y)"
    by (simp del: mset_remove1)
  also have "\<dots> = mset [0..<length specs]"
    using assms(1) unfolding sys_inv_def by blast
  finally have "mset (y_idle y @ [w]) + mset (map fst (y_busy y)) + mset ?r = mset [0..<length specs]" .
  moreover have "set ?r \<subseteq> set (y_starting y)" by (rule set_remove1_subset)
  ultimately show ?thesis
    using assms(1) by (auto simp: sys_inv_def simp del: mset_upt mset_append mset_remove1 mset_map)
qed

text \<open>Completing an item that does not end the run.\<close>

lemma complete_nonfatal:
  assumes "complete spec specs item event s = (cw, s')" and "cw_fatal_error cw = None"
  shows "cw_emit cw" and "s_error s' = s_error s" and "s_active s' = s_active s - 1"
    and "map wi_path (s_todo s') = map wi_path (s_todo s) @ child_paths (wi_path item) event"
  using assms
  by (auto simp: complete_def Let_def child_items_def split: event.splits if_splits event_disposition.splits)

lemma sys_inv_result:
  assumes "sys_inv answer specs y" and "(w, item) \<in> set (y_busy y)"
    and "event = answer (wi_path item)"
    and "complete spec specs item event (y_sched y) = (cw, s')" and "cw_fatal_error cw = None"
  shows "sys_inv answer specs (y\<lparr>y_sched := s', y_idle := y_idle y @ [w],
    y_busy := remove1 (w, item) (y_busy y), y_done := y_done y @ [(wi_path item, event)],
    y_emitted := y_emitted y @ [event]\<rparr>)"
proof -
  let ?b = "remove1 (w, item) (y_busy y)"
  have b: "mset (y_busy y) = add_mset (w, item) (mset ?b)"
    using assms(2) by simp
  have fst: "mset (map fst (y_busy y)) = add_mset w (mset (map fst ?b))"
    unfolding mset_map b by simp
  have snd: "mset (map (wi_path \<circ> snd) (y_busy y)) =
      add_mset (wi_path item) (mset (map (wi_path \<circ> snd) ?b))"
    unfolding mset_map b by simp
  have len: "length (y_busy y) = Suc (length ?b)"
    using b by (metis size_add_mset size_mset)
  note compl = complete_nonfatal [OF assms(4,5)]
  show ?thesis
    using assms(1,3) fst snd len compl unfolding sys_inv_def
    by (simp add: expand_def ac_simps)
qed


section \<open>Turns and runs\<close>

lemma stopped_sel [simp]:
  "tr_sched (stopped s i sent m x) = s" "tr_idle (stopped s i sent m x) = i"
  "tr_sent (stopped s i sent m x) = sent" "tr_received (stopped s i sent m x) = m"
  "tr_emitted (stopped s i sent m x) = []" "tr_exit (stopped s i sent m x) = Some x"
  by (simp_all add: stopped_def)

text \<open>How a turn can end: the loop goes on only through the message handler.\<close>

lemma coordinate_turn_cases:
  obtains
    (cancel) "t_cancel t" "coordinate_turn render specs t s idle = stopped s idle [] None (Inr Cancelled)"
  | (send) e s1 idle1 sent where "\<not> t_cancel t"
      "dispatch_available (t_send_ok t) specs s idle = (Inl e, s1, idle1, sent)"
      "coordinate_turn render specs t s idle = stopped s1 idle1 sent None (Inl e)"
  | (drained) s1 idle1 sent where "\<not> t_cancel t"
      "dispatch_available (t_send_ok t) specs s idle = (Inr DispatchDone, s1, idle1, sent)"
      "coordinate_turn render specs t s idle = stopped s1 idle1 sent None (Inr Completed)"
  | (finished) s1 idle1 sent where "\<not> t_cancel t"
      "dispatch_available (t_send_ok t) specs s idle = (Inr Running, s1, idle1, sent)" "is_done s1"
      "coordinate_turn render specs t s idle = stopped s1 idle1 sent None (Inr Completed)"
  | (stalled) s1 idle1 sent where "\<not> t_cancel t"
      "dispatch_available (t_send_ok t) specs s idle = (Inr Running, s1, idle1, sent)"
      "\<not> is_done s1" "\<not> has_active_work s1" "length idle1 = length specs"
      "coordinate_turn render specs t s idle =
        stopped s1 idle1 sent None (bail ''scheduler stalled with no active workers'')"
  | (message) s1 idle1 sent where "\<not> t_cancel t"
      "dispatch_available (t_send_ok t) specs s idle = (Inr Running, s1, idle1, sent)"
      "\<not> is_done s1" "has_active_work s1 \<or> length idle1 \<noteq> length specs"
      "coordinate_turn render specs t s idle = handle_message render specs t s1 idle1 sent"
proof -
  obtain d s1 idle1 sent where
    disp: "dispatch_available (t_send_ok t) specs s idle = (d, s1, idle1, sent)"
    by (metis prod_cases4)
  consider "t_cancel t" | e where "\<not> t_cancel t" "d = Inl e" | "\<not> t_cancel t" "d = Inr DispatchDone"
    | "\<not> t_cancel t" "d = Inr Running" "is_done s1"
    | "\<not> t_cancel t" "d = Inr Running" "\<not> is_done s1" "\<not> has_active_work s1" "length idle1 = length specs"
    | "\<not> t_cancel t" "d = Inr Running" "\<not> is_done s1" "has_active_work s1 \<or> length idle1 \<noteq> length specs"
    by (metis dispatch_state.exhaust obj_sumE)
  then show thesis
  proof cases
    case 1 then show thesis by (intro cancel) (simp_all add: coordinate_turn_def)
  next
    case 2 then show thesis using disp by (intro send) (simp_all add: coordinate_turn_def)
  next
    case 3 then show thesis using disp by (intro drained) (simp_all add: coordinate_turn_def)
  next
    case 4 then show thesis using disp by (intro finished) (simp_all add: coordinate_turn_def)
  next
    case 5 then show thesis using disp by (intro stalled) (simp_all add: coordinate_turn_def)
  next
    case 6 then show thesis using disp by (intro message) (auto simp add: coordinate_turn_def)
  qed
qed

lemma handle_result_continues:
  assumes "tr_exit (handle_result render specs t w item r s1 idle1 sent) = None"
    and "event = received_event render (specs ! w) item r"
  obtains cw s2 where "complete (specs ! w) specs item event s1 = (cw, s2)" "cw_fatal_error cw = None"
    "handle_result render specs t w item r s1 idle1 sent =
       \<lparr>tr_sched = s2, tr_idle = idle1 @ [w], tr_sent = sent, tr_received = t_recv t,
        tr_emitted = [event], tr_exit = None\<rparr>"
proof -
  obtain cw s2 where compl: "complete (specs ! w) specs item event s1 = (cw, s2)" by force
  have w: "w < length specs"
    using assms(1) by (auto simp: handle_result_def Let_def split: if_splits)
  have fatal: "cw_fatal_error cw = None"
    using assms compl w by (auto simp: handle_result_def Let_def split: if_splits sum.splits)
  show thesis
    using assms w compl fatal complete_nonfatal(1) [OF compl fatal]
    by (intro that [of cw s2]) (auto simp: handle_result_def Let_def split: sum.splits)
qed

lemma sys_turn_continues:
  assumes inv: "sys_inv answer specs y" and ok: "turn_ok answer render specs t y"
    and turn: "sys_turn render specs t y = (y', None)"
  shows "sys_inv answer specs y'"
proof (cases rule: coordinate_turn_cases [of t render specs "y_sched y" "y_idle y"])
  case (message s1 idle1 sent)
  let ?y = "y\<lparr>y_sched := s1, y_idle := idle1, y_busy := y_busy y @ sent\<rparr>"
  have inv1: "sys_inv answer specs ?y"
    using sys_inv_dispatch(1) [OF inv message(2)] .
  have exit: "tr_exit (handle_message render specs t s1 idle1 sent) = None"
    using turn message by (simp add: sys_turn_def Let_def)
  consider w where "t_recv t = Some (Ready w)" | w item r where "t_recv t = Some (WorkResult w item r)"
    using exit by (auto simp: handle_message_def split: option.splits worker_message.splits)
  then show ?thesis
  proof cases
    case 1
    then have "w \<in> set (y_starting ?y)" using ok by (simp add: turn_ok_def)
    moreover have "y' = ?y\<lparr>y_idle := y_idle ?y @ [w], y_starting := remove1 w (y_starting ?y)\<rparr>"
      using turn message 1 by (auto simp: sys_turn_def Let_def handle_message_def)
    ultimately show ?thesis using sys_inv_ready [OF inv1] by metis
  next
    case (2 w item r)
    let ?e = "received_event render (specs ! w) item r"
    have busy: "(w, item) \<in> set (y_busy ?y)" and e: "?e = answer (wi_path item)"
      using ok 2 message by (auto simp: turn_ok_def)
    from exit 2 obtain cw s2 where compl: "complete (specs ! w) specs item ?e s1 = (cw, s2)"
      and fatal: "cw_fatal_error cw = None"
      and hr: "handle_result render specs t w item r s1 idle1 sent =
        \<lparr>tr_sched = s2, tr_idle = idle1 @ [w], tr_sent = sent, tr_received = t_recv t,
         tr_emitted = [?e], tr_exit = None\<rparr>"
      by (auto simp: handle_message_def elim: handle_result_continues)
    have "y' = ?y\<lparr>y_sched := s2, y_idle := y_idle ?y @ [w],
        y_busy := remove1 (w, item) (y_busy ?y), y_done := y_done ?y @ [(wi_path item, ?e)],
        y_emitted := y_emitted ?y @ [?e]\<rparr>"
      using turn message 2 hr by (auto simp: sys_turn_def Let_def handle_message_def)
    then show ?thesis
      using sys_inv_result [OF inv1 busy e _ fatal, of "specs ! w" s2] compl by simp
  qed
qed (use turn in \<open>auto simp: sys_turn_def Let_def\<close>)

lemma handle_message_not_completed:
  "tr_exit (handle_message render specs t s1 idle1 sent) \<noteq> Some (Inr Completed)"
  by (auto simp: handle_message_def handle_result_def Let_def split: option.splits
      worker_message.splits prod.splits sum.splits)

lemma sys_turn_completed:
  assumes inv: "sys_inv answer specs y"
    and turn: "sys_turn render specs t y = (y', Some (Inr Completed))"
  shows "y_done y' = y_done y \<and> y_emitted y' = y_emitted y \<and>
    mset (map fst (y_done y)) = {#[]#} + expand answer (mset (map fst (y_done y)))"
proof (cases rule: coordinate_turn_cases [of t render specs "y_sched y" "y_idle y"])
  case (drained s1 idle1 sent)
  then show ?thesis
    using turn sys_inv_dispatch_done [OF inv drained(2)] inv
    by (auto simp: sys_turn_def Let_def sys_inv_def)
next
  case (finished s1 idle1 sent)
  let ?y = "y\<lparr>y_sched := s1, y_idle := idle1, y_busy := y_busy y @ sent\<rparr>"
  have "sys_inv answer specs ?y"
    using sys_inv_dispatch(1) [OF inv finished(2)] .
  then have "mset (map fst (y_done y)) = {#[]#} + expand answer (mset (map fst (y_done y)))"
    using finished(3) by (simp add: sys_inv_def is_done_def)
  then show ?thesis
    using turn finished by (auto simp: sys_turn_def Let_def)
qed (use turn handle_message_not_completed in \<open>auto simp: sys_turn_def Let_def\<close>)

lemma sys_run_completed:
  assumes "sys_inv answer specs y" and "turns_ok answer render specs ts y"
    and "sys_run render specs ts y = (y', Some (Inr Completed))"
  shows "y_emitted y' = map (\<lambda>p. answer p) (map fst (y_done y')) \<and>
    mset (map fst (y_done y')) = {#[]#} + expand answer (mset (map fst (y_done y')))"
  using assms
proof (induction ts arbitrary: y)
  case (Cons t ts)
  obtain y1 x where turn: "sys_turn render specs t y = (y1, x)" by force
  show ?case
  proof (cases x)
    case None
    with Cons turn sys_turn_continues [of answer specs y render t y1] show ?thesis by simp
  next
    case (Some exit)
    with Cons.prems turn have "sys_turn render specs t y = (y', Some (Inr Completed))" by simp
    from sys_turn_completed [OF Cons.prems(1) this] Cons.prems(1) show ?thesis
      by (auto simp: sys_inv_def)
  qed
qed simp

text \<open>
  A run that completes has evaluated exactly the attribute tree: whatever the order in
  which the workers answered and whoever answered, the events given to the sink are, as a
  multiset, the answers for the paths of the tree, each once: nothing is lost, nothing is
  evaluated twice.
\<close>

theorem completed_run_emits_tree:
  assumes "turns_ok answer render specs ts (initial_sys specs)"
    and "sys_run render specs ts (initial_sys specs) = (y, Some (Inr Completed))"
    and "depth_bounded answer d"
  shows "mset (y_emitted y) = mset (map answer (attr_tree answer d))"
proof -
  have "mset (map fst (y_done y)) = mset (attr_tree answer d)"
    using sys_run_completed [OF sys_inv_initial assms(1,2)] assms(3) closed_paths_tree by blast
  then show ?thesis
    using sys_run_completed [OF sys_inv_initial assms(1,2)] by (metis mset_map)
qed

section \<open>Reachable states\<close>

definition sys_step ::
  "(attr_path \<Rightarrow> event) \<Rightarrow> (report \<Rightarrow> string) \<Rightarrow> worker_spec list \<Rightarrow> sys \<Rightarrow> sys \<Rightarrow> bool"
where
  "sys_step answer render specs y y' \<longleftrightarrow>
     (\<exists>t. turn_ok answer render specs t y \<and> sys_turn render specs t y = (y', None))"

interpretation coordinator: inductive_invariant "\<lambda>y. y = initial_sys specs"
  "sys_step answer render specs" "sys_inv answer specs" for answer render specs
  by unfold_locales (auto simp: sys_inv_initial sys_step_def sys_turn_continues)

lemma sys_inv_distinct:
  assumes "sys_inv answer specs y"
  shows "distinct (y_idle y @ map fst (y_busy y) @ y_starting y)"
    and "set (y_idle y @ map fst (y_busy y) @ y_starting y) = {0..<length specs}"
proof -
  have eq: "mset (y_idle y @ map fst (y_busy y) @ y_starting y) = mset [0..<length specs]"
    using assms by (simp add: sys_inv_def ac_simps)
  then show "distinct (y_idle y @ map fst (y_busy y) @ y_starting y)"
    by (metis distinct_upt mset_eq_imp_distinct_iff)
  show "set (y_idle y @ map fst (y_busy y) @ y_starting y) = {0..<length specs}"
    using mset_eq_setD [OF eq] by simp
qed

text \<open>
  When the loop is about to wait for a message, some worker will send one: it holds an item
  or is still starting.
\<close>

lemma waiting_has_sender:
  assumes inv: "sys_inv answer specs y" and "specs \<noteq> []"
    and disp: "dispatch_available send_ok specs (y_sched y) (y_idle y) = (Inr Running, s1, idle1, sent)"
    and "\<not> is_done s1"
  shows "y_busy y @ sent \<noteq> [] \<or> y_starting y \<noteq> []"
proof (rule ccontr)
  assume none: "\<not> (y_busy y @ sent \<noteq> [] \<or> y_starting y \<noteq> [])"
  note inv1 = sys_inv_dispatch [OF inv disp]
  have "set idle1 = {0..<length specs}"
    using sys_inv_distinct(2) [OF inv1(1)] none by simp
  then have "idle1 \<noteq> []" using assms(2) by auto
  then have "s_todo s1 = []" by (rule inv1(2))
  moreover have "s_active s1 = 0" using inv1(1) none by (simp add: sys_inv_def)
  ultimately show False using assms(4) by (simp add: is_done_def)
qed

lemma waiting_not_stalled:
  assumes inv: "sys_inv answer specs y" and "specs \<noteq> []"
    and disp: "dispatch_available send_ok specs (y_sched y) (y_idle y) = (Inr Running, s1, idle1, sent)"
    and "\<not> is_done s1"
  shows "has_active_work s1 \<or> length idle1 \<noteq> length specs"
proof (rule ccontr)
  assume c: "\<not> (has_active_work s1 \<or> length idle1 \<noteq> length specs)"
  note inv1 = sys_inv_dispatch [OF inv disp]
  from c assms(2) have "idle1 \<noteq> []" by auto
  then have "s_todo s1 = []" by (rule inv1(2))
  with c assms(4) show False by (simp add: is_done_def has_active_work_def)
qed

text \<open>
  C6. The coordinator never stalls: for the workers any configuration gives, in every state
  the loop can reach, when the queue is not drained after a dispatch pass then some worker
  holds an item or is still starting, so the receive that follows has a sender, and the
  branch that reports a stalled scheduler is not taken.
\<close>

theorem coordinator_never_stalls:
  assumes "worker_specs open_slot c = Inr specs"
    and "(sys_step answer render specs)\<^sup>*\<^sup>* (initial_sys specs) y"
    and "dispatch_available send_ok specs (y_sched y) (y_idle y) = (Inr Running, s1, idle1, sent)"
    and "\<not> is_done s1"
  shows "(y_busy y @ sent \<noteq> [] \<or> y_starting y \<noteq> []) \<and>
    \<not> (\<not> has_active_work s1 \<and> length idle1 = length specs)"
proof -
  have inv: "sys_inv answer specs y" using coordinator.reach_inv [OF refl assms(2)] .
  have ne: "specs \<noteq> []" using worker_specs_unforked [OF assms(1)] by auto
  show ?thesis
    using waiting_has_sender [OF inv ne assms(3,4)] waiting_not_stalled [OF inv ne assms(3,4)] by blast
qed

text \<open>
  C7. Exclusive hand-out: in every reachable state a worker is in exactly one of the idle
  queue, the busy set and the starting set; so no worker holds two items, and the
  scheduler's counter of active items is the number of items handed out and not answered.
\<close>

theorem worker_holds_one_item:
  assumes "(sys_step answer render specs)\<^sup>*\<^sup>* (initial_sys specs) y"
  shows "distinct (y_idle y @ map fst (y_busy y) @ y_starting y) \<and>
    set (y_idle y @ map fst (y_busy y) @ y_starting y) = {0..<length specs} \<and>
    s_active (y_sched y) = length (y_busy y)"
proof -
  have inv: "sys_inv answer specs y" using coordinator.reach_inv [OF refl assms] .
  then show ?thesis using sys_inv_distinct [OF inv] by (simp add: sys_inv_def)
qed

lemma in_expandE:
  assumes "p \<in># expand answer M"
  obtains q a x attrs name where "q \<in># M" "answer q = AttrSet a x attrs" "name \<in> set attrs"
    "p = q @ [name]"
proof -
  from assms obtain q where q: "q \<in># M" "p \<in> set (child_paths q (answer q))"
    by (auto simp: expand_def)
  then show thesis by (cases "answer q") (auto intro: that)
qed

text \<open>
  Parents first: in every reachable state, a path that is queued, being evaluated or
  answered is the root or a child some answered attribute set listed.
\<close>

theorem queued_paths_have_evaluated_parents:
  assumes "(sys_step answer render specs)\<^sup>*\<^sup>* (initial_sys specs) y"
    and "p \<in> set (map wi_path (s_todo (y_sched y))) \<union> set (map (wi_path \<circ> snd) (y_busy y)) \<union>
      set (map fst (y_done y))"
  shows "p = [] \<or> (\<exists>q a x attrs name. (q, AttrSet a x attrs) \<in> set (y_done y) \<and>
    name \<in> set attrs \<and> p = q @ [name])"
proof -
  have inv: "sys_inv answer specs y" using coordinator.reach_inv [OF refl assms(1)] .
  then have eq: "mset (map wi_path (s_todo (y_sched y))) + mset (map (wi_path \<circ> snd) (y_busy y)) +
      mset (map fst (y_done y)) = {#[]#} + expand answer (mset (map fst (y_done y)))"
    and ans: "\<And>q e. (q, e) \<in> set (y_done y) \<Longrightarrow> e = answer q"
    by (auto simp: sys_inv_def)
  have "p \<in># {#[]#} + expand answer (mset (map fst (y_done y)))"
    using assms(2) unfolding eq [symmetric] by auto
  then consider "p = []" | "p \<in># expand answer (mset (map fst (y_done y)))" by auto
  then show ?thesis
  proof cases
    case 2
    then show ?thesis
    proof (rule in_expandE)
      fix q a x attrs name
      assume h: "q \<in># mset (map fst (y_done y))" "answer q = AttrSet a x attrs" "name \<in> set attrs"
        "p = q @ [name]"
      then obtain e where "(q, e) \<in> set (y_done y)" by auto
      with ans h(2) have "(q, AttrSet a x attrs) \<in> set (y_done y)" by metis
      with h show ?thesis by blast
    qed
  qed simp
qed

section \<open>Termination of runs\<close>

text \<open>
  A turn on which nothing outside fails: no cancellation, open command channels, a sink that
  accepts, and a message from the pool whenever a worker holds an item or is starting.
\<close>

definition answers :: "worker_message option \<Rightarrow> bool" where
  "answers m = (case m of Some (Ready _) \<Rightarrow> True | Some (WorkResult _ _ _) \<Rightarrow> True | _ \<Rightarrow> False)"

definition turn_live :: "worker_spec list \<Rightarrow> turn \<Rightarrow> sys \<Rightarrow> bool" where
  "turn_live specs t y \<longleftrightarrow>
     \<not> t_cancel t \<and> (\<forall>w. t_send_ok t w) \<and> (\<forall>e. t_sink t e = Inr ()) \<and>
     (case dispatch_available (t_send_ok t) specs (y_sched y) (y_idle y) of (d, s1, idle1, sent) \<Rightarrow>
        y_busy y @ sent \<noteq> [] \<or> y_starting y \<noteq> [] \<longrightarrow> answers (t_recv t))"

fun turns_live :: "(report \<Rightarrow> string) \<Rightarrow> worker_spec list \<Rightarrow> turn list \<Rightarrow> sys \<Rightarrow> bool" where
  "turns_live render specs [] y = True"
| "turns_live render specs (t # ts) y =
     (turn_live specs t y \<and>
      (case sys_turn render specs t y of
         (y', None) \<Rightarrow> turns_live render specs ts y'
       | _ \<Rightarrow> True))"

definition accepted :: "worker_spec list \<Rightarrow> event \<Rightarrow> bool" where
  "accepted specs e =
     (case e of
        EventError err \<Rightarrow> \<not> e_fatal err
      | Derivation drv \<Rightarrow> list_ex (\<lambda>w. worker_accepts_system w (d_system drv)) specs
      | AttrSet _ _ _ \<Rightarrow> True)"

lemma complete_accepted:
  assumes "accepted specs event" and "complete spec specs item event s = (cw, s')"
  shows "cw_fatal_error cw = None"
  using assms by (auto simp: accepted_def complete_def disposition_of_def Let_def
      split: event.splits worker_kind.splits if_splits)

definition work_left :: "(attr_path \<Rightarrow> event) \<Rightarrow> nat \<Rightarrow> sys \<Rightarrow> nat" where
  "work_left answer d y = length (attr_tree answer d) - length (y_done y) + length (y_starting y)"

lemma sys_inv_done_bound:
  assumes "sys_inv answer specs y" and "depth_bounded answer d"
  shows "length (y_busy y) + length (y_done y) \<le> length (attr_tree answer d)"
proof -
  let ?X = "mset (map wi_path (s_todo (y_sched y))) + mset (map (wi_path \<circ> snd) (y_busy y))"
  have "mset (map fst (y_done y)) + ?X = {#[]#} + expand answer (mset (map fst (y_done y)))"
    using assms(1) by (simp add: sys_inv_def ac_simps)
  from size_mset_mono [OF partial_paths_tree [OF this assms(2)]] show ?thesis by simp
qed

lemma turn_live_progress:
  assumes inv: "sys_inv answer specs y" and ok: "turn_ok answer render specs t y"
    and live: "turn_live specs t y" and "specs \<noteq> []" and acc: "\<And>p. accepted specs (answer p)"
    and bound: "depth_bounded answer d"
  shows "snd (sys_turn render specs t y) = Some (Inr Completed) \<or>
    snd (sys_turn render specs t y) = None \<and>
      work_left answer d (fst (sys_turn render specs t y)) < work_left answer d y"
proof (cases rule: coordinate_turn_cases [of t render specs "y_sched y" "y_idle y"])
  case cancel
  with live show ?thesis by (simp add: turn_live_def)
next
  case (send e s1 idle1 sent)
  have "dispatch_post (t_send_ok t) (y_sched y) (y_idle y) [] (Inl e, s1, idle1, sent)"
    using dispatch_available_post [of "y_sched y" "y_idle y" specs "t_send_ok t"] send inv sys_inv_idle
    by (auto simp: sys_inv_def)
  with live show ?thesis by (auto simp: dispatch_post_def turn_live_def)
next
  case (stalled s1 idle1 sent)
  then show ?thesis using waiting_not_stalled [OF inv \<open>specs \<noteq> []\<close> stalled(2,3)] by simp
next
  case (message s1 idle1 sent)
  let ?y = "y\<lparr>y_sched := s1, y_idle := idle1, y_busy := y_busy y @ sent\<rparr>"
  have inv1: "sys_inv answer specs ?y"
    using sys_inv_dispatch(1) [OF inv message(2)] .
  have "answers (t_recv t)"
    using live waiting_has_sender [OF inv \<open>specs \<noteq> []\<close> message(2,3)] message(2)
    by (simp add: turn_live_def)
  then consider w where "t_recv t = Some (Ready w)" | w item r where "t_recv t = Some (WorkResult w item r)"
    by (auto simp: answers_def split: option.splits worker_message.splits)
  then show ?thesis
  proof cases
    case 1
    then have w: "w \<in> set (y_starting y)" using ok by (simp add: turn_ok_def)
    then have "length (remove1 w (y_starting y)) < length (y_starting y)"
      using length_pos_if_in_set [OF w] by (simp add: length_remove1)
    then show ?thesis
      using message 1 by (simp add: sys_turn_def Let_def handle_message_def work_left_def)
  next
    case (2 w item r)
    let ?e = "received_event render (specs ! w) item r"
    obtain cw s2 where compl: "complete (specs ! w) specs item ?e s1 = (cw, s2)" by force
    have busy: "(w, item) \<in> set (y_busy ?y)" and e: "?e = answer (wi_path item)"
      using ok 2 message by (auto simp: turn_ok_def)
    have w: "w < length specs"
      using sys_inv_distinct(2) [OF inv1] busy by force
    have fatal: "cw_fatal_error cw = None"
      using complete_accepted [OF _ compl] acc e by simp
    have "0 < length (y_busy ?y)" using busy by (rule length_pos_if_in_set)
    moreover have "length (y_busy ?y) + length (y_done y) \<le> length (attr_tree answer d)"
      using sys_inv_done_bound [OF inv1 bound] by simp
    ultimately have "length (y_done y) < length (attr_tree answer d)" by linarith
    moreover have "handle_message render specs t s1 idle1 sent =
        \<lparr>tr_sched = s2, tr_idle = idle1 @ [w], tr_sent = sent, tr_received = t_recv t,
         tr_emitted = [?e], tr_exit = None\<rparr>"
      using 2 w compl fatal complete_nonfatal(1) [OF compl fatal] live
      by (simp add: handle_message_def handle_result_def turn_live_def Let_def)
    ultimately show ?thesis
      using message 2 by (simp add: sys_turn_def Let_def work_left_def)
  qed
qed (simp_all add: sys_turn_def Let_def)

lemma sys_run_terminates:
  assumes "sys_inv answer specs y" and "turns_ok answer render specs ts y"
    and "turns_live render specs ts y" and "specs \<noteq> []" and "\<And>p. accepted specs (answer p)"
    and "depth_bounded answer d" and "work_left answer d y < length ts"
  shows "\<exists>y'. sys_run render specs ts y = (y', Some (Inr Completed))"
  using assms
proof (induction ts arbitrary: y)
  case (Cons t ts)
  obtain y1 x where turn: "sys_turn render specs t y = (y1, x)" by force
  have "x = Some (Inr Completed) \<or> x = None \<and> work_left answer d y1 < work_left answer d y"
    using turn_live_progress [of answer specs y render t d] Cons.prems turn by auto
  then show ?case
  proof
    assume x: "x = None \<and> work_left answer d y1 < work_left answer d y"
    then have "sys_inv answer specs y1"
      using sys_turn_continues [of answer specs y render t y1] Cons.prems turn by simp
    with Cons.IH [of y1] Cons.prems turn x show ?thesis by auto
  qed (simp add: turn)
qed simp

text \<open>
  Every evaluation whose attribute tree is finite terminates: if no worker reports a fatal
  error or a system nobody owns, channels and sink stay up and a worker that holds an item
  eventually answers, then the loop returns \<open>Completed\<close> after at most one turn per attribute,
  one per forked worker and one more.
\<close>

theorem evaluation_terminates:
  assumes "worker_specs open_slot c = Inr specs"
    and "turns_ok answer render specs ts (initial_sys specs)"
    and "turns_live render specs ts (initial_sys specs)"
    and "\<forall>p. accepted specs (answer p)" and "depth_bounded answer d"
    and "length (attr_tree answer d) + length (filter is_forked specs) < length ts"
  shows "\<exists>y. sys_run render specs ts (initial_sys specs) = (y, Some (Inr Completed)) \<and>
    mset (y_emitted y) = mset (map answer (attr_tree answer d))"
proof -
  have ne: "specs \<noteq> []" using worker_specs_unforked [OF assms(1)] by auto
  have "length (filter (\<lambda>id. is_forked (specs ! id)) [0..<length specs]) = length (filter is_forked specs)"
  proof -
    have "length (filter is_forked (map ((!) specs) [0..<length specs])) =
        length (filter (is_forked \<circ> (!) specs) [0..<length specs])"
      by (simp only: filter_map length_map)
    then show ?thesis by (simp add: map_nth comp_def)
  qed
  then have "work_left answer d (initial_sys specs) < length ts"
    using assms(6) by (simp add: work_left_def initial_sys_def)
  then obtain y where y: "sys_run render specs ts (initial_sys specs) = (y, Some (Inr Completed))"
    using sys_run_terminates [OF sys_inv_initial assms(2,3) ne _ assms(5)] assms(4) by blast
  have run: "y_emitted y = map answer (map fst (y_done y)) \<and>
      mset (map fst (y_done y)) = {#[]#} + expand answer (mset (map fst (y_done y)))"
    using sys_run_completed [OF sys_inv_initial assms(2) y] by simp
  then have "mset (map fst (y_done y)) = mset (attr_tree answer d)"
    using assms(5) closed_paths_tree by blast
  then have "mset (y_emitted y) = mset (map answer (attr_tree answer d))"
    using run by (metis mset_map)
  with y show ?thesis by blast
qed

section \<open>Failures\<close>

text \<open>
  A failing worker does not end the run: when a worker's item fails (the process died,
  the item timed out, the answer did not decode) the sink gets exactly one non-fatal error
  event for that attribute, naming the worker and the cause; the worker is idle again, no
  child is queued and the loop goes on.
\<close>

theorem worker_failure_is_isolated:
  assumes "w < length specs" and "t_recv t = Some (WorkResult w item (Inl err))"
    and "\<forall>e. t_sink t e = Inr ()"
  shows "handle_message render specs t s idle sent =
    \<lparr>tr_sched = s\<lparr>s_active := s_active s - 1\<rparr>, tr_idle = idle @ [w], tr_sent = sent,
     tr_received = t_recv t,
     tr_emitted = [EventError \<lparr>e_attr = display_attr (wi_path item), e_attr_path = wi_path item,
       e_error = ''worker '' @ sp_label (specs ! w) @ '' failed: '' @ render err, e_fatal = False\<rparr>],
     tr_exit = None\<rparr>"
  using assms
  by (simp add: handle_message_def handle_result_def received_event_def worker_failure_event_def
      complete_def Let_def)

text \<open>
  A fatal error event is delivered and then ends the run with its text, and the scheduler
  hands out nothing any more: every later request for work gets the same error.
\<close>

theorem fatal_event_ends_run:
  assumes "w < length specs" and "t_recv t = Some (WorkResult w item (Inr (EventError err)))"
    and "e_fatal err" and "\<forall>e. t_sink t e = Inr ()"
  shows "(let r = handle_message render specs t s idle sent in
     tr_emitted r = [EventError err] \<and> tr_exit r = Some (bail (e_error err)) \<and>
     (\<forall>v. next_for v (tr_sched r) = (Fatal (e_error err), tr_sched r)))"
  using assms
  by (simp add: handle_message_def handle_result_def received_event_def complete_def Let_def next_for_def)

text \<open>
  C8. System routing: a derivation a remote worker found for a system no worker of the pool
  accepts never reaches the sink; it ends the run with a message naming the attribute and
  the system. One whose system some worker accepts is delivered and the run goes on.
\<close>

theorem remote_derivation_routing:
  assumes "w < length specs" and "sp_kind (specs ! w) = Remote remote"
    and "t_recv t = Some (WorkResult w item (Inr (Derivation drv)))" and "\<forall>e. t_sink t e = Inr ()"
  shows "(let r = handle_message render specs t s idle sent in
     if \<exists>v \<in> set specs. worker_accepts_system v (d_system drv)
     then tr_emitted r = [Derivation drv] \<and> tr_exit r = None
     else tr_emitted r = [] \<and>
       tr_exit r = Some (bail (''no worker accepted derivation at '' @ display_attr (wi_path item) @
         '' for system '' @ d_system drv)))"
  using assms
  by (simp add: handle_message_def handle_result_def received_event_def complete_def Let_def
      disposition_of_def Bex_set)

section \<open>A two-worker run\<close>

text \<open>
  A concrete run for the theorems above: a local worker and its fork evaluate a set of two
  attributes; the fork starts late and dies on its item.
\<close>

definition ex_drv :: derivation where
  "ex_drv = \<lparr>d_attr = ''a'', d_attr_path = [''a''], d_name = ''n'', d_system = ''s'',
     d_drv_path = ''p'', d_outputs = [], d_meta = None, d_input_drvs = [], d_constituents = None,
     d_gc_root_error = None\<rparr>"

definition ex_answer :: "attr_path \<Rightarrow> event" where
  "ex_answer p =
     (if p = [] then AttrSet '''' [] [''a'', ''b'']
      else if p = [''a''] then Derivation ex_drv
      else EventError \<lparr>e_attr = ''b'', e_attr_path = [''b''], e_error = ''worker local failed: x'',
        e_fatal = False\<rparr>)"

definition ex_render :: "report \<Rightarrow> string" where
  "ex_render r = ''x''"

definition ex_config :: config where
  "ex_config = default_config\<lparr>c_workers := 2\<rparr>"

definition ex_specs :: "worker_spec list" where
  "ex_specs =
     [\<lparr>sp_id = 0, sp_label = ''local'', sp_kind = Local None (ForkParent [1])\<rparr>,
      \<lparr>sp_id = 1, sp_label = ''local'', sp_kind = Local None (ForkChild 1)\<rparr>]"

definition ex_turn :: "worker_message option \<Rightarrow> turn" where
  "ex_turn m = \<lparr>t_cancel = False, t_send_ok = (\<lambda>_. True), t_recv = m, t_sink = (\<lambda>_. Inr ())\<rparr>"

definition ex_turns :: "turn list" where
  "ex_turns =
     [ex_turn (Some (WorkResult 0 (WorkItem []) (Inr (ex_answer [])))),
      ex_turn (Some (Ready 1)),
      ex_turn (Some (WorkResult 1 (WorkItem [''b'']) (Inl (Report [] (Message ''died''))))),
      ex_turn (Some (WorkResult 0 (WorkItem [''a'']) (Inr (Derivation ex_drv)))),
      ex_turn None]"

lemma ex_worker_specs: "worker_specs Inr ex_config = Inr ex_specs"
  by code_simp

lemma ex_turns_ok: "turns_ok ex_answer ex_render ex_specs ex_turns (initial_sys ex_specs)"
  by code_simp

lemma ex_run_completes:
  "snd (sys_run ex_render ex_specs ex_turns (initial_sys ex_specs)) = Some (Inr Completed)"
  by code_simp

lemma ex_depth_bounded: "depth_bounded ex_answer 1"
  by (auto simp: depth_bounded_def ex_answer_def)

lemma sys_run_reachable:
  assumes "turns_ok answer render specs ts y" and "sys_run render specs ts y = (y', None)"
  shows "(sys_step answer render specs)\<^sup>*\<^sup>* y y'"
  using assms
proof (induction ts arbitrary: y)
  case (Cons t ts)
  then obtain y1 where "sys_turn render specs t y = (y1, None)"
    by (auto split: prod.splits option.splits)
  with Cons.prems Cons.IH [of y1]
  have "sys_step answer render specs y y1" and "(sys_step answer render specs)\<^sup>*\<^sup>* y1 y'"
    by (auto simp: sys_step_def [of _ _ _ y y1])
  then show ?case by (rule converse_rtranclp_into_rtranclp)
qed simp

definition ex_state :: sys where
  "ex_state = fst (sys_run ex_render ex_specs (take 2 ex_turns) (initial_sys ex_specs))"

lemma ex_reachable: "(sys_step ex_answer ex_render ex_specs)\<^sup>*\<^sup>* (initial_sys ex_specs) ex_state"
proof (rule sys_run_reachable)
  show "turns_ok ex_answer ex_render ex_specs (take 2 ex_turns) (initial_sys ex_specs)" by code_simp
  have "snd (sys_run ex_render ex_specs (take 2 ex_turns) (initial_sys ex_specs)) = None" by code_simp
  then show "sys_run ex_render ex_specs (take 2 ex_turns) (initial_sys ex_specs) = (ex_state, None)"
    by (simp add: ex_state_def prod_eq_iff)
qed

lemma ex_turn_live:
  "turn_live specs (ex_turn m) y \<longleftrightarrow>
     (case dispatch_available (\<lambda>_. True) specs (y_sched y) (y_idle y) of (d, s1, idle1, sent) \<Rightarrow>
        y_busy y @ sent \<noteq> [] \<or> y_starting y \<noteq> [] \<longrightarrow> answers m)"
  by (simp add: turn_live_def ex_turn_def)

fun ex_all_live :: "worker_message option list \<Rightarrow> sys \<Rightarrow> bool" where
  "ex_all_live [] y = True"
| "ex_all_live (m # ms) y =
     ((case dispatch_available (\<lambda>_. True) ex_specs (y_sched y) (y_idle y) of (d, s1, idle1, sent) \<Rightarrow>
        y_busy y @ sent \<noteq> [] \<or> y_starting y \<noteq> [] \<longrightarrow> answers m) \<and>
      (case sys_turn ex_render ex_specs (ex_turn m) y of
         (y', None) \<Rightarrow> ex_all_live ms y'
       | _ \<Rightarrow> True))"

lemma ex_all_live_turns: "ex_all_live ms y \<Longrightarrow> turns_live ex_render ex_specs (map ex_turn ms) y"
  by (induction ms arbitrary: y) (auto simp: ex_turn_live split: prod.splits option.splits)

lemma ex_turns_live: "turns_live ex_render ex_specs ex_turns (initial_sys ex_specs)"
proof -
  have "ex_turns = map ex_turn (map t_recv ex_turns)"
    by (simp add: ex_turns_def ex_turn_def)
  moreover have "ex_all_live (map t_recv ex_turns) (initial_sys ex_specs)" by code_simp
  ultimately show ?thesis using ex_all_live_turns by metis
qed

lemma ex_accepted: "accepted ex_specs (ex_answer p)"
  by (simp add: accepted_def ex_answer_def ex_specs_def worker_accepts_system_def)

theorem completed_run_emits_tree_witness:
  "mset (y_emitted (fst (sys_run ex_render ex_specs ex_turns (initial_sys ex_specs)))) =
     mset (map ex_answer [[], [''a''], [''b'']])"
proof -
  let ?run = "sys_run ex_render ex_specs ex_turns (initial_sys ex_specs)"
  have "?run = (fst ?run, Some (Inr Completed))"
    using ex_run_completes by (simp add: prod_eq_iff)
  from completed_run_emits_tree [OF ex_turns_ok this ex_depth_bounded]
  show ?thesis by (simp add: attr_tree_def ex_answer_def)
qed

theorem coordinator_never_stalls_witness:
  "\<exists>s1 idle1 sent. dispatch_available (\<lambda>_. True) ex_specs (y_sched ex_state) (y_idle ex_state) =
     (Inr Running, s1, idle1, sent) \<and> \<not> is_done s1 \<and>
     (y_busy ex_state @ sent \<noteq> [] \<or> y_starting ex_state \<noteq> []) \<and>
     \<not> (\<not> has_active_work s1 \<and> length idle1 = length ex_specs)"
proof -
  let ?d = "dispatch_available (\<lambda>_. True) ex_specs (y_sched ex_state) (y_idle ex_state)"
  obtain d s1 idle1 sent where d: "?d = (d, s1, idle1, sent)" by (metis prod_cases4)
  have "fst ?d = Inr Running \<and> \<not> is_done (fst (snd ?d))" by code_simp
  with d have *: "?d = (Inr Running, s1, idle1, sent)" "\<not> is_done s1" by auto
  from coordinator_never_stalls [OF ex_worker_specs ex_reachable *] * show ?thesis by blast
qed

theorem worker_holds_one_item_witness:
  "distinct (y_idle ex_state @ map fst (y_busy ex_state) @ y_starting ex_state) \<and>
    set (y_idle ex_state @ map fst (y_busy ex_state) @ y_starting ex_state) = {0..<2} \<and>
    s_active (y_sched ex_state) = length (y_busy ex_state)"
  using worker_holds_one_item [OF ex_reachable] by (simp add: ex_specs_def numeral_2_eq_2)

theorem queued_paths_have_evaluated_parents_witness:
  "\<exists>q a x attrs name. (q, AttrSet a x attrs) \<in> set (y_done ex_state) \<and>
     name \<in> set attrs \<and> [''b''] = q @ [name]"
proof -
  have "[''b''] \<in> set (map wi_path (s_todo (y_sched ex_state)))" by code_simp
  then show ?thesis
    using queued_paths_have_evaluated_parents [OF ex_reachable, of "[''b'']"] by simp
qed

theorem evaluation_terminates_witness:
  "\<exists>y. sys_run ex_render ex_specs ex_turns (initial_sys ex_specs) = (y, Some (Inr Completed)) \<and>
    mset (y_emitted y) = mset (map ex_answer (attr_tree ex_answer 1))"
proof (rule evaluation_terminates [OF ex_worker_specs ex_turns_ok ex_turns_live _ ex_depth_bounded])
  show "\<forall>p. accepted ex_specs (ex_answer p)" using ex_accepted by blast
  show "length (attr_tree ex_answer 1) + length (filter is_forked ex_specs) < length ex_turns"
    by code_simp
qed

theorem worker_failure_is_isolated_witness:
  "tr_exit (handle_message ex_render ex_specs
     (ex_turn (Some (WorkResult 1 (WorkItem [''b'']) (Inl (Report [] (Message ''died''))))))
     initial_scheduler [] []) = None"
proof -
  have "1 < length ex_specs" by (simp add: ex_specs_def)
  from worker_failure_is_isolated [OF this] show ?thesis by (simp add: ex_turn_def)
qed

theorem fatal_event_ends_run_witness:
  "tr_exit (handle_message ex_render ex_specs
     (ex_turn (Some (WorkResult 0 (WorkItem []) (Inr (EventError
        \<lparr>e_attr = [], e_attr_path = [], e_error = ''boom'', e_fatal = True\<rparr>)))))
     initial_scheduler [] []) = Some (bail ''boom'')"
proof -
  have "0 < length ex_specs" by (simp add: ex_specs_def)
  from fatal_event_ends_run [OF this] show ?thesis by (simp add: ex_turn_def Let_def)
qed

definition ex_remote_spec :: worker_spec where
  "ex_remote_spec = \<lparr>sp_id = 0, sp_label = ''remote:h#0'',
     sp_kind = Remote \<lparr>r_endpoint = ''h'', r_systems = [''other''], r_workers = 1,
       r_token = None\<rparr>\<rparr>"

theorem remote_derivation_routing_witness:
  "tr_exit (handle_message ex_render [ex_remote_spec]
     (ex_turn (Some (WorkResult 0 (WorkItem [''a'']) (Inr (Derivation ex_drv)))))
     initial_scheduler [] []) =
   Some (bail ''no worker accepted derivation at a for system s'')"
  using remote_derivation_routing [of 0 "[ex_remote_spec]" _
      "ex_turn (Some (WorkResult 0 (WorkItem [''a'']) (Inr (Derivation ex_drv))))"
      "WorkItem [''a'']" ex_drv ex_render initial_scheduler "[]" "[]"]
  by (simp add: ex_turn_def Let_def ex_remote_spec_def worker_accepts_system_def
      remote_accepts_system_def display_attr_def ex_drv_def)

end
