(* ===== verification/Descriptors.thy ===== *)
theory Descriptors
  imports Prelude
begin

text \<open>
  The descriptor table of a process, as the code that rearranges it sees it: what an open
  descriptor refers to and its two flag words, and a sequence of \<open>dup2\<close> calls that stops at
  the first failure. The daemon (\<open>evix-daemon/src/lib.rs\<close>) and a forked worker
  (\<open>evix/src/fork.rs\<close>) both detach their standard streams with it.
\<close>

record descriptor =
  de_target :: string
  de_flags :: "u32"
  de_status :: "u32"

type_synonym fd_table = "int \<Rightarrow> descriptor option"

definition FD_CLOEXEC :: u32 where
  "FD_CLOEXEC = 1"

definition O_NONBLOCK :: u32 where
  "O_NONBLOCK = 2048"

text \<open>\<open>dup2\<close> gives a descriptor that survives \<open>exec\<close>, unless both numbers are the same.\<close>

definition dup2 :: "int \<Rightarrow> int \<Rightarrow> fd_table \<Rightarrow> fd_table" where
  "dup2 source target fds =
     (if source = target then fds
      else fds(target := map_option (\<lambda>d. d\<lparr>de_flags := 0\<rparr>) (fds source)))"

fun dup2_all :: "(int \<Rightarrow> bool) \<Rightarrow> (int \<times> int) list \<Rightarrow> fd_table \<Rightarrow> bool \<times> fd_table" where
  "dup2_all dup2_ok [] fds = (True, fds)"
| "dup2_all dup2_ok ((source, target) # pairs) fds =
     (if \<not> dup2_ok target then (False, fds) else dup2_all dup2_ok pairs (dup2 source target fds))"

lemma dup2_all_other:
  "dup2_all dup2_ok pairs fds = (ok, fds') \<Longrightarrow> fd \<notin> snd ` set pairs \<Longrightarrow> fds' fd = fds fd"
proof (induction pairs arbitrary: fds)
  case (Cons p pairs)
  obtain source target where "p = (source, target)" by force
  with Cons.prems Cons.IH [of "dup2 source target fds"] show ?case
    by (auto simp: dup2_def split: if_splits)
qed simp

end
