(* ===== verification/Fork.thy ===== *)
theory Fork
  imports Paths Std_Text Descriptors
begin

text \<open>
  Forking the extra local workers from the first one (\<open>crates/evix/src/fork.rs\<close>): the slots a
  worker inherits through its environment, when a fork is due and when it is too dangerous,
  the loop that forks, reaping, and the replacement of inherited connections to the Nix
  daemon in the child. The system calls, \<open>/proc\<close> and the clock are read through records of
  what they returned, one for each turn of a loop.
\<close>

section \<open>Slots\<close>

record fork_slot =
  sl_socket :: int
  sl_stderr :: int

text \<open>\<open>Display\<close> of a descriptor.\<close>

definition show_int :: "int \<Rightarrow> string" where
  "show_int i = (if i < 0 then ''-'' @ show_nat (nat (- i)) else show_nat (nat i))"

definition slot_text :: "fork_slot \<Rightarrow> string" where
  "slot_text s = show_int (sl_socket s) @ '':'' @ show_int (sl_stderr s)"

definition env_value :: "fork_slot list \<Rightarrow> string" where
  "env_value slots = join '','' (map slot_text slots)"

text \<open>\<open>set_cloexec\<close> is \<open>fcntl(fd, F_SETFD, FD_CLOEXEC)\<close>: it fails for a descriptor that is not open.\<close>

definition inherited_fd :: "(int \<Rightarrow> unit result) \<Rightarrow> string \<Rightarrow> int result" where
  "inherited_fd set_cloexec s =
     (case parse_i32 s of
        Inl e \<Rightarrow> with_context ''parsing EVIX_FORK_FDS'' (external e)
      | Inr fd \<Rightarrow>
          and_then (with_context ''marking fork slot {fd} close-on-exec'' (set_cloexec fd)) (\<lambda>_. Inr fd))"

definition inherited_slot :: "(int \<Rightarrow> unit result) \<Rightarrow> string \<Rightarrow> fork_slot result" where
  "inherited_slot set_cloexec slot =
     (case split_once CHR '':'' slot of
        None \<Rightarrow> bail_fmt ''parsing EVIX_FORK_FDS slot {slot:?}'' [slot]
      | Some (socket, stderr) \<Rightarrow>
          and_then (inherited_fd set_cloexec socket) (\<lambda>s.
          and_then (inherited_fd set_cloexec stderr) (\<lambda>e.
            Inr \<lparr>sl_socket = s, sl_stderr = e\<rparr>)))"

definition inherited_slots :: "(int \<Rightarrow> unit result) \<Rightarrow> string option \<Rightarrow> fork_slot list result" where
  "inherited_slots set_cloexec fds =
     (case fds of
        None \<Rightarrow> Inr []
      | Some s \<Rightarrow>
          if \<not> valid_utf8 s then bail_fmt ''EVIX_FORK_FDS is not UTF-8: {fds:?}'' [s]
          else collect_results (inherited_slot set_cloexec) (split_char CHR '','' s))"

section \<open>The forker\<close>

record forker =
  fk_slots :: "fork_slot list"
  fk_forked :: usize
  fk_children :: "int list"
  fk_max_memory_kb :: usize

definition ITEMS_PER_FORK :: usize where
  "ITEMS_PER_FORK = 5"

text \<open>In milliseconds.\<close>

definition TIME_PER_FORK :: nat where
  "TIME_PER_FORK = 200"

definition is_daemon_store :: "string result \<Rightarrow> bool" where
  "is_daemon_store uri =
     (case uri of Inl _ \<Rightarrow> False | Inr u \<Rightarrow> u = ''daemon'' \<or> starts_with u ''unix://'')"

definition forker_from_env ::
  "(int \<Rightarrow> unit result) \<Rightarrow> string option \<Rightarrow> string result \<Rightarrow> usize \<Rightarrow> forker result" where
  "forker_from_env set_cloexec fds uri max_memory_mb =
     and_then (inherited_slots set_cloexec fds) (\<lambda>slots.
       Inr \<lparr>fk_slots = (if slots \<noteq> [] \<and> \<not> is_daemon_store uri then [] else slots), fk_forked = 0,
         fk_children = [], fk_max_memory_kb = saturating_mul max_memory_mb 1024\<rparr>)"

text \<open>\<open>waitpid\<close> with \<open>WNOHANG\<close> gives 0 for a child that still runs.\<close>

definition reap :: "(int \<Rightarrow> int) \<Rightarrow> forker \<Rightarrow> forker" where
  "reap waitpid f = f\<lparr>fk_children := filter (\<lambda>pid. waitpid pid = 0) (fk_children f)\<rparr>"

definition is_due :: "nat \<Rightarrow> usize \<Rightarrow> forker \<Rightarrow> bool" where
  "is_due elapsed completed f =
     (let next = min (unat (fk_forked f + 1)) (2 ^ 32 - 1) in
      saturating_mul ITEMS_PER_FORK (fk_forked f + 1) \<le> completed \<or> TIME_PER_FORK * next \<le> elapsed)"

text \<open>
  What one turn of the fork loop reads: the time since the clock started, the threads of the
  process with their names, the targets of its descriptors, what \<open>fork\<close> returned and, in the
  child, whether the daemon connections were replaced.
\<close>

record fork_view =
  fv_elapsed :: nat
  fv_main :: string
  fv_threads :: "(string \<times> string result) result list result"
  fv_fds :: "path result list result"
  fv_fork :: int
  fv_replace :: "unit result"

text \<open>\<open>Path::extension\<close>: what follows the last dot of the file name, unless the name starts with it.\<close>

definition path_extension :: "path \<Rightarrow> string option" where
  "path_extension p =
     (case file_name p of
        None \<Rightarrow> None
      | Some name \<Rightarrow>
          (case rev (split_char CHR ''.'' name) of
             ext # before # rest \<Rightarrow> if rest = [] \<and> before = [] then None else Some ext
           | _ \<Rightarrow> None))"

fun thread_hazard :: "string \<Rightarrow> (string \<times> string result) result list \<Rightarrow> string option result" where
  "thread_hazard main [] = Inr None"
| "thread_hazard main (Inl e # entries) = Inl e"
| "thread_hazard main (Inr (name, comm) # entries) =
     (if name = main then thread_hazard main entries
      else and_then (with_context ''reading a thread name'' comm) (\<lambda>c.
        if \<not> starts_with c ''GC-marker-'' then
          Inr (Some ''worker runs a thread other than libgc's markers'')
        else thread_hazard main entries))"

fun fd_hazard :: "path result list \<Rightarrow> string option result" where
  "fd_hazard [] = Inr None"
| "fd_hazard (Inl e # entries) = Inl e"
| "fd_hazard (Inr target # entries) =
     (if path_extension target = Some ''sqlite'' then Inr (Some ''worker has a SQLite database open'')
      else fd_hazard entries)"

definition fork_hazard :: "fork_view \<Rightarrow> usize \<Rightarrow> forker \<Rightarrow> string option result" where
  "fork_hazard v max_rss_kb f =
     (if fk_max_memory_kb f div 2 < max_rss_kb then Inr (Some ''worker is past half its memory limit'')
      else
        and_then (with_context ''listing threads'' (fv_threads v)) (\<lambda>threads.
        and_then (thread_hazard (fv_main v) threads) (\<lambda>hazard.
          case hazard of
            Some h \<Rightarrow> Inr (Some h)
          | None \<Rightarrow> and_then (with_context ''listing descriptors'' (fv_fds v)) fd_hazard)))"

text \<open>The loop of \<open>fork_due\<close>; \<open>view i\<close> is what its turn \<open>i\<close> reads.\<close>

function fork_due ::
  "(nat \<Rightarrow> fork_view) \<Rightarrow> nat \<Rightarrow> usize \<Rightarrow> usize \<Rightarrow> forker \<Rightarrow> fork_slot option result \<times> forker" where
  "fork_due view i completed max_rss_kb f =
     (case fk_slots f of
        [] \<Rightarrow> (Inr None, f)
      | slot # slots \<Rightarrow>
          if \<not> is_due (fv_elapsed (view i)) completed f then (Inr None, f)
          else (case fork_hazard (view i) max_rss_kb f of
             Inl e \<Rightarrow> (Inl e, f)
           | Inr (Some hazard) \<Rightarrow> (Inr None, f\<lparr>fk_slots := []\<rparr>)
           | Inr None \<Rightarrow>
               let f1 = f\<lparr>fk_slots := slots, fk_forked := fk_forked f + 1\<rparr>; pid = fv_fork (view i) in
               if pid < 0 then (Inr None, f1)
               else if 0 < pid then
                 fork_due view (Suc i) completed max_rss_kb (f1\<lparr>fk_children := fk_children f1 @ [pid]\<rparr>)
               else
                 let f2 = f1\<lparr>fk_slots := [], fk_children := []\<rparr> in
                 (case fv_replace (view i) of
                    Inl e \<Rightarrow> (Inl e, f2)
                  | Inr _ \<Rightarrow> (Inr (Some slot), f2))))"
  by pat_completeness auto

termination
  by (relation "measure (\<lambda>(view, i, completed, rss, f). length (fk_slots f))") auto

declare fork_due.simps [simp del]

section \<open>Replacing the daemon connections of the child\<close>

text \<open>
  One turn of \<open>replace_daemon_connections\<close>: the connected descriptors before and after a new
  connection is opened, whether it opened and answered, and whether \<open>dup2\<close> succeeded.
\<close>

record reconnect_view =
  rv_before :: "(int \<times> string) list result"
  rv_open :: "unit result"
  rv_version :: "unit result"
  rv_after :: "(int \<times> string) list result"
  rv_dup2 :: "unit result"

definition fresh_peers :: "(int \<times> string) list \<Rightarrow> (int \<times> string) list \<Rightarrow> (int \<times> string) list" where
  "fresh_peers before after = filter (\<lambda>(fd, _). list_all (\<lambda>(old, _). old \<noteq> fd) before) after"

definition peer_targets :: "string \<Rightarrow> (int \<times> string) list \<Rightarrow> int list" where
  "peer_targets peer before = map fst (filter (\<lambda>(_, p). p = peer) before)"

text \<open>
  The result comes with the calls of \<open>dup2\<close> made, each a pair of the fresh descriptor and the
  inherited one it replaces.
\<close>

function replace_daemon_connections ::
  "(nat \<Rightarrow> reconnect_view) \<Rightarrow> nat \<Rightarrow> int list option \<Rightarrow> (int \<times> int) list \<Rightarrow> unit result \<times> (int \<times> int) list"
where
  "replace_daemon_connections view i pending dups =
     (case rv_before (view i) of
        Inl e \<Rightarrow> (Inl e, dups)
      | Inr before \<Rightarrow>
     (case and_then (with_context ''opening a daemon connection'' (rv_open (view i)))
             (\<lambda>_. and_then (with_context ''connecting to the Nix daemon'' (rv_version (view i)))
               (\<lambda>_. rv_after (view i))) of
        Inl e \<Rightarrow> (Inl e, dups)
      | Inr after \<Rightarrow>
     (case fresh_peers before after of
        [(fresh_fd, peer)] \<Rightarrow>
          (let targets = option_or pending (peer_targets peer before) in
           if targets = [] then (Inr (), dups)
           else
             (case rv_dup2 (view i) of
                Inl e \<Rightarrow> (with_context ''replacing an inherited daemon connection'' (Inl e), dups)
              | Inr _ \<Rightarrow>
                  replace_daemon_connections view (Suc i) (Some (butlast targets))
                    (dups @ [(fresh_fd, last targets)])))
      | fresh \<Rightarrow>
          (bail (''expected one new daemon connection, found '' @ show_nat (length fresh)), dups))))"
  by pat_completeness auto

termination
  by (relation "measure (\<lambda>(view, i, pending, dups). case pending of
        None \<Rightarrow> Suc (case rv_before (view i) of Inl _ \<Rightarrow> 0 | Inr before \<Rightarrow> length before)
      | Some targets \<Rightarrow> length targets)")
    (auto simp: option_or_def peer_targets_def less_Suc_eq_le split: option.splits
      intro: le_trans [OF diff_le_self length_filter_le])

declare replace_daemon_connections.simps [simp del]

section \<open>Properties\<close>

lemma show_nat_no: "\<not> is_digit c \<Longrightarrow> c \<notin> set (show_nat n)"
  using show_nat_digits by blast

lemma inherited_slot_env:
  assumes "0 \<le> sl_socket s" "sl_socket s < 2 ^ 31" "0 \<le> sl_stderr s" "sl_stderr s < 2 ^ 31"
    and "set_cloexec (sl_socket s) = Inr ()" and "set_cloexec (sl_stderr s) = Inr ()"
  shows "inherited_slot set_cloexec (slot_text s) = Inr s"
proof -
  have "CHR '':'' \<notin> set (show_nat (nat (sl_socket s)))"
    by (rule show_nat_no) (simp add: is_digit_def)
  then show ?thesis
    using assms by (simp add: inherited_slot_def slot_text_def show_int_def inherited_fd_def
        parse_i32_show_nat nat_less_iff)
qed

definition slot_char :: "char \<Rightarrow> bool" where
  "slot_char c \<longleftrightarrow> is_digit c \<or> c = CHR '':'' \<or> c = CHR ''-''"

lemma slot_text_chars: "c \<in> set (slot_text s) \<Longrightarrow> slot_char c"
  by (auto simp: slot_text_def show_int_def slot_char_def split: if_splits dest: show_nat_digits)

lemma set_join: "c \<in> set (join sep xs) \<Longrightarrow> c \<in> set sep \<or> (\<exists>x \<in> set xs. c \<in> set x)"
  by (induction sep xs rule: join.induct) auto

lemma env_value_ascii:
  assumes "c \<in> set (env_value slots)"
  shows "(of_char c :: nat) < 128"
proof -
  from assms have "c = CHR '','' \<or> slot_char c"
    using set_join [of c "'',''" "map slot_text slots"] slot_text_chars [of c]
    by (auto simp: env_value_def)
  then show ?thesis by (auto simp: slot_char_def is_digit_def)
qed

lemma split_env_value:
  "slots \<noteq> [] \<Longrightarrow> split_char CHR '','' (env_value slots) = map slot_text slots"
  unfolding env_value_def
  using slot_text_chars [of "CHR '',''"] by (intro split_char_join) (auto simp: slot_char_def is_digit_def)

lemma collect_slots:
  "\<forall>s \<in> set slots. inherited_slot set_cloexec (g s) = Inr s \<Longrightarrow>
     collect_results (inherited_slot set_cloexec) (map g slots) = Inr slots"
  by (induction slots) simp_all

section \<open>The claims\<close>

text \<open>
  The fork slots survive the environment: the descriptors the coordinator writes into
  \<open>EVIX_FORK_FDS\<close> are the descriptors the worker reads back, in order, when all of them are
  open; and a worker without the variable has none.
\<close>

theorem fork_slots_roundtrip:
  assumes "slots \<noteq> []"
    and "\<forall>s \<in> set slots. 0 \<le> sl_socket s \<and> sl_socket s < 2 ^ 31 \<and> 0 \<le> sl_stderr s \<and> sl_stderr s < 2 ^ 31 \<and>
      set_cloexec (sl_socket s) = Inr () \<and> set_cloexec (sl_stderr s) = Inr ()"
  shows "inherited_slots set_cloexec (Some (env_value slots)) = Inr slots \<and>
    inherited_slots set_cloexec None = Inr []"
proof -
  have "valid_utf8 (env_value slots)" using env_value_ascii by (intro valid_utf8_ascii)
  moreover have "\<forall>s \<in> set slots.
      inherited_slot set_cloexec (slot_text s) = Inr s"
    using assms(2) by (blast intro: inherited_slot_env)
  ultimately show ?thesis
    by (simp add: inherited_slots_def split_env_value [OF assms(1)] collect_slots)
qed

theorem fork_slots_roundtrip_witness:
  "inherited_slots (\<lambda>_. Inr ()) (Some (env_value [\<lparr>sl_socket = 5, sl_stderr = 6\<rparr>, \<lparr>sl_socket = 10, sl_stderr = 11\<rparr>])) =
      Inr [\<lparr>sl_socket = 5, sl_stderr = 6\<rparr>, \<lparr>sl_socket = 10, sl_stderr = 11\<rparr>] \<and>
    inherited_slots (\<lambda>_. Inr ()) None = Inr []"
  by (rule fork_slots_roundtrip) simp_all

section \<open>The fork loop\<close>

text \<open>The \<open>j\<close>-th fork from state \<open>f\<close>, at turn \<open>i + j\<close> of the loop, was due and found no hazard.\<close>

definition fork_allowed :: "(nat \<Rightarrow> fork_view) \<Rightarrow> nat \<Rightarrow> usize \<Rightarrow> usize \<Rightarrow> forker \<Rightarrow> nat \<Rightarrow> bool" where
  "fork_allowed view i completed max_rss_kb f j \<longleftrightarrow>
     is_due (fv_elapsed (view (i + j))) completed (f\<lparr>fk_forked := fk_forked f + of_nat j\<rparr>) \<and>
     fork_hazard (view (i + j)) max_rss_kb f = Inr None"

lemma fork_hazard_cong:
  "fk_max_memory_kb f = fk_max_memory_kb g \<Longrightarrow> fork_hazard v rss f = fork_hazard v rss g"
  by (simp add: fork_hazard_def)

lemma is_due_cong: "fk_forked f = fk_forked g \<Longrightarrow> is_due e c f = is_due e c g"
  by (simp add: is_due_def)

lemma fork_due_Cons:
  assumes "fk_slots f = slot # slots" and "is_due (fv_elapsed (view i)) completed f"
    and "fork_hazard (view i) rss f = Inr None"
  shows "fork_due view i completed rss f =
    (let f1 = f\<lparr>fk_slots := slots, fk_forked := fk_forked f + 1\<rparr>; pid = fv_fork (view i) in
     if pid < 0 then (Inr None, f1)
     else if 0 < pid then
       fork_due view (Suc i) completed rss (f1\<lparr>fk_children := fk_children f1 @ [pid]\<rparr>)
     else
       let f2 = f1\<lparr>fk_slots := [], fk_children := []\<rparr> in
       (case fv_replace (view i) of Inl e \<Rightarrow> (Inl e, f2) | Inr _ \<Rightarrow> (Inr (Some slot), f2)))"
  using assms by (simp add: fork_due.simps [of view i])

lemma fork_due_refused:
  assumes "fork_due view i completed rss f = (r, f')" and "fk_slots f = slot # slots"
    and "\<not> (is_due (fv_elapsed (view i)) completed f \<and> fork_hazard (view i) rss f = Inr None)"
  shows "(\<forall>s. r \<noteq> Inr (Some s)) \<and> (f' = f \<or> f' = f\<lparr>fk_slots := []\<rparr>)"
  using assms
  by (auto simp: fork_due.simps [of view i] split: sum.splits option.splits if_splits)

text \<open>What a run of the loop that forked \<open>k\<close> times leaves behind.\<close>

definition forked_times ::
  "(nat \<Rightarrow> fork_view) \<Rightarrow> nat \<Rightarrow> usize \<Rightarrow> usize \<Rightarrow> forker \<Rightarrow> nat \<Rightarrow> fork_slot option result \<Rightarrow> forker \<Rightarrow> bool" where
  "forked_times view i completed rss f k r f' \<longleftrightarrow>
     k \<le> length (fk_slots f) \<and> (\<forall>j < k. fork_allowed view i completed rss f j) \<and>
     fk_forked f' = fk_forked f + of_nat k \<and> fk_max_memory_kb f' = fk_max_memory_kb f \<and>
     (fk_slots f' = [] \<or> fk_slots f' = drop k (fk_slots f)) \<and>
     (\<forall>slot. r = Inr (Some slot) \<longrightarrow>
        0 < k \<and> slot = fk_slots f ! (k - 1) \<and> fk_slots f' = [] \<and> fk_children f' = [])"

lemma forked_times_Suc:
  assumes "fork_allowed view i completed rss f 0" and "fk_slots f = slot # slots"
    and "forked_times view (Suc i) completed rss
      (f\<lparr>fk_slots := slots, fk_forked := fk_forked f + 1, fk_children := cs\<rparr>) k r f'"
  shows "forked_times view i completed rss f (Suc k) r f'"
proof -
  let ?f1 = "f\<lparr>fk_slots := slots, fk_forked := fk_forked f + 1, fk_children := cs\<rparr>"
  have shift: "fork_allowed view i completed rss f (Suc j) = fork_allowed view (Suc i) completed rss ?f1 j" for j
    using fork_hazard_cong [of f ?f1] is_due_cong
    by (simp add: fork_allowed_def is_due_def fork_hazard_def algebra_simps)
  have "\<forall>j < Suc k. fork_allowed view i completed rss f j"
    using assms(1,3) shift by (auto simp: forked_times_def less_Suc_eq_0_disj)
  with assms(2,3) show ?thesis
    by (auto simp: forked_times_def algebra_simps nth_Cons')
qed

lemma fork_due_forked_times:
  "fork_due view i completed rss f = (r, f') \<Longrightarrow> \<exists>k. forked_times view i completed rss f k r f'"
proof (induction view i completed rss f arbitrary: r f' rule: fork_due.induct)
  case (1 view i completed rss f)
  show ?case
  proof (cases "fk_slots f")
    case Nil
    with "1.prems" have "forked_times view i completed rss f 0 r f'"
      by (auto simp: fork_due.simps [of view i] forked_times_def)
    then show ?thesis ..
  next
    case (Cons slot slots)
    show ?thesis
    proof (cases "is_due (fv_elapsed (view i)) completed f \<and> fork_hazard (view i) rss f = Inr None")
      case False
      from fork_due_refused [OF "1.prems" Cons False]
      have "forked_times view i completed rss f 0 r f'" by (auto simp: forked_times_def)
      then show ?thesis ..
    next
      case True
      then have allowed: "fork_allowed view i completed rss f 0" by (simp add: fork_allowed_def)
      let ?f1 = "f\<lparr>fk_slots := slots, fk_forked := fk_forked f + 1\<rparr>"
      consider "fv_fork (view i) < 0" | "0 < fv_fork (view i)" | "fv_fork (view i) = 0" by linarith
      then show ?thesis
      proof cases
        case 1
        with "1.prems" True Cons have "forked_times view i completed rss f 1 r f'"
          using allowed by (auto simp: fork_due_Cons forked_times_def)
        then show ?thesis ..
      next
        case 2
        let ?f2 = "?f1\<lparr>fk_children := fk_children f @ [fv_fork (view i)]\<rparr>"
        from 2 "1.prems" True Cons have "fork_due view (Suc i) completed rss ?f2 = (r, f')"
          by (simp add: fork_due_Cons)
        then obtain k where "forked_times view (Suc i) completed rss ?f2 k r f'"
          using "1.IH" [OF Cons] True 2 by fastforce
        with forked_times_Suc [OF allowed Cons] show ?thesis by blast
      next
        case 3
        with "1.prems" True Cons have "forked_times view i completed rss f 1 r f'"
          using allowed by (auto simp: fork_due_Cons forked_times_def Let_def split: sum.splits)
        then show ?thesis ..
      qed
    qed
  qed
qed

text \<open>
  Forking stays within its rules: whatever the process sees on each turn, a run of the
  fork loop forks at most once per slot, in slot order, each time only when a fork was due and
  no hazard was found, so never past half the memory limit; and the child keeps no slots and
  no children of its own, so that it never forks again.
\<close>

theorem forks_are_due_and_safe:
  assumes "fork_due view 0 completed max_rss_kb f = (r, f')"
  shows "\<exists>k \<le> length (fk_slots f). fk_forked f' = fk_forked f + of_nat k \<and>
    (\<forall>j < k. is_due (fv_elapsed (view j)) completed (f\<lparr>fk_forked := fk_forked f + of_nat j\<rparr>) \<and>
       fork_hazard (view j) max_rss_kb f = Inr None \<and> max_rss_kb \<le> fk_max_memory_kb f div 2) \<and>
    (fk_slots f' = [] \<or> fk_slots f' = drop k (fk_slots f)) \<and>
    (\<forall>slot. r = Inr (Some slot) \<longrightarrow>
       0 < k \<and> slot = fk_slots f ! (k - 1) \<and> fk_slots f' = [] \<and> fk_children f' = [] \<and>
       (\<forall>view' completed' rss'. fork_due view' 0 completed' rss' f' = (Inr None, f')))"
proof -
  have rss: "max_rss_kb \<le> fk_max_memory_kb f div 2" if "fork_hazard v max_rss_kb f = Inr None" for v
    using that by (auto simp: fork_hazard_def split: if_splits)
  have stop: "fk_slots g = [] \<Longrightarrow> fork_due view' 0 completed' rss' g = (Inr None, g)"
    for g :: forker and view' completed' rss'
    by (simp add: fork_due.simps [of view' 0])
  from fork_due_forked_times [OF assms] obtain k where "forked_times view 0 completed max_rss_kb f k r f'" ..
  then show ?thesis
    using rss stop by (intro exI [of _ k]) (auto simp: forked_times_def fork_allowed_def)
qed

definition ex_fork_view :: "nat \<Rightarrow> fork_view" where
  "ex_fork_view i = \<lparr>fv_elapsed = 0, fv_main = ''1'', fv_threads = Inr [Inr (''1'', Inr ''evix'')],
     fv_fds = Inr [Inr ''/dev/null''], fv_fork = (if i = 0 then 42 else 0), fv_replace = Inr ()\<rparr>"

definition ex_forker :: forker where
  "ex_forker = \<lparr>fk_slots = [\<lparr>sl_socket = 5, sl_stderr = 6\<rparr>, \<lparr>sl_socket = 7, sl_stderr = 8\<rparr>],
     fk_forked = 0, fk_children = [], fk_max_memory_kb = 4096\<rparr>"

definition ex_child :: forker where
  "ex_child = \<lparr>fk_slots = [], fk_forked = 2, fk_children = [], fk_max_memory_kb = 4096\<rparr>"

lemma ex_fork_run:
  "fork_due ex_fork_view 0 10 100 ex_forker = (Inr (Some \<lparr>sl_socket = 7, sl_stderr = 8\<rparr>), ex_child)"
  by (simp add: fork_due.simps [of _ 0] fork_due.simps [of _ 1] fork_due.simps [of _ "Suc 0"] is_due_def
      fork_hazard_def ex_fork_view_def ex_forker_def ex_child_def ITEMS_PER_FORK_def saturating_mul_def
      path_extension_def file_name_def path_components_def component_of_def starts_with_def)

theorem forks_are_due_and_safe_witness:
  "\<exists>k. 0 < k \<and> k \<le> length (fk_slots ex_forker) \<and> fk_forked ex_child = fk_forked ex_forker + of_nat k \<and>
    list_all (\<lambda>j. is_due (fv_elapsed (ex_fork_view j)) 10 (ex_forker\<lparr>fk_forked := fk_forked ex_forker + of_nat j\<rparr>) \<and>
       fork_hazard (ex_fork_view j) 100 ex_forker = Inr None \<and> 100 \<le> fk_max_memory_kb ex_forker div 2) [0..<k] \<and>
    \<lparr>sl_socket = 7, sl_stderr = 8\<rparr> = fk_slots ex_forker ! (k - 1) \<and> fk_slots ex_child = [] \<and> fk_children ex_child = []"
  using forks_are_due_and_safe [OF ex_fork_run] by (auto simp: list_all_iff)

section \<open>Replaced connections\<close>

lemma replace_daemon_connections_step:
  assumes "replace_daemon_connections view i pending dups = (Inr (), dups')"
  obtains before after fresh peer where "rv_before (view i) = Inr before" "rv_after (view i) = Inr after"
    "fresh_peers before after = [(fresh, peer)]"
    "option_or pending (peer_targets peer before) = [] \<and> dups' = dups \<or>
     option_or pending (peer_targets peer before) \<noteq> [] \<and>
     replace_daemon_connections view (Suc i)
       (Some (butlast (option_or pending (peer_targets peer before))))
       (dups @ [(fresh, last (option_or pending (peer_targets peer before)))]) = (Inr (), dups')"
proof -
  from assms obtain before after where b: "rv_before (view i) = Inr before"
    and a: "rv_after (view i) = Inr after"
    by (subst (asm) replace_daemon_connections.simps)
      (auto simp: and_then_Ok_iff split: sum.splits)
  from assms a b obtain fresh peer where "fresh_peers before after = [(fresh, peer)]"
    by (subst (asm) replace_daemon_connections.simps)
      (auto simp: and_then_def split: sum.splits list.splits)
  with a b assms show ?thesis
    by (intro that) (auto simp: replace_daemon_connections.simps [of view i] and_then_def Let_def
        split: sum.splits if_splits)
qed

lemma replace_pending_targets:
  "replace_daemon_connections view i (Some targets) dups = (Inr (), dups') \<Longrightarrow>
     map snd dups' = map snd dups @ rev targets"
proof (induction targets arbitrary: i dups rule: rev_induct)
  case Nil
  then show ?case by (rule replace_daemon_connections_step) simp
next
  case (snoc t targets)
  from snoc.prems show ?case
    by (rule replace_daemon_connections_step) (use snoc.IH in fastforce)
qed

text \<open>
  A forked child shares no daemon connection with its parent: when the replacement
  succeeds, every descriptor that was connected to the daemon socket before the first new
  connection has been replaced by a fresh one, exactly once, and no other descriptor has.
\<close>

theorem child_replaces_daemon_connections:
  assumes "replace_daemon_connections view 0 None [] = (Inr (), dups)"
  shows "\<exists>before after fresh peer. rv_before (view 0) = Inr before \<and> rv_after (view 0) = Inr after \<and>
    fresh_peers before after = [(fresh, peer)] \<and> map snd dups = rev (peer_targets peer before)"
  using assms
proof (rule replace_daemon_connections_step)
  fix before after fresh peer
  let ?t = "peer_targets peer before"
  assume view: "rv_before (view 0) = Inr before" "rv_after (view 0) = Inr after"
    "fresh_peers before after = [(fresh, peer)]"
    and rest: "option_or None ?t = [] \<and> dups = [] \<or> option_or None ?t \<noteq> [] \<and>
      replace_daemon_connections view (Suc 0) (Some (butlast (option_or None ?t)))
        ([] @ [(fresh, last (option_or None ?t))]) = (Inr (), dups)"
  have "map snd dups = rev ?t"
  proof (cases "?t = []")
    case False
    with rest replace_pending_targets [of view 1 "butlast ?t" "[(fresh, last ?t)]" dups]
    have "map snd dups = last ?t # rev (butlast ?t)" by simp
    with False show ?thesis by (metis append_butlast_last_id rev_eq_Cons_iff rev_rev_ident)
  qed (use rest in simp)
  with view show ?thesis by blast
qed

definition ex_reconnect :: "nat \<Rightarrow> reconnect_view" where
  "ex_reconnect i = \<lparr>rv_before = Inr ((5, ''/d'') # (6, ''/x'') # map (\<lambda>k. (int (10 + k), ''/d'')) [0..<i]),
     rv_open = Inr (), rv_version = Inr (),
     rv_after = Inr ((5, ''/d'') # (6, ''/x'') # map (\<lambda>k. (int (10 + k), ''/d'')) [0..<Suc i]), rv_dup2 = Inr ()\<rparr>"

theorem child_replaces_daemon_connections_witness:
  "\<exists>before after fresh peer. rv_before (ex_reconnect 0) = Inr before \<and> rv_after (ex_reconnect 0) = Inr after \<and>
    fresh_peers before after = [(fresh, peer)] \<and> map snd [(10 :: int, 5)] = rev (peer_targets peer before)"
proof (rule child_replaces_daemon_connections)
  show "replace_daemon_connections ex_reconnect 0 None [] = (Inr (), [(10, 5)])" by code_simp
qed


section \<open>Peers and standard streams\<close>

text \<open>
  \<open>unix_peer\<close>: \<open>address\<close> is what \<open>getpeername\<close> stored, a family and the bytes of \<open>sun_path\<close>, and
  \<open>None\<close> when it failed. An abstract address starts with a zero byte and has no path.
\<close>

definition AF_UNIX :: nat where
  "AF_UNIX = 1"

definition unix_peer :: "(nat \<times> string) option \<Rightarrow> string option" where
  "unix_peer address =
     (case address of
        None \<Rightarrow> None
      | Some (family, sun_path) \<Rightarrow>
          if family \<noteq> AF_UNIX then None
          else
            let path = takeWhile (\<lambda>b. b \<noteq> CHR 0x00) sun_path
            in if path = [] then None else Some path)"

fun collect_peers :: "(int \<Rightarrow> (nat \<times> string) option) \<Rightarrow> string result list \<Rightarrow> (int \<times> string) list result" where
  "collect_peers getpeername [] = Inr []"
| "collect_peers getpeername (Inl e # entries) = Inl e"
| "collect_peers getpeername (Inr name # entries) =
     (case (if valid_utf8 name then parse_i32 name else Inl []) of
        Inl _ \<Rightarrow> collect_peers getpeername entries
      | Inr fd \<Rightarrow>
          (case unix_peer (getpeername fd) of
             None \<Rightarrow> collect_peers getpeername entries
           | Some path \<Rightarrow>
               and_then (collect_peers getpeername entries) (\<lambda>peers. Inr ((fd, path) # peers))))"

text \<open>\<open>entries\<close> is the listing of \<open>/proc/self/fd\<close>.\<close>

definition unix_peers ::
  "string result list result \<Rightarrow> (int \<Rightarrow> (nat \<times> string) option) \<Rightarrow> (int \<times> string) list result" where
  "unix_peers entries getpeername =
     and_then (with_context ''listing descriptors'' entries) (collect_peers getpeername)"

text \<open>Both descriptors are owned by the function: they are closed when it returns.\<close>

definition detach_stdio :: "int result \<Rightarrow> (int \<Rightarrow> bool) \<Rightarrow> int \<Rightarrow> fd_table \<Rightarrow> unit result \<times> fd_table" where
  "detach_stdio opened dup2_ok stderr fds =
     (case with_context ''opening /dev/null'' opened of
        Inl e \<Rightarrow> (Inl e, fds(stderr := None))
      | Inr null \<Rightarrow>
          (case dup2_all dup2_ok [(null, 0), (null, 1), (stderr, 2)]
                  (fds(null \<mapsto> \<lparr>de_target = ''/dev/null'', de_flags = FD_CLOEXEC, de_status = 0\<rparr>)) of
             (ok, fds1) \<Rightarrow>
               ((if ok then Inr () else with_context ''redirecting worker stdio'' (external ''io'')),
                fds1(null := None, stderr := None))))"

lemma unix_peers_distinct:
  assumes "unix_peers (Inr (map (Inr \<circ> (show_nat \<circ> nat)) fds)) getpeername = Inr peers"
    and "\<forall>fd \<in> set fds. 0 \<le> fd \<and> fd < 2 ^ 31"
  shows "peers = List.map_filter (\<lambda>fd. map_option (Pair fd) (unix_peer (getpeername fd))) fds"
proof -
  have valid: "valid_utf8 (show_nat n)" for n
    using show_nat_digits [of _ n] by (intro valid_utf8_ascii) (force simp: is_digit_def)
  have "collect_peers getpeername (map (Inr \<circ> (show_nat \<circ> nat)) fds) = Inr peers \<Longrightarrow> ?thesis"
    using assms(2)
  proof (induction fds arbitrary: peers)
    case (Cons fd fds)
    then have "nat fd < 2 ^ 31" "0 \<le> fd" by (simp_all add: nat_less_iff)
    then have "parse_i32 (show_nat (nat fd)) = Inr fd"
      using parse_i32_show_nat [of "nat fd"] by simp
    with Cons valid show ?case
      by (auto simp: List.map_filter_simps and_then_Ok_iff split: option.splits)
  qed (simp add: List.map_filter_simps)
  with assms(1) show ?thesis by (simp add: unix_peers_def)
qed

text \<open>
  A forked worker is cut off from the terminal of the process it was forked from: its input
  and output are \<open>/dev/null\<close>, its errors go where its slot says, its own copies of the two
  descriptors are closed, and nothing else changes.
\<close>

lemma detach_stdio_exact:
  assumes "2 < null" and "2 < stderr" and "null \<noteq> stderr"
    and "fds null = None" and "fds stderr = Some d"
    and "detach_stdio (Inr null) dup2_ok stderr fds = (Inr (), fds')"
  shows "fds' fd =
    (if fd = 0 \<or> fd = 1 then Some \<lparr>de_target = ''/dev/null'', de_flags = 0, de_status = 0\<rparr>
     else if fd = 2 then Some (d\<lparr>de_flags := 0\<rparr>)
     else if fd = stderr then None
     else fds fd)"
  using assms by (auto simp: detach_stdio_def dup2_def split: if_splits)

end
