(* ===== verification/Worker_Process.thy ===== *)
theory Worker_Process
  imports Worker_Wire Warm_State Fork
begin

text \<open>
  The coordinator's handle on a worker process (\<open>crates/evix/src/worker_process.rs\<close>): spawning
  with its handshake and start-up limit, attaching a forked worker, one request with its two
  replies, stopping and aborting, the bounded capture of standard error that failures report,
  and the configuration file that carries the Nix options. Processes, pipes and environment
  variables are the operating system's: a process is the replies that can still be read from
  it, whether it can be written to, its exit status and its standard error.
\<close>

section \<open>Standard error\<close>

definition STDERR_TAIL_LIMIT :: nat where
  "STDERR_TAIL_LIMIT = 64 * 1024"

definition STDERR_READ_CHUNK :: nat where
  "STDERR_READ_CHUNK = 8 * 1024"

definition STDERR_LINE_LIMIT :: nat where
  "STDERR_LINE_LIMIT = 16 * 1024"

definition push_byte :: "nat \<Rightarrow> string \<Rightarrow> char \<Rightarrow> string" where
  "push_byte limit tail b = (if length tail = limit then tl tail else tail) @ [b]"

definition push_tail :: "string \<Rightarrow> string \<Rightarrow> string" where
  "push_tail tail bytes = foldl (push_byte STDERR_TAIL_LIMIT) tail bytes"

definition tail_to_string :: "string \<Rightarrow> string" where
  "tail_to_string tail = utf8_lossy tail"

text \<open>A line as it is logged, and whether it was cut.\<close>

type_synonym stderr_line = "string \<times> bool"

definition trace_stderr_line :: "string \<Rightarrow> bool \<Rightarrow> stderr_line" where
  "trace_stderr_line line truncated = (utf8_lossy line, truncated)"

record capture =
  cp_tail :: string
  cp_line :: string
  cp_truncated :: bool
  cp_logged :: "stderr_line list"

definition new_capture :: capture where
  "new_capture = \<lparr>cp_tail = [], cp_line = [], cp_truncated = False, cp_logged = []\<rparr>"

definition capture_byte :: "capture \<Rightarrow> char \<Rightarrow> capture" where
  "capture_byte c b =
     (if b = CHR 0x0A then
        c\<lparr>cp_logged := cp_logged c @ [trace_stderr_line (cp_line c) (cp_truncated c)],
          cp_line := [], cp_truncated := False\<rparr>
      else if length (cp_line c) < STDERR_LINE_LIMIT then c\<lparr>cp_line := cp_line c @ [b]\<rparr>
      else c\<lparr>cp_truncated := True\<rparr>)"

definition capture_chunk :: "capture \<Rightarrow> string \<Rightarrow> capture" where
  "capture_chunk c buf = foldl capture_byte (c\<lparr>cp_tail := push_tail (cp_tail c) buf\<rparr>) buf"

text \<open>The reads of the pipe, in order: a read of no bytes is its end, and so is the end of the list.\<close>

fun capture_loop :: "string result list \<Rightarrow> capture \<Rightarrow> capture result" where
  "capture_loop [] c = Inr c"
| "capture_loop (Inl e # reads) c = Inl e"
| "capture_loop (Inr buf # reads) c =
     (if buf = [] then Inr c else capture_loop reads (capture_chunk c buf))"

definition capture_stderr :: "string result list \<Rightarrow> (string \<times> stderr_line list) result" where
  "capture_stderr reads =
     and_then (capture_loop reads new_capture) (\<lambda>c.
       Inr (tail_to_string (cp_tail c),
         cp_logged c @ (if cp_line c \<noteq> [] \<or> cp_truncated c
           then [trace_stderr_line (cp_line c) (cp_truncated c)] else [])))"

section \<open>Nix options\<close>

definition validate_nix_option_part :: "string \<Rightarrow> string \<Rightarrow> unit result" where
  "validate_nix_option_part label part =
     (if CHR 0x0A \<in> set part \<or> CHR 0x0D \<in> set part then
        bail (''nix option '' @ label @ '' must not contain newlines'')
      else if first_word part \<in> {Some ''include'', Some ''!include''} then
        bail (''nix option '' @ label @ '' must not start with include directives'')
      else Inr ())"

fun validate_nix_options :: "(string \<times> string) list \<Rightarrow> unit result" where
  "validate_nix_options [] = Inr ()"
| "validate_nix_options ((key, v) # options) =
     and_then (validate_nix_option_part ''key'' key) (\<lambda>_.
     and_then (validate_nix_option_part ''value'' v) (\<lambda>_. validate_nix_options options))"

definition nix_options_contents :: "(string \<times> string) list \<Rightarrow> string" where
  "nix_options_contents options =
     foldl (\<lambda>contents (key, v). contents @ key @ '' = '' @ v @ [CHR 0x0A]) [] options"

text \<open>What the process reads from its environment and file system.\<close>

record process_env =
  pe_current_exe :: "path result"
  pe_temp_dir :: path
  pe_pid :: nat
  pe_nanos :: nat
  pe_write_file :: "path \<Rightarrow> string \<Rightarrow> unit result"
  pe_nix_user_conf_files :: "string option"
  pe_xdg_config_home :: "path option"
  pe_home :: "path option"
  pe_exists :: "path \<Rightarrow> bool"

definition default_nix_user_conf_file :: "process_env \<Rightarrow> path option" where
  "default_nix_user_conf_file env =
     (case (case pe_xdg_config_home env of
              Some dir \<Rightarrow> Some dir
            | None \<Rightarrow> map_option (\<lambda>home. path_join home ''.config'') (pe_home env)) of
        None \<Rightarrow> None
      | Some config_dir \<Rightarrow>
          let config_file = path_join config_dir ''nix/nix.conf'' in
          if pe_exists env config_file then Some config_file else None)"

text \<open>\<open>env::join_paths\<close> refuses a path with the separator in it.\<close>

definition join_paths :: "path list \<Rightarrow> string result" where
  "join_paths ps = (if list_ex (\<lambda>p. CHR '':'' \<in> set p) ps then external ''join_paths'' else Inr (join '':'' ps))"

definition nix_user_conf_files :: "process_env \<Rightarrow> path \<Rightarrow> string option \<Rightarrow> string result" where
  "nix_user_conf_files env generated previous =
     with_context ''joining NIX_USER_CONF_FILES'' (join_paths (generated #
       (case previous of
          Some v \<Rightarrow>
            if v \<noteq> [] then split_char CHR '':'' v
            else (case default_nix_user_conf_file env of None \<Rightarrow> [] | Some p \<Rightarrow> [p])
        | None \<Rightarrow> (case default_nix_user_conf_file env of None \<Rightarrow> [] | Some p \<Rightarrow> [p]))))"

record nix_options_file =
  nf_path :: path
  nf_conf_files :: string

definition prepare_nix_options_env ::
  "process_env \<Rightarrow> (string \<times> string) list \<Rightarrow> nix_options_file option result" where
  "prepare_nix_options_env env options =
     (if options = [] then Inr None
      else
        and_then (validate_nix_options options) (\<lambda>_.
        let p = path_join (pe_temp_dir env)
              (''evix-nix-options-'' @ show_nat (pe_pid env) @ ''-'' @ show_nat (pe_nanos env) @ ''.conf'')
        in and_then (with_context ''writing Nix options file''
               (pe_write_file env p (nix_options_contents options))) (\<lambda>_.
           and_then (nix_user_conf_files env p (pe_nix_user_conf_files env)) (\<lambda>conf_files.
             Inr (Some \<lparr>nf_path = p, nf_conf_files = conf_files\<rparr>)))))"

section \<open>Worker processes\<close>

text \<open>
  \<open>wp_replies sent\<close> are the messages on the worker's output once the messages \<open>sent\<close> have been
  written to it, of which the first \<open>wp_read\<close> have been read; \<open>wp_write_error\<close> is what a write
  fails with, \<open>wp_exit\<close> the exit status as displayed, and \<open>wp_stderr\<close> the capture task until it is
  awaited. Messages a dead worker no longer sends are missing from its replies: reading past
  their end is the end of the stream.
\<close>

record worker_process =
  wp_label :: string
  wp_forked :: bool
  wp_replies :: "client_message list \<Rightarrow> server_message result list"
  wp_read :: nat
  wp_write_error :: "report option"
  wp_exit :: "string option"
  wp_stderr :: "string option"
  wp_sent :: "client_message list"
  wp_killed :: bool

record work_response =
  wr_event :: event
  wr_status :: worker_status

definition wp_write :: "client_message \<Rightarrow> worker_process \<Rightarrow> unit result \<times> worker_process" where
  "wp_write m w =
     (case wp_write_error w of
        Some e \<Rightarrow> (Inl e, w)
      | None \<Rightarrow> (Inr (), w\<lparr>wp_sent := wp_sent w @ [m]\<rparr>))"

definition take_stderr :: "worker_process \<Rightarrow> string \<times> worker_process" where
  "take_stderr w = (option_or (wp_stderr w) [], w\<lparr>wp_stderr := None\<rparr>)"

definition exit_error ::
  "(report \<Rightarrow> string) \<Rightarrow> string \<Rightarrow> string \<Rightarrow> report \<Rightarrow> worker_process \<Rightarrow> report \<times> worker_process" where
  "exit_error render phase attr source w =
     (let status = (if wp_forked w then None else wp_exit w);
          (stderr, w1) = take_stderr w;
          stderr = trim stderr;
          message = ''evix worker '' @ wp_label w @ '' failed while reading '' @ phase @ '' for '' @
            attr @ '': '' @ render source;
          message = (case status of None \<Rightarrow> message | Some s \<Rightarrow> message @ '' (status: '' @ s @ '')'');
          message = (if stderr = [] then message
            else message @ [CHR 0x0A] @ ''worker stderr:'' @ [CHR 0x0A] @ stderr)
      in (Report [] (Message message), w1))"

text \<open>The end of the worker's output is an error of the reader.\<close>

definition read_message ::
  "(report \<Rightarrow> string) \<Rightarrow> string \<Rightarrow> string \<Rightarrow> worker_process \<Rightarrow> server_message result \<times> worker_process" where
  "read_message render phase attr w =
     (let (r, w1) = (case drop (wp_read w) (wp_replies w (wp_sent w)) of
            [] \<Rightarrow> (external ''end of stream'', w)
          | m # _ \<Rightarrow> (m, w\<lparr>wp_read := Suc (wp_read w)\<rparr>))
      in case r of
           Inr m \<Rightarrow> (Inr m, w1)
         | Inl e \<Rightarrow> (case exit_error render phase attr e w1 of (e', w2) \<Rightarrow> (Inl e', w2)))"

definition read_ready :: "(report \<Rightarrow> string) \<Rightarrow> worker_process \<Rightarrow> unit result \<times> worker_process" where
  "read_ready render w =
     (case read_message render ''handshake'' ''<startup>'' w of
        (Inl e, w1) \<Rightarrow> (Inl e, w1)
      | (Inr m, w1) \<Rightarrow>
          (case m of
             ServerReady \<Rightarrow> Inr ()
           | ServerError error \<Rightarrow> bail (''worker '' @ wp_label w1 @ '' failed: '' @ error)
           | _ \<Rightarrow> bail_fmt ''unexpected worker handshake: {other:?}'' [], w1))"

definition read_event_reply ::
  "(report \<Rightarrow> string) \<Rightarrow> attr_path \<Rightarrow> worker_process \<Rightarrow> event result \<times> worker_process" where
  "read_event_reply render p w =
     (case read_message render ''event'' (join ''.'' p) w of
        (Inl e, w1) \<Rightarrow> (Inl e, w1)
      | (Inr m, w1) \<Rightarrow>
          (case m of
             ServerEvent e \<Rightarrow> Inr e
           | ServerError error \<Rightarrow> bail (''worker '' @ wp_label w1 @ '' failed: '' @ error)
           | _ \<Rightarrow> bail_fmt ''unexpected worker event for {path:?}: {other:?}'' p, w1))"

definition read_status_reply ::
  "(report \<Rightarrow> string) \<Rightarrow> string \<Rightarrow> worker_process \<Rightarrow> worker_status result \<times> worker_process" where
  "read_status_reply render attr w =
     (case read_message render ''status'' attr w of
        (Inl e, w1) \<Rightarrow> (Inl e, w1)
      | (Inr m, w1) \<Rightarrow>
          (case m of
             ServerStatus s \<Rightarrow> Inr s
           | ServerError error \<Rightarrow> bail (''worker '' @ wp_label w1 @ '' failed: '' @ error)
           | _ \<Rightarrow> bail_fmt ''unexpected worker status for {attr}: {other:?}'' [attr], w1))"

definition wp_work ::
  "(report \<Rightarrow> string) \<Rightarrow> attr_path \<Rightarrow> worker_process \<Rightarrow> work_response result \<times> worker_process" where
  "wp_work render p w =
     (let attr = join ''.'' p in
      case wp_write (Work p) w of
        (Inl err, w1) \<Rightarrow> (case exit_error render ''request'' attr err w1 of (e, w2) \<Rightarrow> (Inl e, w2))
      | (Inr _, w1) \<Rightarrow>
          (case read_event_reply render p w1 of
             (Inl e, w2) \<Rightarrow> (Inl e, w2)
           | (Inr event, w2) \<Rightarrow>
               (case read_status_reply render attr w2 of
                  (Inl e, w3) \<Rightarrow> (Inl e, w3)
                | (Inr status, w3) \<Rightarrow> (Inr \<lparr>wr_event = event, wr_status = status\<rparr>, w3))))"

definition wp_wait :: "worker_process \<Rightarrow> string option \<times> worker_process" where
  "wp_wait w =
     (let (status, w1) = (if wp_forked w then (None, w\<lparr>wp_read := length (wp_replies w (wp_sent w))\<rparr>) else (wp_exit w, w))
      in (status, snd (take_stderr w1)))"

definition wp_stop :: "worker_process \<Rightarrow> worker_process" where
  "wp_stop w = snd (wp_wait (snd (wp_write Shutdown w)))"

definition wp_abort :: "worker_process \<Rightarrow> worker_process" where
  "wp_abort w = snd (wp_wait (w\<lparr>wp_killed := True\<rparr>))"

definition wp_drop :: "worker_process \<Rightarrow> worker_process" where
  "wp_drop w = (if wp_forked w then w\<lparr>wp_killed := True\<rparr> else w)"

section \<open>Starting a worker\<close>

text \<open>
  \<open>spawn\<close> starts the executable with two variables of its environment, the configuration files
  and the descriptors of the fork slots;
  \<open>timed_out\<close> says whether the handshake took longer than the start-up limit.
\<close>

definition handshake :: "(report \<Rightarrow> string) \<Rightarrow> worker_config \<Rightarrow> worker_process \<Rightarrow> worker_process result" where
  "handshake render config worker =
     (case wp_write (Setup config None None) worker of
        (Inl err, w1) \<Rightarrow> Inl (fst (exit_error render ''setup'' ''<startup>'' err w1))
      | (Inr _, w1) \<Rightarrow>
          (case read_ready render w1 of
             (Inl e, w2) \<Rightarrow> Inl e
           | (Inr _, w2) \<Rightarrow> Inr w2))"

definition spawn_local ::
  "(report \<Rightarrow> string) \<Rightarrow> process_env \<Rightarrow> (path \<Rightarrow> string option \<Rightarrow> string option \<Rightarrow> worker_process result) \<Rightarrow>
    bool \<Rightarrow> worker_config \<Rightarrow> string \<Rightarrow> path option \<Rightarrow> fork_slot list \<Rightarrow> worker_process result" where
  "spawn_local render env spawn timed_out config label worker_exe fork_slots =
     and_then (case worker_exe of
         Some p \<Rightarrow> Inr p
       | None \<Rightarrow> with_context ''resolving current exe'' (pe_current_exe env)) (\<lambda>exe.
     and_then (prepare_nix_options_env env (w_nix_options config)) (\<lambda>nix_options_file.
     and_then (with_context (''spawning worker process for '' @ label)
         (spawn exe (map_option nf_conf_files nix_options_file)
            (if fork_slots = [] then None else Some (env_value fork_slots)))) (\<lambda>child.
       let worker = child\<lparr>wp_label := label, wp_forked := False\<rparr> in
       if timed_out then
         Inl (fst (exit_error render ''handshake'' ''<startup>''
           (Report [] (Message (''worker did not start within '' @
              show_nat (unat (w_item_timeout_seconds config)) @ ''s''))) worker))
       else handshake render config worker)))"

datatype pid_read = PidEof | PidError report | PidBytes char char char char

definition pid_of_bytes :: "char \<Rightarrow> char \<Rightarrow> char \<Rightarrow> char \<Rightarrow> nat" where
  "pid_of_bytes a b c d = of_char a + 256 * (of_char b + 256 * (of_char c + 256 * of_char d))"

text \<open>A process identifier is a signed 32-bit number.\<close>

definition attach ::
  "(report \<Rightarrow> string) \<Rightarrow> (nat \<Rightarrow> unit result) \<Rightarrow> string \<Rightarrow> pid_read \<Rightarrow> worker_process \<Rightarrow> worker_process option result"
where
  "attach render pidfd_open label pid w =
     (case pid of
        PidEof \<Rightarrow> Inr None
      | PidError e \<Rightarrow> with_context ''reading forked worker pid'' (Inl e)
      | PidBytes a b c d \<Rightarrow>
          let n = pid_of_bytes a b c d in
          if n = 0 \<or> 2 ^ 31 \<le> n then bail ''forked worker sent an invalid pid''
          else and_then (pidfd_open n) (\<lambda>_.
            case read_ready render (w\<lparr>wp_label := label, wp_forked := True\<rparr>) of
              (Inl e, _) \<Rightarrow> Inl e
            | (Inr _, w1) \<Rightarrow> Inr (Some w1)))"

definition attach_forked ::
  "(report \<Rightarrow> string) \<Rightarrow> (nat \<Rightarrow> unit result) \<Rightarrow> bool \<Rightarrow> worker_config \<Rightarrow> string \<Rightarrow> pid_read \<Rightarrow> worker_process
    \<Rightarrow> worker_process option result" where
  "attach_forked render pidfd_open timed_out config label pid w =
     (if timed_out then
        with_context (''forked worker '' @ label @ '' did not start within '' @
          show_nat (unat (w_item_timeout_seconds config)) @ ''s'') (external ''deadline has elapsed'')
      else attach render pidfd_open label pid w)"

section \<open>The captured tail and lines\<close>

lemma foldl_push_byte:
  assumes "0 < limit" and "length tail \<le> limit"
  shows "foldl (push_byte limit) tail bytes = drop (length (tail @ bytes) - limit) (tail @ bytes)"
  using assms(2)
proof (induction bytes arbitrary: tail)
  case (Cons b bytes)
  show ?case
  proof (cases "length tail = limit")
    case True
    with assms(1) obtain a rest where tail: "tail = a # rest" by (cases tail) auto
    with True Cons.IH [of "rest @ [b]"] show ?thesis
      by (simp add: push_byte_def Suc_diff_le)
  next
    case False
    with Cons.prems Cons.IH [of "tail @ [b]"] show ?thesis by (simp add: push_byte_def)
  qed
qed simp

lemma push_tail_suffix:
  "length tail \<le> STDERR_TAIL_LIMIT \<Longrightarrow>
     push_tail tail bytes = drop (length (tail @ bytes) - STDERR_TAIL_LIMIT) (tail @ bytes)"
  unfolding push_tail_def by (rule foldl_push_byte) (simp_all add: STDERR_TAIL_LIMIT_def)

lemma split_char_snoc:
  "split_char c (s @ [b]) =
     (if b = c then split_char c s @ [[]]
      else butlast (split_char c s) @ [last (split_char c s) @ [b]])"
  by (induction s) (auto split: list.splits)

text \<open>A line as it is logged: its first bytes, and whether there were more.\<close>

definition cut_line :: "string \<Rightarrow> stderr_line" where
  "cut_line line = (utf8_lossy (take STDERR_LINE_LIMIT line), STDERR_LINE_LIMIT < length line)"

definition lines_captured :: "string \<Rightarrow> capture \<Rightarrow> bool" where
  "lines_captured s c \<longleftrightarrow>
     cp_logged c = map cut_line (butlast (split_char CHR 0x0A s)) \<and>
     cp_line c = take STDERR_LINE_LIMIT (last (split_char CHR 0x0A s)) \<and>
     cp_truncated c = (STDERR_LINE_LIMIT < length (last (split_char CHR 0x0A s)))"

lemma capture_byte_lines:
  assumes "lines_captured s c"
  shows "lines_captured (s @ [b]) (capture_byte c b)" and "cp_tail (capture_byte c b) = cp_tail c"
proof -
  let ?pieces = "split_char CHR 0x0A s"
  have "map cut_line ?pieces = map cut_line (butlast ?pieces) @ [cut_line (last ?pieces)]"
    by (metis append_butlast_last_id list.simps(8,9) map_append split_char_nonempty)
  with assms show "lines_captured (s @ [b]) (capture_byte c b)"
    by (auto simp: lines_captured_def capture_byte_def split_char_snoc cut_line_def
        trace_stderr_line_def min_def)
qed (simp add: capture_byte_def)

lemma foldl_capture_byte:
  "lines_captured s c \<Longrightarrow> lines_captured (s @ bytes) (foldl capture_byte c bytes) \<and>
     cp_tail (foldl capture_byte c bytes) = cp_tail c"
proof (induction bytes arbitrary: s c)
  case (Cons b bytes)
  from Cons.IH [OF capture_byte_lines(1) [OF Cons.prems, of b]]
    capture_byte_lines(2) [OF Cons.prems, of b]
  show ?case by simp
qed simp

definition captured :: "string \<Rightarrow> capture \<Rightarrow> bool" where
  "captured s c \<longleftrightarrow> lines_captured s c \<and> cp_tail c = drop (length s - STDERR_TAIL_LIMIT) s"

lemma push_tail_of_suffix:
  "push_tail (drop (length s - STDERR_TAIL_LIMIT) s) t = drop (length (s @ t) - STDERR_TAIL_LIMIT) (s @ t)"
  by (cases "length s \<le> STDERR_TAIL_LIMIT")
    (simp_all add: push_tail_suffix add.commute)

lemma capture_chunk_captured:
  assumes "captured s c"
  shows "captured (s @ buf) (capture_chunk c buf)"
proof -
  have "lines_captured s (c\<lparr>cp_tail := push_tail (cp_tail c) buf\<rparr>)"
    using assms by (simp add: captured_def lines_captured_def)
  from foldl_capture_byte [OF this, of buf] assms show ?thesis
    by (simp add: captured_def capture_chunk_def push_tail_of_suffix)
qed

text \<open>The bytes of the pipe: the reads up to the first empty one.\<close>

fun stderr_stream :: "string result list \<Rightarrow> string" where
  "stderr_stream (Inr buf # reads) = (if buf = [] then [] else buf @ stderr_stream reads)"
| "stderr_stream _ = []"

lemma capture_loop_captured:
  assumes "\<forall>r \<in> set reads. \<not> isl r" and "captured s c"
  shows "\<exists>c'. capture_loop reads c = Inr c' \<and> captured (s @ stderr_stream reads) c'"
  using assms
proof (induction reads arbitrary: s c)
  case (Cons r reads)
  then obtain buf where r: "r = Inr buf" by (cases r) auto
  show ?case
  proof (cases "buf = []")
    case False
    with r Cons.IH [OF _ capture_chunk_captured [OF Cons.prems(2), of buf]] Cons.prems(1)
    show ?thesis by simp
  qed (use r Cons.prems in simp)
qed simp

section \<open>Options cannot smuggle directives\<close>

lemma validate_nix_options_Ok:
  "validate_nix_options options = Inr () \<longleftrightarrow>
     (\<forall>(key, v) \<in> set options. validate_nix_option_part ''key'' key = Inr () \<and>
        validate_nix_option_part ''value'' v = Inr ())"
  by (induction options rule: validate_nix_options.induct) (auto simp: and_then_Ok_iff)

lemma nix_options_contents_lines:
  "nix_options_contents options = concat (map (\<lambda>(key, v). key @ '' = '' @ v @ [CHR 0x0A]) options)"
proof -
  have "foldl (\<lambda>contents (key, v). contents @ key @ '' = '' @ v @ [CHR 0x0A]) acc options =
      acc @ concat (map (\<lambda>(key, v). key @ '' = '' @ v @ [CHR 0x0A]) options)" for acc
    by (induction options arbitrary: acc) auto
  then show ?thesis by (simp add: nix_options_contents_def)
qed

lemma first_word_option_line:
  assumes "valid_utf8 key"
  shows "first_word (key @ '' = '' @ v) = Some (option_or (first_word key) ''='')"
proof -
  let ?A = "utf8_pieces key" and ?B = "utf8_pieces v"
  have white: "white_piece '' ''" "\<not> white_piece ''=''"
    by (simp_all add: white_piece_def is_whitespace_def)
  have pieces: "utf8_pieces (key @ '' = '' @ v) = ?A @ '' '' # ''='' # '' '' # ?B"
    using utf8_pieces_append [OF assms] by simp
  show ?thesis
  proof (cases "\<forall>p \<in> set ?A. white_piece p")
    case True
    then have "first_word key = None" by (simp add: first_word_def dropWhile_eq_Nil_conv [THEN iffD2])
    moreover from True
    have "dropWhile white_piece (?A @ '' '' # ''='' # '' '' # ?B) = ''='' # '' '' # ?B"
      by (simp add: white)
    ultimately show ?thesis unfolding first_word_def [of "key @ _"] pieces by (simp add: white)
  next
    case False
    then have "dropWhile white_piece (?A @ '' '' # ''='' # '' '' # ?B) =
        dropWhile white_piece ?A @ '' '' # ''='' # '' '' # ?B"
      by (auto intro: dropWhile_append1)
    moreover have "takeWhile (Not \<circ> white_piece) (X @ '' '' # Y) = takeWhile (Not \<circ> white_piece) X" for X Y
      by (induction X) (simp_all add: white)
    moreover obtain p X where "dropWhile white_piece ?A = p # X" "\<not> white_piece p"
      using False by (metis dropWhile_eq_Nil_conv hd_dropWhile list.collapse)
    moreover from this have "p \<noteq> []"
      using set_dropWhileD [of p white_piece ?A] utf8_pieces_nonempty [of p key] by simp
    ultimately show ?thesis unfolding first_word_def pieces by (simp add: Let_def)
  qed
qed

lemma option_line_lines:
  assumes "\<forall>(key, v) \<in> set options. CHR 0x0A \<notin> set key \<and> CHR 0x0A \<notin> set v"
  shows "split_char CHR 0x0A (nix_options_contents options) = map (\<lambda>(key, v). key @ '' = '' @ v) options @ [[]]"
proof -
  have "nix_options_contents options = concat (map (\<lambda>l. l @ [CHR 0x0A]) (map (\<lambda>(key, v). key @ '' = '' @ v) options))"
    by (simp add: nix_options_contents_lines comp_def case_prod_unfold)
  moreover have "\<forall>l \<in> set (map (\<lambda>(key, v). key @ '' = '' @ v) options). CHR 0x0A \<notin> set l"
    using assms by auto
  ultimately show ?thesis by (simp only: split_char_lines)
qed

section \<open>Requests and replies\<close>

text \<open>The next message to be read.\<close>

definition wp_next :: "worker_process \<Rightarrow> server_message result option" where
  "wp_next w =
     (if wp_read w < length (wp_replies w (wp_sent w)) then Some (wp_replies w (wp_sent w) ! wp_read w) else None)"

lemma read_message_cases:
  "read_message render phase attr w =
     (case wp_next w of
        Some (Inr m) \<Rightarrow> (Inr m, w\<lparr>wp_read := Suc (wp_read w)\<rparr>)
      | Some (Inl e) \<Rightarrow>
          (let (e', w') = exit_error render phase attr e (w\<lparr>wp_read := Suc (wp_read w)\<rparr>) in (Inl e', w'))
      | None \<Rightarrow> (let (e', w') = exit_error render phase attr (Report [] (External ''end of stream'')) w in (Inl e', w')))"
  by (auto simp: read_message_def wp_next_def external_def Cons_nth_drop_Suc [symmetric]
      split: sum.split list.split)

lemma read_message_Ok:
  "read_message render phase attr w = (Inr m, w') \<Longrightarrow>
     wp_next w = Some (Inr m) \<and> w' = w\<lparr>wp_read := Suc (wp_read w)\<rparr>"
  by (auto simp: read_message_cases split: option.splits sum.splits prod.splits)

lemma read_event_reply_Ok:
  "read_event_reply render p w = (Inr e, w') \<Longrightarrow>
     wp_next w = Some (Inr (ServerEvent e)) \<and> w' = w\<lparr>wp_read := Suc (wp_read w)\<rparr>"
  by (auto simp: read_event_reply_def dest!: read_message_Ok
      split: prod.splits sum.splits server_message.splits)

lemma read_status_reply_Ok:
  "read_status_reply render attr w = (Inr s, w') \<Longrightarrow>
     wp_next w = Some (Inr (ServerStatus s)) \<and> w' = w\<lparr>wp_read := Suc (wp_read w)\<rparr>"
  by (auto simp: read_status_reply_def dest!: read_message_Ok
      split: prod.splits sum.splits server_message.splits)

lemma read_ready_Ok:
  "read_ready render w = (Inr (), w') \<Longrightarrow>
     wp_next w = Some (Inr ServerReady) \<and> w' = w\<lparr>wp_read := Suc (wp_read w)\<rparr>"
  by (auto simp: read_ready_def dest!: read_message_Ok
      split: prod.splits sum.splits server_message.splits)

lemma wp_work_Ok:
  assumes "wp_work render p w = (Inr r, w')"
  shows "wp_replies w (wp_sent w @ [Work p]) ! wp_read w = Inr (ServerEvent (wr_event r)) \<and>
    wp_replies w (wp_sent w @ [Work p]) ! Suc (wp_read w) = Inr (ServerStatus (wr_status r)) \<and>
    Suc (wp_read w) < length (wp_replies w (wp_sent w @ [Work p])) \<and>
    w' = w\<lparr>wp_sent := wp_sent w @ [Work p], wp_read := Suc (Suc (wp_read w))\<rparr>"
  using assms
  by (auto simp: wp_work_def wp_write_def wp_next_def Let_def
      split: option.splits prod.splits sum.splits if_splits
      dest!: read_event_reply_Ok read_status_reply_Ok)

section \<open>The conversation with a worker\<close>

text \<open>
  The protocol: the paths are answered in order, each by its event and then a status; after a
  restart status nothing follows. The last answer may be cut short.
\<close>

fun conversation :: "(attr_path \<Rightarrow> event \<Rightarrow> bool) \<Rightarrow> attr_path list \<Rightarrow> server_message list \<Rightarrow> bool" where
  "conversation A ps [] = True"
| "conversation A (p # ps) [ServerEvent e] = A p e"
| "conversation A (p # ps) (ServerEvent e # ServerStatus s # ms) =
     (A p e \<and> (case s of StatusReady \<Rightarrow> conversation A ps ms | StatusRestart \<Rightarrow> ms = []))"
| "conversation A _ _ = False"

fun works :: "client_message result list \<Rightarrow> attr_path list" where
  "works (Inr (Work p) # ms) = p # works ms"
| "works _ = []"

lemma conversation_more: "conversation A ps ms \<Longrightarrow> conversation A (ps @ qs) ms"
  by (induction A ps ms rule: conversation.induct) (auto split: worker_status.splits)

lemma conversation_mono:
  "conversation A ps ms \<Longrightarrow> (\<And>p e. A p e \<Longrightarrow> B p e) \<Longrightarrow> conversation B ps ms"
  by (induction A ps ms rule: conversation.induct) (auto split: worker_status.splits)

lemma conversation_event:
  "conversation A ps ms \<Longrightarrow> 2 * i < length ms \<Longrightarrow>
     i < length ps \<and> (\<exists>e. ms ! (2 * i) = ServerEvent e \<and> A (ps ! i) e)"
proof (induction A ps ms arbitrary: i rule: conversation.induct)
  case (3 A p ps e s ms)
  then show ?case by (cases i; cases s) auto
qed (auto simp: less_Suc_eq)

text \<open>The paths asked for among the messages sent to a worker.\<close>

definition paths_of :: "client_message list \<Rightarrow> attr_path list" where
  "paths_of ms = concat (map (\<lambda>m. case m of Work p \<Rightarrow> [p] | _ \<Rightarrow> []) ms)"

lemma paths_of_simps [simp]:
  "paths_of [] = []" "paths_of (Work p # ms) = p # paths_of ms"
  "paths_of (Setup c t d # ms) = paths_of ms" "paths_of (Shutdown # ms) = paths_of ms"
  "paths_of (ms @ ms') = paths_of ms @ paths_of ms'"
  by (simp_all add: paths_of_def)

lemma works_paths_of: "\<exists>qs. paths_of ms = works (map Inr ms) @ qs"
proof (induction ms)
  case (Cons m ms)
  then show ?case by (cases m) auto
qed simp

lemma spawn_local_Ok:
  assumes "spawn_local render env spawn timed_out config label exe slots = Inr w"
  shows "\<exists>exe' files fds child. spawn exe' files fds = Inr child \<and>
    handshake render config (child\<lparr>wp_label := label, wp_forked := False\<rparr>) = Inr w"
  using assms by (auto simp: spawn_local_def and_then_Ok_iff Let_def split: if_splits)

lemma attach_forked_Ok:
  assumes "attach_forked render pidfd_open timed_out config label pid child = Inr (Some w)"
  shows "read_ready render (child\<lparr>wp_label := label, wp_forked := True\<rparr>) = (Inr (), w)"
  using assms
  by (auto simp: attach_forked_def attach_def and_then_Ok_iff bail_def external_def Let_def
      split: if_splits pid_read.splits prod.splits sum.splits)

text \<open>Every setup among the messages has this configuration.\<close>

definition setup_is :: "worker_config \<Rightarrow> client_message list \<Rightarrow> bool" where
  "setup_is config sent \<longleftrightarrow> (\<forall>c token dir. Setup c token dir \<in> set sent \<longrightarrow> c = config)"

lemma setup_is_simps [simp]:
  "setup_is config []" "setup_is config (Work p # ms) = setup_is config ms"
  "setup_is config (Setup c token dir # ms) = (c = config \<and> setup_is config ms)"
  "setup_is config (ms @ ms') = (setup_is config ms \<and> setup_is config ms')"
  by (simp_all add: setup_is_def) blast+

text \<open>
  What a worker process of a configuration promises its client: after its readiness come the
  answers to the paths it was sent, in order, and after the first failure of its output
  nothing more.
\<close>

locale worker_contract =
  fixes config :: worker_config
    and A :: "attr_path \<Rightarrow> event \<Rightarrow> bool"
    and replies :: "client_message list \<Rightarrow> server_message result list"
  assumes replies_serve: "setup_is config sent \<Longrightarrow> \<exists>ms errs. replies sent = map Inr ms @ errs \<and> (\<forall>x \<in> set errs. isl x) \<and>
    (ms = [] \<or> (\<exists>rest. ms = ServerReady # rest \<and> conversation A (paths_of sent) rest))"
begin

text \<open>A handle that has read the readiness and both replies to every path it sent.\<close>

definition in_step :: "worker_process \<Rightarrow> bool" where
  "in_step w \<longleftrightarrow> wp_replies w = replies \<and> wp_read w = Suc (2 * length (paths_of (wp_sent w))) \<and>
     setup_is config (wp_sent w)"

lemma work_answers:
  assumes "in_step w" and "wp_work render p w = (Inr r, w')"
  shows "A p (wr_event r)" and "in_step w'"
proof -
  let ?sent = "wp_sent w @ [Work p]" and ?n = "length (paths_of (wp_sent w))"
  note ok = wp_work_Ok [OF assms(2)]
  with assms(1) show "in_step w'" by (simp add: in_step_def)
  obtain ms errs where ms: "replies ?sent = map Inr ms @ errs" "\<forall>x \<in> set errs. isl x"
    "ms = [] \<or> (\<exists>rest. ms = ServerReady # rest \<and> conversation A (paths_of ?sent) rest)"
    using replies_serve [of ?sent] assms(1) by (auto simp: in_step_def)
  from ok assms(1) have ev: "replies ?sent ! Suc (2 * ?n) = Inr (ServerEvent (wr_event r))"
    and len: "Suc (2 * ?n) < length (replies ?sent)"
    by (auto simp: in_step_def)
  have "Suc (2 * ?n) < length ms"
  proof (rule ccontr)
    assume "\<not> ?thesis"
    with ms(1) len ev have "Inr (ServerEvent (wr_event r)) \<in> set errs"
      by (auto simp: nth_append not_less) (metis add_diff_inverse_nat leD nat_add_left_cancel_less nth_mem)
    with ms(2) show False by fastforce
  qed
  with ms ev obtain rest where "ms = ServerReady # rest" "conversation A (paths_of ?sent) rest"
    "2 * ?n < length rest" by auto
  with conversation_event [of A "paths_of ?sent" rest ?n] ms(1) ev show "A p (wr_event r)"
    by (auto simp: nth_append)
qed

lemma ready_in_step:
  assumes "read_ready render w = (Inr (), w')" and "wp_replies w = replies" and "wp_read w = 0"
    and "paths_of (wp_sent w) = []" and "setup_is config (wp_sent w)"
  shows "in_step w'"
  using read_ready_Ok [OF assms(1)] assms(2-5) by (simp add: in_step_def)

lemma handshake_in_step:
  assumes "handshake render config w = Inr w'" and "wp_replies w = replies" and "wp_read w = 0"
    and "wp_sent w = []"
  shows "in_step w'"
proof -
  have "read_ready render (w\<lparr>wp_sent := [Setup config None None]\<rparr>) = (Inr (), w')"
    using assms(1,4) by (auto simp: handshake_def wp_write_def split: option.splits prod.splits sum.splits)
  from ready_in_step [OF this] assms(2,3) show ?thesis by simp
qed

lemma spawned_in_step:
  assumes "spawn_local render env spawn timed_out config label exe slots = Inr w"
    and "\<And>exe files fds child. spawn exe files fds = Inr child \<Longrightarrow>
      wp_replies child = replies \<and> wp_read child = 0 \<and> wp_sent child = []"
  shows "in_step w"
proof -
  from spawn_local_Ok [OF assms(1)] obtain exe' files fds child where child: "spawn exe' files fds = Inr child"
    and "handshake render config (child\<lparr>wp_label := label, wp_forked := False\<rparr>) = Inr w" by blast
  from handshake_in_step [OF this(2)] assms(2) [OF child] show ?thesis by simp
qed

end

section \<open>The claims\<close>

text \<open>
  A worker's standard error is captured within fixed bounds whatever it prints and
  however the pipe cuts it: a failure reports the last \<open>STDERR_TAIL_LIMIT\<close> bytes, and every
  line is logged once, in order, cut to \<open>STDERR_LINE_LIMIT\<close> bytes and marked as cut exactly
  when it was longer.
\<close>

theorem stderr_capture_exact:
  assumes "\<forall>r \<in> set reads. \<not> isl r"
  shows "capture_stderr reads =
    (let s = stderr_stream reads in
     Inr (utf8_lossy (drop (length s - STDERR_TAIL_LIMIT) s), map cut_line (lines_of s)))"
proof -
  let ?s = "stderr_stream reads"
  have "captured [] new_capture"
    by (simp add: captured_def lines_captured_def new_capture_def)
  from capture_loop_captured [OF assms this] obtain c where
    loop: "capture_loop reads new_capture = Inr c" and c: "captured ?s c" by auto
  have "map cut_line (split_char CHR 0x0A ?s) =
      map cut_line (butlast (split_char CHR 0x0A ?s)) @ [cut_line (last (split_char CHR 0x0A ?s))]"
    by (metis append_butlast_last_id list.simps(8,9) map_append split_char_nonempty)
  with loop c show ?thesis
    by (auto simp: capture_stderr_def captured_def lines_captured_def tail_to_string_def lines_of_def
        Let_def trace_stderr_line_def cut_line_def STDERR_LINE_LIMIT_def)
qed

theorem stderr_capture_exact_witness:
  "capture_stderr [Inr ''one'', Inr [CHR 0x0A, CHR ''t''], Inr ''wo'', Inr []] =
    Inr (''one'' @ [CHR 0x0A] @ ''two'', [(''one'', False), (''two'', False)])"
  using stderr_capture_exact [of "[Inr ''one'', Inr [CHR 0x0A, CHR ''t''], Inr ''wo'', Inr []]"]
  by (simp add: lines_of_def cut_line_def STDERR_TAIL_LIMIT_def STDERR_LINE_LIMIT_def)

text \<open>
  C38. Nix options reach the worker as settings and nothing else: when the options of a
  configuration are accepted, the file that is written has exactly one line per option, its
  key and value, and no line is an include directive, so that no option can add a second
  setting or pull in another file.
\<close>

theorem nix_options_only_settings:
  assumes "prepare_nix_options_env env options = Inr (Some f)"
    and "\<forall>(key, v) \<in> set options. valid_utf8 key"
  shows "pe_write_file env (nf_path f) (nix_options_contents options) = Inr () \<and>
    lines_of (nix_options_contents options) = map (\<lambda>(key, v). key @ '' = '' @ v) options \<and>
    (\<forall>line \<in> set (lines_of (nix_options_contents options)).
       first_word line \<noteq> Some ''include'' \<and> first_word line \<noteq> Some ''!include'')"
proof -
  from assms(1) have ok: "validate_nix_options options = Inr ()"
    and written: "pe_write_file env (nf_path f) (nix_options_contents options) = Inr ()"
    by (auto simp: prepare_nix_options_env_def and_then_Ok_iff Let_def split: if_splits)
  from ok have parts: "\<forall>(key, v) \<in> set options. CHR 0x0A \<notin> set key \<and> CHR 0x0A \<notin> set v"
    and words: "\<forall>(key, v) \<in> set options. first_word key \<notin> {Some ''include'', Some ''!include''}"
    by (auto simp: validate_nix_options_Ok validate_nix_option_part_def split: if_splits)
  have lines: "lines_of (nix_options_contents options) = map (\<lambda>(key, v). key @ '' = '' @ v) options"
    by (simp add: lines_of_def option_line_lines [OF parts])
  have "first_word (key @ '' = '' @ v) \<notin> {Some ''include'', Some ''!include''}"
    if "(key, v) \<in> set options" for key v
  proof -
    have "valid_utf8 key" using that assms(2) by auto
    moreover have "first_word key \<notin> {Some ''include'', Some ''!include''}" using that words by auto
    ultimately show ?thesis
      using first_word_option_line [of key v] by (cases "first_word key") auto
  qed
  with written lines show ?thesis by (auto split: prod.splits)
qed

definition ex_env :: process_env where
  "ex_env = \<lparr>pe_current_exe = Inr ''/bin/evix'', pe_temp_dir = ''/tmp'', pe_pid = 7, pe_nanos = 9,
     pe_write_file = (\<lambda>_ _. Inr ()), pe_nix_user_conf_files = None, pe_xdg_config_home = None,
     pe_home = Some ''/root'', pe_exists = (\<lambda>_. False)\<rparr>"

theorem nix_options_only_settings_witness:
  "pe_write_file ex_env ''/tmp/evix-nix-options-7-9.conf'' (nix_options_contents [(''cores'', ''2'')]) = Inr () \<and>
    lines_of (nix_options_contents [(''cores'', ''2'')]) = map (\<lambda>(key, v). key @ '' = '' @ v) [(''cores'', ''2'')] \<and>
    list_all (\<lambda>line. first_word line \<noteq> Some ''include'' \<and> first_word line \<noteq> Some ''!include'')
      (lines_of (nix_options_contents [(''cores'', ''2'')]))"
proof -
  have "prepare_nix_options_env ex_env [(''cores'', ''2'')] =
      Inr (Some \<lparr>nf_path = ''/tmp/evix-nix-options-7-9.conf'', nf_conf_files = ''/tmp/evix-nix-options-7-9.conf''\<rparr>)"
    by (simp add: prepare_nix_options_env_def ex_env_def validate_nix_option_part_def first_word_def
        white_piece_def is_whitespace_def path_join_def is_absolute_def starts_with_def
        nix_user_conf_files_def default_nix_user_conf_file_def join_paths_def show_nat.simps char_of_def bit_iff_odd Let_def)
  from nix_options_only_settings [OF this] show ?thesis by (simp add: list_all_iff)
qed

end
