(* ===== verification/Eval.thy ===== *)
theory Eval
  imports Warm_State Paths
begin

unbundle bit_operations_syntax

text \<open>
  The evaluation of one attribute (\<open>crates/evix/src/eval.rs\<close>): navigation from the root,
  classification of the value, the collection of children, the construction of a derivation
  event with its outputs, meta, input derivations and constituents, the conversion of Nix
  values to JSON, and the garbage-collector root. The Nix evaluator and store are a library:
  its operations are a record of functions on an arbitrary type of values. The file system
  operations of the garbage-collector root are parameters likewise.
\<close>

section \<open>The Nix library\<close>

datatype value_type =
    TNull | TBool | TInt | TFloat | TString | TPath | TList | TAttrs | TThunk | TFunction | TExternal

record 'v nix =
  nx_auto_call :: "'v \<Rightarrow> 'v result"
  nx_value_type :: "'v \<Rightarrow> value_type"
  nx_force :: "'v \<Rightarrow> 'v result"
  nx_get_attr :: "'v \<Rightarrow> string \<Rightarrow> 'v result"
  nx_has_attr :: "'v \<Rightarrow> string \<Rightarrow> bool result"
  nx_attr_keys :: "'v \<Rightarrow> string list result"
  nx_as_bool :: "'v \<Rightarrow> bool result"
  nx_as_int :: "'v \<Rightarrow> 64 word result"
  nx_as_float :: "'v \<Rightarrow> 64 word result"
  nx_as_string :: "'v \<Rightarrow> string result"
  nx_as_path :: "'v \<Rightarrow> path result"
  nx_list_len :: "'v \<Rightarrow> nat result"
  nx_list_get :: "'v \<Rightarrow> nat \<Rightarrow> 'v result"
  nx_get_derivation :: "'v \<Rightarrow> string option result"
  nx_print_path :: "string \<Rightarrow> string result"
  nx_read_derivation :: "string \<Rightarrow> string result"
  nx_drv_to_json :: "string \<Rightarrow> string result"
  nx_json_from_str :: "string \<Rightarrow> json result"
  nx_output_paths :: "'v \<Rightarrow> 'v result"
  nx_store_dir :: "string result"

text \<open>
  A store path and a derivation read from the store are opaque handles, here strings.
  \<open>nx_output_paths\<close> is the call of the helper expression of \<open>EvalHelpers\<close>, and
  \<open>nx_json_from_str\<close> is \<open>serde_json::from_str\<close>.
\<close>

record eval_options =
  o_force_recurse :: bool
  o_gc_roots_dir :: "path option"
  o_meta :: bool
  o_show_input_drvs :: bool

definition MAX_ATTR_DEPTH :: nat where
  "MAX_ATTR_DEPTH = 64"

section \<open>Navigation and children\<close>

fun navigate_from :: "'v nix \<Rightarrow> 'v \<Rightarrow> string list \<Rightarrow> 'v result" where
  "navigate_from nx current [] = Inr current"
| "navigate_from nx current (key # keys) =
     and_then (nx_get_attr nx current key) (\<lambda>raw.
     and_then (nx_auto_call nx raw) (\<lambda>next.
       navigate_from nx next keys))"

definition navigate :: "'v nix \<Rightarrow> 'v \<Rightarrow> attr_path \<Rightarrow> 'v result" where
  "navigate nx root p = (if p = [] then nx_auto_call nx root else navigate_from nx root p)"

definition collect_recurse :: "'v nix \<Rightarrow> 'v \<Rightarrow> attr_path \<Rightarrow> bool \<Rightarrow> string list" where
  "collect_recurse nx v p force_recurse =
     (case nx_attr_keys nx v of
        Inl _ \<Rightarrow> []
      | Inr keys \<Rightarrow>
          let recurse = force_recurse \<or> p = [] \<or>
                result_or (and_then (nx_get_attr nx v ''recurseForDerivations'') (nx_as_bool nx)) False
          in if recurse then filter (\<lambda>k. k \<noteq> ''recurseForDerivations'') keys else [])"

section \<open>Nix values as JSON\<close>

definition json_of_int :: "64 word \<Rightarrow> json" where
  "json_of_int i = JNumber (if 0 \<le> sint i then PosInt i else NegInt i)"

text \<open>\<open>Number::from_f64\<close> refuses infinities and NaN: an exponent of all ones.\<close>

definition json_of_float :: "64 word \<Rightarrow> json option" where
  "json_of_float bits =
     (if drop_bit 52 bits AND 0x7FF = 0x7FF then None else Some (JNumber (Float bits)))"

definition result_ok :: "'a result \<Rightarrow> 'a option" where
  "result_ok r = (case r of Inl _ \<Rightarrow> None | Inr x \<Rightarrow> Some x)"

fun value_to_json :: "nat \<Rightarrow> 'v nix \<Rightarrow> 'v \<Rightarrow> json option result"
  and list_to_json :: "nat \<Rightarrow> 'v nix \<Rightarrow> 'v \<Rightarrow> nat \<Rightarrow> nat \<Rightarrow> json list option result"
  and attrs_to_json :: "nat \<Rightarrow> 'v nix \<Rightarrow> 'v \<Rightarrow> string list \<Rightarrow> json_map \<Rightarrow> json_map result"
where
  "value_to_json depth nx value0 =
     (case depth of
        0 \<Rightarrow> Inr None
      | Suc d \<Rightarrow>
          (case nx_force nx value0 of
             Inl _ \<Rightarrow> Inr None
           | Inr v \<Rightarrow>
               (case nx_value_type nx v of
                  TNull \<Rightarrow> Inr (Some JNull)
                | TBool \<Rightarrow> Inr (map_option JBool (result_ok (nx_as_bool nx v)))
                | TInt \<Rightarrow> Inr (map_option json_of_int (result_ok (nx_as_int nx v)))
                | TFloat \<Rightarrow> Inr (Option.bind (result_ok (nx_as_float nx v)) json_of_float)
                | TString \<Rightarrow> Inr (map_option JString (result_ok (nx_as_string nx v)))
                | TPath \<Rightarrow>
                    (case nx_as_path nx v of
                       Inl _ \<Rightarrow> Inr None
                     | Inr p \<Rightarrow>
                         if valid_utf8 p then Inr (Some (JString p))
                         else bail_fmt ''meta path {path:?} is not valid UTF-8'' [p])
                | TList \<Rightarrow>
                    (case nx_list_len nx v of
                       Inl _ \<Rightarrow> Inr None
                     | Inr len \<Rightarrow>
                         and_then (list_to_json d nx v 0 len) (\<lambda>arr. Inr (map_option JArray arr)))
                | TAttrs \<Rightarrow>
                    (case nx_attr_keys nx v of
                       Inl _ \<Rightarrow> Inr None
                     | Inr keys \<Rightarrow>
                         and_then (attrs_to_json d nx v keys []) (\<lambda>m. Inr (Some (JObject m))))
                | TThunk \<Rightarrow> Inr None
                | TFunction \<Rightarrow> Inr None
                | TExternal \<Rightarrow> Inr None)))"
| "list_to_json depth nx v i n =
     (case n of
        0 \<Rightarrow> Inr (Some [])
      | Suc n' \<Rightarrow>
          (case nx_list_get nx v i of
             Inl _ \<Rightarrow> Inr None
           | Inr item \<Rightarrow>
               and_then (value_to_json depth nx item) (\<lambda>x.
               and_then (list_to_json depth nx v (Suc i) n') (\<lambda>rest.
                 Inr (map_option (\<lambda>xs. option_or x JNull # xs) rest)))))"
| "attrs_to_json depth nx v [] m = Inr m"
| "attrs_to_json depth nx v (key # keys) m =
     (case nx_get_attr nx v key of
        Inl _ \<Rightarrow> attrs_to_json depth nx v keys m
      | Inr child \<Rightarrow>
          and_then (value_to_json depth nx child) (\<lambda>x.
            attrs_to_json depth nx v keys (case x of None \<Rightarrow> m | Some j \<Rightarrow> bt_insert key j m)))"

section \<open>Reading a derivation\<close>

definition read_meta_value :: "'v nix \<Rightarrow> 'v \<Rightarrow> json option result" where
  "read_meta_value nx v =
     (if \<not> result_or (nx_has_attr nx v ''meta'') False then Inr None
      else case nx_get_attr nx v ''meta'' of
          Inl _ \<Rightarrow> Inr None
        | Inr m \<Rightarrow> value_to_json 64 nx m)"

fun constituent_items :: "'v nix \<Rightarrow> 'v \<Rightarrow> nat list \<Rightarrow> string list" where
  "constituent_items nx l [] = []"
| "constituent_items nx l (i # js) =
     (case and_then (nx_list_get nx l i) (nx_as_string nx) of
        Inl _ \<Rightarrow> constituent_items nx l js
      | Inr s \<Rightarrow> s # constituent_items nx l js)"

definition read_constituents :: "'v nix \<Rightarrow> 'v \<Rightarrow> string list option" where
  "read_constituents nx v =
     (if \<not> result_or (nx_has_attr nx v ''constituents'') False then None
      else case nx_get_attr nx v ''constituents'' of
          Inl _ \<Rightarrow> None
        | Inr raw \<Rightarrow>
            (case nx_force nx raw of
               Inl _ \<Rightarrow> None
             | Inr l \<Rightarrow>
                 (case nx_list_len nx l of
                    Inl _ \<Rightarrow> None
                  | Inr len \<Rightarrow> Some (constituent_items nx l [0..<len]))))"

definition store_dir :: "'v nix \<Rightarrow> string" where
  "store_dir nx = result_or (nx_store_dir nx) ''/nix/store''"

definition absolute_store_path :: "string \<Rightarrow> string \<Rightarrow> string" where
  "absolute_store_path dir p = (if starts_with p ''/'' then p else dir @ ''/'' @ p)"

definition derivation_json :: "'v nix \<Rightarrow> string \<Rightarrow> json result" where
  "derivation_json nx drv_path =
     and_then (nx_read_derivation nx drv_path) (\<lambda>drv.
     and_then (nx_drv_to_json nx drv) (nx_json_from_str nx))"

definition input_drv_outputs :: "json \<Rightarrow> string list option" where
  "input_drv_outputs v = result_ok (strings_of_json (option_or (json_get v ''outputs'') v))"

definition insert_input_drv ::
  "string \<Rightarrow> string list btree \<Rightarrow> string \<times> json \<Rightarrow> string list btree" where
  "insert_input_drv dir m = (\<lambda>(key, v).
     case input_drv_outputs v of
       None \<Rightarrow> m
     | Some outputs \<Rightarrow> bt_insert (absolute_store_path dir key) outputs m)"

definition read_input_drvs :: "'v nix \<Rightarrow> string \<Rightarrow> string list btree" where
  "read_input_drvs nx drv_path =
     (case derivation_json nx drv_path of
        Inl _ \<Rightarrow> []
      | Inr parsed \<Rightarrow>
          (case Option.bind (Option.bind (json_get parsed ''inputs'')
                  (\<lambda>inputs. json_get inputs ''drvs'')) as_object of
             None \<Rightarrow> []
           | Some drvs \<Rightarrow> foldl (insert_input_drv (store_dir nx)) [] drvs))"

fun collect_outputs ::
  "'v nix \<Rightarrow> 'v \<Rightarrow> string list \<Rightarrow> string option btree \<Rightarrow> string option btree result" where
  "collect_outputs nx paths [] m = Inr m"
| "collect_outputs nx paths (name # names) m =
     and_then (nx_get_attr nx paths name) (\<lambda>v.
     and_then (nx_as_string nx v) (\<lambda>p.
       collect_outputs nx paths names
         (bt_insert name (if starts_with p (store_dir nx @ ''/'') then Some p else None) m)))"

definition value_output_paths :: "'v nix \<Rightarrow> 'v \<Rightarrow> string option btree result" where
  "value_output_paths nx v =
     and_then (nx_output_paths nx v) (\<lambda>paths.
     and_then (nx_attr_keys nx paths) (\<lambda>names. collect_outputs nx paths names []))"

definition output_path_of :: "string \<Rightarrow> json option \<Rightarrow> string \<times> json \<Rightarrow> string option" where
  "output_path_of dir env = (\<lambda>(name, out).
     case Option.bind (json_get out ''path'') as_str of
       Some p \<Rightarrow> Some (absolute_store_path dir p)
     | None \<Rightarrow>
         (case Option.bind (Option.bind env (\<lambda>e. json_get e name)) as_str of
            None \<Rightarrow> None
          | Some p \<Rightarrow> if starts_with p (dir @ ''/'') then Some p else None))"

definition output_paths :: "'v nix \<Rightarrow> string \<Rightarrow> string option btree" where
  "output_paths nx drv_path =
     (case derivation_json nx drv_path of
        Inl _ \<Rightarrow> []
      | Inr parsed \<Rightarrow>
          (case Option.bind (json_get parsed ''outputs'') as_object of
             None \<Rightarrow> []
           | Some outs \<Rightarrow>
               foldl (\<lambda>m out. bt_insert (fst out)
                   (output_path_of (store_dir nx) (json_get parsed ''env'') out) m) [] outs))"

section \<open>Garbage-collector roots\<close>

definition NIX_GCROOTS_DIR :: path where
  "NIX_GCROOTS_DIR = ''/nix/var/nix/gcroots''"

datatype link_status = LinkPresent | LinkNotFound | LinkUnknown report

text \<open>The operations of \<open>std::fs\<close> the registration uses, on an abstract file system.\<close>

record 'f gc_fs =
  fs_create_dir_all :: "path \<Rightarrow> 'f \<Rightarrow> unit result \<times> 'f"
  fs_canonicalize :: "path \<Rightarrow> 'f \<Rightarrow> path result"
  fs_symlink_metadata :: "path \<Rightarrow> 'f \<Rightarrow> link_status"
  fs_symlink :: "path \<Rightarrow> path \<Rightarrow> 'f \<Rightarrow> unit result \<times> 'f"

text \<open>The loop over the components: the parts so far, and whether a root was seen.\<close>

fun normalize_parts :: "path \<Rightarrow> component list \<Rightarrow> bool \<Rightarrow> string list \<Rightarrow> (bool \<times> string list) result"
where
  "normalize_parts p [] absolute parts = Inr (absolute, parts)"
| "normalize_parts p (RootDir # cs) absolute parts = normalize_parts p cs True []"
| "normalize_parts p (CurDir # cs) absolute parts = normalize_parts p cs absolute parts"
| "normalize_parts p (Normal part # cs) absolute parts =
     normalize_parts p cs absolute (parts @ [part])"
| "normalize_parts p (ParentDir # cs) absolute parts =
     (if parts = [] then bail_fmt ''path escapes filesystem root: {}'' [p]
      else normalize_parts p cs absolute (butlast parts))"

definition normalize_absolute :: "path \<Rightarrow> path result" where
  "normalize_absolute p =
     and_then (normalize_parts p (path_components p) False []) (\<lambda>(absolute, parts).
       if \<not> absolute then bail_fmt ''gc roots dir must be absolute: {}'' [p]
       else Inr (foldl path_join ''/'' parts))"

definition validate_gc_roots_dir_path :: "path \<Rightarrow> path result" where
  "validate_gc_roots_dir_path gc_dir =
     and_then (normalize_absolute gc_dir) (\<lambda>normalized.
       if \<not> path_starts_with normalized NIX_GCROOTS_DIR
       then bail_fmt ''gc roots dir must be under {NIX_GCROOTS_DIR}: {}'' [gc_dir]
       else Inr normalized)"

definition ensure_gc_roots_dir :: "'f gc_fs \<Rightarrow> path \<Rightarrow> 'f \<Rightarrow> unit result \<times> 'f" where
  "ensure_gc_roots_dir fs gc_dir st =
     (case validate_gc_roots_dir_path gc_dir of
        Inl e \<Rightarrow> (Inl e, st)
      | Inr normalized \<Rightarrow>
          (case fs_create_dir_all fs normalized st of
             (Inl e, st1) \<Rightarrow> (with_context ''creating gc roots dir {}'' (Inl e), st1)
           | (Inr _, st1) \<Rightarrow>
               (and_then (with_context ''canonicalizing {NIX_GCROOTS_DIR}''
                   (fs_canonicalize fs NIX_GCROOTS_DIR st1)) (\<lambda>root.
                and_then (with_context ''canonicalizing {}''
                   (fs_canonicalize fs normalized st1)) (\<lambda>canonical.
                  if \<not> path_starts_with canonical root
                  then bail_fmt ''gc roots dir resolves outside {NIX_GCROOTS_DIR}: {}'' [gc_dir]
                  else Inr ())), st1)))"

definition create_gc_root_link :: "'f gc_fs \<Rightarrow> path \<Rightarrow> string \<Rightarrow> 'f \<Rightarrow> unit result \<times> 'f" where
  "create_gc_root_link fs gc_dir drv_path st =
     (case file_name drv_path of
        None \<Rightarrow> (bail ''drv path has no filename'', st)
      | Some name \<Rightarrow>
          let link = path_join gc_dir name in
          (case fs_symlink_metadata fs link st of
             LinkPresent \<Rightarrow> (Inr (), st)
           | LinkUnknown e \<Rightarrow> (with_context ''checking gc root {}'' (Inl e), st)
           | LinkNotFound \<Rightarrow>
               (case fs_symlink fs drv_path link st of
                  (r, st1) \<Rightarrow> (with_context ''symlinking {} -> {drv_path}'' r, st1))))"

definition register_gc_root :: "'f gc_fs \<Rightarrow> path \<Rightarrow> string \<Rightarrow> 'f \<Rightarrow> unit result \<times> 'f" where
  "register_gc_root fs gc_dir drv_path st =
     (case ensure_gc_roots_dir fs gc_dir st of
        (Inl e, st1) \<Rightarrow> (Inl e, st1)
      | (Inr _, st1) \<Rightarrow> create_gc_root_link fs gc_dir drv_path st1)"

section \<open>The evaluation of one attribute\<close>

definition gc_root_error_of ::
  "(report \<Rightarrow> string) \<Rightarrow> 'f gc_fs \<Rightarrow> path option \<Rightarrow> string \<Rightarrow> 'f \<Rightarrow> string option \<times> 'f" where
  "gc_root_error_of render fs dir drv_path st =
     (case dir of
        None \<Rightarrow> (None, st)
      | Some d \<Rightarrow>
          (case register_gc_root fs d drv_path st of
             (Inl e, st1) \<Rightarrow> (Some (render e), st1)
           | (Inr _, st1) \<Rightarrow> (None, st1)))"

definition make_job ::
  "'v nix \<Rightarrow> 'f gc_fs \<Rightarrow> (report \<Rightarrow> string) \<Rightarrow> 'v \<Rightarrow> attr_path \<Rightarrow> string \<Rightarrow> eval_options \<Rightarrow> 'f
     \<Rightarrow> event result \<times> 'f" where
  "make_job nx fs render v p drv_path opts st =
     (case with_context ''printing drv path'' (nx_print_path nx drv_path) of
        Inl e \<Rightarrow> (Inl e, st)
      | Inr drv_path_str \<Rightarrow>
     (case with_context ''reading .name'' (and_then (nx_get_attr nx v ''name'') (nx_as_string nx)) of
        Inl e \<Rightarrow> (Inl e, st)
      | Inr name \<Rightarrow>
     (let system = result_or (and_then (nx_get_attr nx v ''system'') (nx_as_string nx)) [];
          outputs = (case value_output_paths nx v of
              Inr outputs \<Rightarrow> outputs
            | Inl _ \<Rightarrow> output_paths nx drv_path)
      in case (if o_meta opts then read_meta_value nx v else Inr None) of
           Inl e \<Rightarrow> (Inl e, st)
         | Inr meta \<Rightarrow>
             (let constituents = read_constituents nx v;
                  input_drvs = (if o_show_input_drvs opts then read_input_drvs nx drv_path else [])
              in case gc_root_error_of render fs (o_gc_roots_dir opts) drv_path_str st of
                   (gc_root_error, st1) \<Rightarrow>
                     (Inr (Derivation \<lparr>d_attr = join ''.'' p, d_attr_path = p, d_name = name,
                        d_system = system, d_drv_path = drv_path_str, d_outputs = outputs,
                        d_meta = meta, d_input_drvs = input_drvs, d_constituents = constituents,
                        d_gc_root_error = gc_root_error\<rparr>), st1)))))"

definition attr_error :: "attr_path \<Rightarrow> string \<Rightarrow> event" where
  "attr_error p message =
     EventError \<lparr>e_attr = join ''.'' p, e_attr_path = p, e_error = message, e_fatal = False\<rparr>"

definition process_attr ::
  "'v nix \<Rightarrow> 'f gc_fs \<Rightarrow> (report \<Rightarrow> string) \<Rightarrow> 'v \<Rightarrow> eval_options \<Rightarrow> attr_path \<Rightarrow> 'f \<Rightarrow> event \<times> 'f"
where
  "process_attr nx fs render root opts p st =
     (case navigate nx root p of
        Inl e \<Rightarrow> (attr_error p (render e), st)
      | Inr v \<Rightarrow>
          if nx_value_type nx v \<noteq> TAttrs then (AttrSet (join ''.'' p) p [], st)
          else (case nx_get_derivation nx v of
             Inl e \<Rightarrow> (attr_error p (render e), st)
           | Inr (Some drv_path) \<Rightarrow>
               (case make_job nx fs render v p drv_path opts st of
                  (Inr ev, st1) \<Rightarrow> (ev, st1)
                | (Inl e, st1) \<Rightarrow> (attr_error p (render e), st1))
           | Inr None \<Rightarrow>
               if MAX_ATTR_DEPTH \<le> length p
               then (attr_error p
                  (''attrset exceeds the maximum traversal depth of '' @ show_nat MAX_ATTR_DEPTH), st)
               else (AttrSet (join ''.'' p) p (collect_recurse nx v p (o_force_recurse opts)), st)))"

section \<open>Properties of the conversion to JSON\<close>

lemma set_bt_insert: "set (bt_insert k v m) \<subseteq> insert (k, v) (set m)"
  by (induction m rule: bt_insert.induct [of _ k v]) auto

lemma json_map_insert_ok:
  "json_ok (JObject m) \<Longrightarrow> json_ok j \<Longrightarrow> json_ok (JObject (bt_insert k j m))"
  using set_bt_insert [of k j m] by auto

text \<open>How deep arrays and objects nest; a scalar has depth 0.\<close>

fun json_depth :: "json \<Rightarrow> nat" where
  "json_depth (JArray vs) = Suc (fold max (map json_depth vs) 0)"
| "json_depth (JObject m) = Suc (fold max (map (\<lambda>kv. json_depth (snd kv)) m) 0)"
| "json_depth _ = 0"

lemma fold_max_le: "fold max xs (a::nat) \<le> b \<longleftrightarrow> a \<le> b \<and> (\<forall>x \<in> set xs. x \<le> b)"
  by (induction xs arbitrary: a) auto

lemma json_depth_scalar [simp]:
  "json_depth (json_of_int i) = 0" "json_ok (json_of_int i)"
  "json_of_float b = Some j \<Longrightarrow> json_depth j = 0" "json_of_float b = Some j \<Longrightarrow> json_ok j"
  by (auto simp: json_of_int_def json_of_float_def split: if_splits)

definition json_within :: "nat \<Rightarrow> json \<Rightarrow> bool" where
  "json_within d j \<longleftrightarrow> json_ok j \<and> json_depth j \<le> d"

lemma json_within_simps:
  "json_within (Suc d) (JArray js) \<longleftrightarrow> (\<forall>j \<in> set js. json_within d j)"
  "json_within (Suc d) (JObject m) \<longleftrightarrow> bt_ok m \<and> (\<forall>kv \<in> set m. json_within d (snd kv))"
  "json_within d JNull" "json_within d (JBool b)" "json_within d (JString s)"
  "json_within d (json_of_int i)"
  "json_of_float bits = Some j \<Longrightarrow> json_within d j"
  by (auto simp: json_within_def fold_max_le)

lemma json_object_insert_within:
  "json_within (Suc d) (JObject m) \<Longrightarrow> json_within d j \<Longrightarrow>
     json_within (Suc d) (JObject (bt_insert k j m))"
  using set_bt_insert [of k j m] by (auto simp: json_within_simps)

lemma result_ok_Some [simp]: "result_ok r = Some x \<longleftrightarrow> r = Inr x"
  by (cases r) (auto simp: result_ok_def)

lemmas value_to_json_rules = value_to_json.simps list_to_json.simps attrs_to_json.simps

declare value_to_json.simps [simp del] list_to_json.simps [simp del]

lemma value_to_json_within:
  shows "value_to_json d nx v = Inr (Some j) \<Longrightarrow> json_within d j"
    and "list_to_json d nx v i n = Inr (Some js) \<Longrightarrow> \<forall>j \<in> set js. json_within d j"
    and "attrs_to_json d nx v keys m = Inr m' \<Longrightarrow> json_within (Suc d) (JObject m) \<Longrightarrow>
       json_within (Suc d) (JObject m')"
proof (induction d nx v and d nx v i n and d nx v keys m arbitrary: j and js and m'
    rule: value_to_json_list_to_json_attrs_to_json.induct)
  case (1 depth nx v0)
  from "1.prems" show ?case
    by (subst (asm) value_to_json.simps)
      (auto simp: and_then_Ok_iff json_within_simps bind_eq_Some_conv
        split: nat.splits sum.splits value_type.splits if_splits dest: "1.IH")
next
  case (2 depth nx v i n)
  show ?case
  proof (cases n)
    case 0
    with "2.prems" show ?thesis by (simp add: list_to_json.simps [of depth nx v i 0])
  next
    case (Suc n')
    with "2.prems" obtain item x xs where item: "nx_list_get nx v i = Inr item"
      and x: "value_to_json depth nx item = Inr x"
      and xs: "list_to_json depth nx v (Suc i) n' = Inr (Some xs)" and js: "js = option_or x JNull # xs"
      by (auto simp: list_to_json.simps [of depth nx v i "Suc n'"] and_then_Ok_iff split: sum.splits)
    have "json_within depth (option_or x JNull)"
      using "2.IH"(1) [OF Suc item] x by (cases x) (auto simp: json_within_simps)
    with "2.IH"(2) [OF Suc item x xs] js show ?thesis by simp
  qed
next
  case (3 depth nx v m)
  then show ?case by simp
next
  case (4 depth nx v key keys m)
  show ?case
  proof (cases "nx_get_attr nx v key")
    case (Inl e)
    with 4 show ?thesis by simp
  next
    case (Inr child)
    let ?m = "\<lambda>x. case x of None \<Rightarrow> m | Some j \<Rightarrow> bt_insert key j m"
    from Inr "4.prems"(1) obtain x where x: "value_to_json depth nx child = Inr x"
      and rest: "attrs_to_json depth nx v keys (?m x) = Inr m'"
      by (auto simp: and_then_Ok_iff)
    have "json_within (Suc depth) (JObject (?m x))"
      using "4.IH"(2) [OF Inr] x "4.prems"(2) json_object_insert_within by (cases x) auto
    with "4.IH"(3) [OF Inr x rest] show ?thesis by simp
  qed
qed

subsection \<open>Values that have a JSON form\<close>

text \<open>
  \<open>represents nx v j\<close>: every node of \<open>v\<close> forces to a value of the type of \<open>j\<close>'s node and is
  readable, an attribute set lists its names in order, and a path is valid UTF-8.
\<close>

inductive represents :: "'v nix \<Rightarrow> 'v \<Rightarrow> json \<Rightarrow> bool" for nx where
  rep_null: "nx_force nx v = Inr w \<Longrightarrow> nx_value_type nx w = TNull \<Longrightarrow> represents nx v JNull"
| rep_bool: "nx_force nx v = Inr w \<Longrightarrow> nx_value_type nx w = TBool \<Longrightarrow> nx_as_bool nx w = Inr b \<Longrightarrow>
    represents nx v (JBool b)"
| rep_int: "nx_force nx v = Inr w \<Longrightarrow> nx_value_type nx w = TInt \<Longrightarrow> nx_as_int nx w = Inr i \<Longrightarrow>
    represents nx v (json_of_int i)"
| rep_float: "nx_force nx v = Inr w \<Longrightarrow> nx_value_type nx w = TFloat \<Longrightarrow>
    nx_as_float nx w = Inr bits \<Longrightarrow> json_of_float bits = Some j \<Longrightarrow> represents nx v j"
| rep_string: "nx_force nx v = Inr w \<Longrightarrow> nx_value_type nx w = TString \<Longrightarrow>
    nx_as_string nx w = Inr s \<Longrightarrow> represents nx v (JString s)"
| rep_path: "nx_force nx v = Inr w \<Longrightarrow> nx_value_type nx w = TPath \<Longrightarrow>
    nx_as_path nx w = Inr p \<Longrightarrow> valid_utf8 p \<Longrightarrow> represents nx v (JString p)"
| rep_list: "nx_force nx v = Inr w \<Longrightarrow> nx_value_type nx w = TList \<Longrightarrow>
    nx_list_len nx w = Inr (length js) \<Longrightarrow>
    (\<And>i. i < length js \<Longrightarrow> nx_list_get nx w i = Inr (item i) \<and> represents nx (item i) (js ! i)) \<Longrightarrow>
    represents nx v (JArray js)"
| rep_attrs: "nx_force nx v = Inr w \<Longrightarrow> nx_value_type nx w = TAttrs \<Longrightarrow>
    nx_attr_keys nx w = Inr (map fst m) \<Longrightarrow> bt_ok m \<Longrightarrow>
    (\<And>k j. (k, j) \<in> set m \<Longrightarrow> nx_get_attr nx w k = Inr (child k) \<and> represents nx (child k) j) \<Longrightarrow>
    represents nx v (JObject m)"

lemma list_to_json_items:
  assumes "\<And>k. k < n \<Longrightarrow> nx_list_get nx v (i + k) = Inr (item (i + k)) \<and>
      value_to_json d nx (item (i + k)) = Inr (Some (js ! (i + k)))"
  shows "list_to_json d nx v i n = Inr (Some (map ((!) js) [i..<i + n]))"
  using assms
proof (induction n arbitrary: i)
  case (Suc n)
  have "list_to_json d nx v (Suc i) n = Inr (Some (map ((!) js) [Suc i..<Suc i + n]))"
    using Suc.prems [of "Suc k" for k] by (intro Suc.IH) simp
  with Suc.prems [of 0] show ?case
    by (subst list_to_json.simps) (simp add: upt_conv_Cons del: upt_Suc)
qed (simp add: list_to_json.simps [of d nx v _ 0])

lemma attrs_to_json_children:
  assumes "\<And>k j. (k, j) \<in> set m \<Longrightarrow> nx_get_attr nx v k = Inr (child k) \<and>
      value_to_json d nx (child k) = Inr (Some j)"
  shows "attrs_to_json d nx v (map fst m) acc = Inr (foldl (\<lambda>m (k, j). bt_insert k j m) acc m)"
  using assms
proof (induction m arbitrary: acc)
  case (Cons kv m)
  obtain k j where kv: "kv = (k, j)" by force
  with Cons.prems [of k j] have "nx_get_attr nx v k = Inr (child k)"
    and "value_to_json d nx (child k) = Inr (Some j)" by simp_all
  moreover have "attrs_to_json d nx v (map fst m) (bt_insert k j acc) =
      Inr (foldl (\<lambda>m (k, j). bt_insert k j m) (bt_insert k j acc) m)"
    using Cons.prems by (intro Cons.IH) auto
  ultimately show ?case using kv by simp
qed simp

lemma value_to_json_represents:
  "represents nx v j \<Longrightarrow> json_depth j < d \<Longrightarrow> value_to_json d nx v = Inr (Some j)"
proof (induction arbitrary: d rule: represents.induct)
  case (rep_list v w js item)
  then obtain d' where d: "d = Suc d'" by (cases d) auto
  have "value_to_json d' nx (item i) = Inr (Some (js ! i))" if "i < length js" for i
  proof -
    have "json_depth (js ! i) \<le> fold max (map json_depth js) 0"
      using fold_max_le [of "map json_depth js" 0 "fold max (map json_depth js) 0"] that by simp
    then show ?thesis using rep_list.IH [OF that] rep_list.prems d by simp
  qed
  then have "list_to_json d' nx w 0 (length js) = Inr (Some js)"
    using list_to_json_items [of "length js" nx w 0 item d' js] rep_list.IH
    by (simp add: map_nth)
  with rep_list.hyps d show ?case by (simp add: value_to_json.simps)
next
  case (rep_attrs v w m child)
  then obtain d' where d: "d = Suc d'" by (cases d) auto
  have "value_to_json d' nx (child k) = Inr (Some j)" if "(k, j) \<in> set m" for k j
  proof -
    have "json_depth j \<le> fold max (map (\<lambda>kv. json_depth (snd kv)) m) 0"
      using fold_max_le [of "map (\<lambda>kv. json_depth (snd kv)) m" 0
          "fold max (map (\<lambda>kv. json_depth (snd kv)) m) 0"] that by force
    then show ?thesis using rep_attrs.IH [OF that] rep_attrs.prems d by simp
  qed
  then have "attrs_to_json d' nx w (map fst m) [] = Inr m"
    using attrs_to_json_children [of m nx w child d' "[]"] rep_attrs.IH
      bt_of_list_id [OF \<open>bt_ok m\<close>] by (simp add: bt_of_list_def)
  with rep_attrs.hyps d show ?case by (simp add: value_to_json.simps)
qed (auto simp: value_to_json.simps less_Suc_eq_0_disj gr0_conv_Suc result_ok_def)

section \<open>Properties of the evaluation of one attribute\<close>

lemma foldl_bt_ok:
  "(\<And>m x. bt_ok m \<Longrightarrow> bt_ok (f m x)) \<Longrightarrow> bt_ok m \<Longrightarrow> bt_ok (foldl f m xs)"
  by (induction xs arbitrary: m) auto

lemma read_input_drvs_ok: "bt_ok (read_input_drvs nx drv_path)"
  by (auto simp: read_input_drvs_def insert_input_drv_def intro!: foldl_bt_ok
      split: sum.splits option.splits)

lemma output_paths_ok: "bt_ok (output_paths nx drv_path)"
  by (auto simp: output_paths_def intro!: foldl_bt_ok split: sum.splits option.splits)

lemma collect_outputs_ok: "collect_outputs nx v names m = Inr m' \<Longrightarrow> bt_ok m \<Longrightarrow> bt_ok m'"
  by (induction names arbitrary: m) (auto simp: and_then_Ok_iff)

lemma value_output_paths_ok: "value_output_paths nx v = Inr m \<Longrightarrow> bt_ok m"
  by (auto simp: value_output_paths_def and_then_Ok_iff intro: collect_outputs_ok)

lemma read_meta_value_within: "read_meta_value nx v = Inr (Some j) \<Longrightarrow> json_within 64 j"
  by (auto simp: read_meta_value_def value_to_json_within(1) split: if_splits sum.splits)

lemma make_job_event:
  assumes "make_job nx fs render v p drv_path opts st = (Inr ev, st1)"
  obtains d where "ev = Derivation d" "derivation_ok d" "d_attr_path d = p" "d_attr d = join ''.'' p"
proof -
  from assms obtain name str meta gc where
    meta: "(if o_meta opts then read_meta_value nx v else Inr None) = Inr meta" and
    ev: "ev = Derivation \<lparr>d_attr = join ''.'' p, d_attr_path = p, d_name = name,
      d_system = result_or (and_then (nx_get_attr nx v ''system'') (nx_as_string nx)) [],
      d_drv_path = str,
      d_outputs = (case value_output_paths nx v of Inr outputs \<Rightarrow> outputs | Inl _ \<Rightarrow> output_paths nx drv_path),
      d_meta = meta,
      d_input_drvs = (if o_show_input_drvs opts then read_input_drvs nx drv_path else []),
      d_constituents = read_constituents nx v, d_gc_root_error = gc\<rparr>"
    by (auto simp: make_job_def Let_def split: sum.splits prod.splits)
  from meta have "\<forall>m. meta = Some m \<longrightarrow> json_ok m"
    using read_meta_value_within [of nx v] by (auto simp: json_within_def split: if_splits)
  moreover have "bt_ok (case value_output_paths nx v of Inr outputs \<Rightarrow> outputs | Inl _ \<Rightarrow> output_paths nx drv_path)"
    by (auto simp: output_paths_ok value_output_paths_ok split: sum.splits)
  ultimately show ?thesis
    using that ev by (simp add: derivation_ok_def read_input_drvs_ok)
qed

text \<open>What an event that answers the attribute path \<open>p\<close> looks like.\<close>

definition answers_path :: "attr_path \<Rightarrow> event \<Rightarrow> bool" where
  "answers_path p e \<longleftrightarrow> event_attr_path e = p \<and> event_attr e = join ''.'' p \<and> event_ok e \<and>
     (case e of
        Derivation d \<Rightarrow> True
      | AttrSet attr attr_path attrs \<Rightarrow> attrs = [] \<or> length p < MAX_ATTR_DEPTH
      | EventError err \<Rightarrow> \<not> e_fatal err)"

lemma attr_error_answers: "answers_path p (attr_error p message)"
  by (simp add: attr_error_def answers_path_def)

lemma attr_set_answers:
  "attrs = [] \<or> length p < MAX_ATTR_DEPTH \<Longrightarrow> answers_path p (AttrSet (join ''.'' p) p attrs)"
  by (simp add: answers_path_def)

lemma process_attr_answers: "answers_path p (fst (process_attr nx fs render root opts p st))"
proof -
  have job: "answers_path p ev" if "make_job nx fs render v p drv opts st = (Inr ev, st1)" for v drv ev st1
    using that by (rule make_job_event) (simp add: answers_path_def)
  show ?thesis
    by (auto simp: process_attr_def attr_error_answers attr_set_answers job
        split: sum.splits option.splits prod.splits)
qed

subsection \<open>Navigation follows the tree\<close>

lemma navigate_from_snoc:
  "navigate_from nx v (p @ [k]) =
     and_then (navigate_from nx v p) (\<lambda>w. and_then (nx_get_attr nx w k) (nx_auto_call nx))"
proof (induction p arbitrary: v)
  case Nil
  show ?case by (auto simp: and_then_def split: sum.splits)
next
  case (Cons a p)
  then show ?case by (auto simp: and_then_def split: sum.splits)
qed

lemma navigate_snoc:
  assumes "nx_auto_call nx root = Inr root"
  shows "navigate nx root (p @ [k]) =
     and_then (navigate nx root p) (\<lambda>w. and_then (nx_get_attr nx w k) (nx_auto_call nx))"
  using assms navigate_from_snoc [of nx root p k]
  by (cases "p = []") (auto simp: navigate_def and_then_def split: sum.splits)

section \<open>Properties of the garbage-collector roots\<close>

lemma plain_name_relative:
  assumes "plain_name a"
  shows "\<not> is_absolute a" "a \<noteq> []" "last a \<noteq> CHR ''/''"
proof -
  from assms show "a \<noteq> []" by (simp add: plain_name_def)
  with assms show "last a \<noteq> CHR ''/''" by (metis last_in_set plain_name_def)
  show "\<not> is_absolute a"
    using assms by (auto simp: plain_name_def is_absolute_def starts_with_iff_prefix prefix_def)
qed

lemma foldl_path_join:
  "list_all plain_name parts \<Longrightarrow> r \<noteq> [] \<Longrightarrow> last r \<noteq> CHR ''/'' \<Longrightarrow>
     foldl path_join r parts = r @ concat (map ((@) ''/'') parts)"
proof (induction parts arbitrary: r)
  case (Cons a parts)
  have "path_join r a = r @ ''/'' @ a" and "last (r @ ''/'' @ a) \<noteq> CHR ''/''"
    using Cons.prems plain_name_relative [of a] by (auto simp: path_join_def)
  with Cons show ?case by simp
qed simp

lemma join_slash: "a # parts = xs \<Longrightarrow> join ''/'' xs = a @ concat (map ((@) ''/'') parts)"
  by (induction parts arbitrary: a xs) auto

lemma foldl_path_join_root:
  assumes "list_all plain_name parts"
  shows "foldl path_join ''/'' parts = ''/'' @ join ''/'' parts"
proof (cases parts)
  case (Cons a rest)
  have "path_join ''/'' a = ''/'' @ a" and "last (''/'' @ a) \<noteq> CHR ''/''"
    using assms Cons plain_name_relative [of a] by (auto simp: path_join_def)
  with foldl_path_join [of rest "''/'' @ a"] assms Cons show ?thesis
    by (simp add: join_slash [OF refl])
qed simp

lemma normalize_parts_plain:
  assumes "normalize_parts p cs absolute parts = Inr (absolute', parts')"
    and "list_all plain_name parts" and "\<And>s. Normal s \<in> set cs \<Longrightarrow> plain_name s"
  shows "list_all plain_name parts'"
  using assms
  by (induction p cs absolute parts rule: normalize_parts.induct)
    (auto simp: list_all_iff split: if_splits dest: in_set_butlastD)

lemma normalize_parts_normal:
  "normalize_parts p (map Normal names) absolute parts = Inr (absolute, parts @ names)"
  by (induction names arbitrary: parts) auto

lemma normalize_parts_rooted:
  "normalize_parts p cs absolute parts = Inr (True, parts') \<Longrightarrow> absolute \<or> RootDir \<in> set cs"
  by (induction p cs absolute parts rule: normalize_parts.induct) (auto split: if_splits)

lemma normalize_absolute_cases:
  assumes "normalize_absolute p = Inr n"
  obtains parts where "list_all plain_name parts" "n = ''/'' @ join ''/'' parts"
    "path_components n = RootDir # map Normal parts" "is_absolute p"
proof -
  from assms obtain parts where
    run: "normalize_parts p (path_components p) False [] = Inr (True, parts)"
    and n: "n = foldl path_join ''/'' parts"
    by (auto simp: normalize_absolute_def and_then_Ok_iff split: if_splits)
  have plain: "list_all plain_name parts"
    using normalize_parts_plain [OF run] path_components_normal by simp
  moreover have "is_absolute p"
    using normalize_parts_rooted [OF run]
    by (auto simp: path_components_def component_of_def is_absolute_def Let_def split: if_splits)
  ultimately show ?thesis
    using that n foldl_path_join_root [OF plain] path_components_rooted [OF plain] by simp
qed

lemma normalize_absolute_fixed:
  assumes "list_all plain_name parts"
  shows "normalize_absolute (''/'' @ join ''/'' parts) = Inr (''/'' @ join ''/'' parts)"
  using path_components_rooted [OF assms] foldl_path_join_root [OF assms]
  by (simp add: normalize_absolute_def normalize_parts_normal)

lemma gcroots_components:
  "path_components NIX_GCROOTS_DIR = RootDir # map Normal [''nix'', ''var'', ''nix'', ''gcroots'']"
  by (simp add: NIX_GCROOTS_DIR_def path_components_def component_of_def starts_with_def)

section \<open>A concrete evaluator\<close>

text \<open>
  JSON values as Nix values: attribute sets are objects, a set with the attribute
  \<open>drvPath\<close> is a derivation, and there are no functions.
\<close>

definition ex_nix :: "json nix" where
  "ex_nix = \<lparr>
     nx_auto_call = Inr,
     nx_value_type = (\<lambda>v. case v of JNull \<Rightarrow> TNull | JBool _ \<Rightarrow> TBool
       | JNumber (Float _) \<Rightarrow> TFloat | JNumber _ \<Rightarrow> TInt | JString _ \<Rightarrow> TString
       | JArray _ \<Rightarrow> TList | JObject _ \<Rightarrow> TAttrs),
     nx_force = Inr,
     nx_get_attr = (\<lambda>v k. ok_or (json_get v k) (Report [] (Message ''no attribute''))),
     nx_has_attr = (\<lambda>v k. Inr (json_get v k \<noteq> None)),
     nx_attr_keys = (\<lambda>v. case v of JObject m \<Rightarrow> Inr (map fst m) | _ \<Rightarrow> external ''nix''),
     nx_as_bool = (\<lambda>v. ok_or (as_bool v) (Report [] (Message ''no bool''))),
     nx_as_int = (\<lambda>v. case v of JNumber (PosInt i) \<Rightarrow> Inr i | JNumber (NegInt i) \<Rightarrow> Inr i
       | _ \<Rightarrow> external ''nix''),
     nx_as_float = (\<lambda>v. case v of JNumber (Float b) \<Rightarrow> Inr b | _ \<Rightarrow> external ''nix''),
     nx_as_string = (\<lambda>v. ok_or (as_str v) (Report [] (Message ''no string''))),
     nx_as_path = (\<lambda>v. external ''nix''),
     nx_list_len = (\<lambda>v. case v of JArray vs \<Rightarrow> Inr (length vs) | _ \<Rightarrow> external ''nix''),
     nx_list_get = (\<lambda>v i. case v of JArray vs \<Rightarrow> if i < length vs then Inr (vs ! i) else external ''nix''
       | _ \<Rightarrow> external ''nix''),
     nx_get_derivation = (\<lambda>v. Inr (Option.bind (json_get v ''drvPath'') as_str)),
     nx_print_path = Inr,
     nx_read_derivation = (\<lambda>_. external ''nix''),
     nx_drv_to_json = (\<lambda>_. external ''nix''),
     nx_json_from_str = (\<lambda>_. external ''serde''),
     nx_output_paths = (\<lambda>v. ok_or (json_get v ''outputs'') (Report [] (Message ''no outputs''))),
     nx_store_dir = Inr ''/nix/store''\<rparr>"

text \<open>A file system that is the list of the links created on it.\<close>

definition ex_fs :: "(path \<times> path) list gc_fs" where
  "ex_fs = \<lparr>
     fs_create_dir_all = (\<lambda>p st. (Inr (), st)),
     fs_canonicalize = (\<lambda>p st. Inr p),
     fs_symlink_metadata = (\<lambda>p st. if p \<in> set (map snd st) then LinkPresent else LinkNotFound),
     fs_symlink = (\<lambda>target link st. (Inr (), (target, link) # st))\<rparr>"

definition ex_options :: eval_options where
  "ex_options = \<lparr>o_force_recurse = False, o_gc_roots_dir = Some ''/nix/var/nix/gcroots/evix'',
     o_meta = True, o_show_input_drvs = False\<rparr>"

definition ex_drv_value :: json where
  "ex_drv_value = JObject [(''drvPath'', JString ''/nix/store/a.drv''), (''meta'', JObject [(''broken'', JBool False)]),
     (''name'', JString ''a''), (''outputs'', JObject [(''out'', JString ''/nix/store/a'')])]"

definition ex_root :: json where
  "ex_root = JObject [(''a'', ex_drv_value), (''s'', JArray [JNumber (PosInt 3), JNull])]"

section \<open>The claims\<close>

text \<open>
  C31. Whatever the evaluator and the file system answer, \<open>process_attr\<close> answers the path it
  was asked about: the event carries the path and its dotted form, its maps are ordered, an
  error is never fatal, and only a path shorter than \<open>MAX_ATTR_DEPTH\<close> is given children, so
  that a cyclic attribute set is cut at that depth.
\<close>

theorem attribute_event_answers_path:
  "answers_path p (fst (process_attr nx fs render root opts p st))"
  by (rule process_attr_answers)

text \<open>
  C32. Every child reported for an attribute set is an attribute of the value found at its
  path, other than \<open>recurseForDerivations\<close>, is only reported at the root, under
  \<open>force_recurse\<close> or where \<open>recurseForDerivations\<close> is true, and evaluating the child's path
  reaches that attribute of that value, when the root itself needs no argument.
\<close>

theorem reported_children_are_attributes:
  assumes "nx_auto_call nx root = Inr root"
    and "fst (process_attr nx fs render root opts p st) = AttrSet attr p attrs" and "k \<in> set attrs"
  shows "\<exists>v keys. navigate nx root p = Inr v \<and> nx_attr_keys nx v = Inr keys \<and> k \<in> set keys \<and>
    k \<noteq> ''recurseForDerivations'' \<and>
    (o_force_recurse opts \<or> p = [] \<or>
       and_then (nx_get_attr nx v ''recurseForDerivations'') (nx_as_bool nx) = Inr True) \<and>
    navigate nx root (p @ [k]) = and_then (nx_get_attr nx v k) (nx_auto_call nx)"
proof -
  from assms(2,3) obtain v where v: "navigate nx root p = Inr v"
    and attrs: "attrs = collect_recurse nx v p (o_force_recurse opts)"
    by (auto simp: process_attr_def attr_error_def
        split: sum.splits option.splits if_splits prod.splits elim!: make_job_event)
  from attrs assms(3) obtain keys where "nx_attr_keys nx v = Inr keys" "k \<in> set keys"
    "k \<noteq> ''recurseForDerivations''"
    "o_force_recurse opts \<or> p = [] \<or>
       and_then (nx_get_attr nx v ''recurseForDerivations'') (nx_as_bool nx) = Inr True"
    by (auto simp: collect_recurse_def result_or_def split: sum.splits if_splits)
  with v show ?thesis by (simp add: navigate_snoc [OF assms(1)])
qed

theorem reported_children_are_attributes_witness:
  "\<exists>v keys. navigate ex_nix ex_root [] = Inr v \<and> nx_attr_keys ex_nix v = Inr keys \<and> ''s'' \<in> set keys \<and>
    ''s'' \<noteq> ''recurseForDerivations'' \<and>
    (o_force_recurse ex_options \<or> ([] :: attr_path) = [] \<or>
       and_then (nx_get_attr ex_nix v ''recurseForDerivations'') (nx_as_bool ex_nix) = Inr True) \<and>
    navigate ex_nix ex_root ([] @ [''s'']) = and_then (nx_get_attr ex_nix v ''s'') (nx_auto_call ex_nix)"
proof (rule reported_children_are_attributes)
  show "nx_auto_call ex_nix ex_root = Inr ex_root" by (simp add: ex_nix_def)
  show "fst (process_attr ex_nix ex_fs (\<lambda>_. []) ex_root ex_options [] []) = AttrSet [] [] [''a'', ''s'']"
    by code_simp
qed simp

text \<open>
  C33. The conversion of \<open>meta\<close> is exact and bounded: a value all of whose nodes are readable
  and whose JSON form nests less deep than the budget is converted to that form, and every
  value the conversion gives is an ordered JSON value no deeper than the budget.
\<close>

theorem value_to_json_exact_and_bounded:
  assumes "represents nx v j" and "json_depth j < d" and "value_to_json d nx w = Inr (Some j')"
  shows "value_to_json d nx v = Inr (Some j) \<and> json_ok j' \<and> json_depth j' \<le> d"
  using value_to_json_represents [OF assms(1,2)] value_to_json_within(1) [OF assms(3)]
  by (simp add: json_within_def)

theorem value_to_json_exact_and_bounded_witness:
  "value_to_json 64 ex_nix (JArray [JBool True]) = Inr (Some (JArray [JBool True])) \<and>
     json_ok (JObject []) \<and> json_depth (JObject []) \<le> 64"
proof (rule value_to_json_exact_and_bounded)
  have item: "represents ex_nix (JBool True) (JBool True)"
    by (rule rep_bool [of _ _ "JBool True"]) (simp_all add: ex_nix_def)
  show "represents ex_nix (JArray [JBool True]) (JArray [JBool True])"
    by (rule rep_list [of _ _ "JArray [JBool True]" _ "\<lambda>_. JBool True"])
      (use item in \<open>simp_all add: ex_nix_def\<close>)
  show "json_depth (JArray [JBool True]) < 64" by simp
  show "value_to_json 64 ex_nix (JObject [(''f'', JNumber (Float 0x7FF0000000000000))]) = Inr (Some (JObject []))"
    by code_simp
qed

text \<open>
  C34. A garbage-collector directory that passes validation is an absolute path; its
  normalised form is free of dot components, lies in the tree of \<open>NIX_GCROOTS_DIR\<close> and is left
  as it is by a second validation. A directory that does not pass leaves the file system
  untouched.
\<close>

theorem gc_roots_dir_confined:
  assumes "validate_gc_roots_dir_path d = Inr n" and "validate_gc_roots_dir_path d' = Inl e"
  shows "is_absolute d \<and>
    (\<exists>parts. list_all plain_name parts \<and>
       path_components n = RootDir # map Normal ([''nix'', ''var'', ''nix'', ''gcroots''] @ parts)) \<and>
    validate_gc_roots_dir_path n = Inr n \<and>
    register_gc_root fs d' drv_path st = (Inl e, st)"
proof -
  from assms(1) have norm: "normalize_absolute d = Inr n" and under: "path_starts_with n NIX_GCROOTS_DIR"
    by (auto simp: validate_gc_roots_dir_path_def and_then_Ok_iff split: if_splits)
  from norm obtain parts where plain: "list_all plain_name parts" and n: "n = ''/'' @ join ''/'' parts"
    and comps: "path_components n = RootDir # map Normal parts" and abs: "is_absolute d"
    by (rule normalize_absolute_cases)
  from under have "prefix (map Normal [''nix'', ''var'', ''nix'', ''gcroots'']) (map Normal parts)"
    unfolding path_starts_with_def starts_with_iff_prefix gcroots_components comps by simp
  then obtain zs where "map Normal parts = map Normal [''nix'', ''var'', ''nix'', ''gcroots''] @ zs"
    by (auto simp: prefix_def)
  then obtain rest where "parts = [''nix'', ''var'', ''nix'', ''gcroots''] @ rest"
    by (auto simp: map_eq_append_conv map_eq_Cons_conv)
  moreover have "validate_gc_roots_dir_path n = Inr n"
    using normalize_absolute_fixed [OF plain] under n
    by (simp add: validate_gc_roots_dir_path_def)
  moreover have "register_gc_root fs d' drv_path st = (Inl e, st)"
    using assms(2) by (simp add: register_gc_root_def ensure_gc_roots_dir_def)
  ultimately show ?thesis using abs comps plain by auto
qed

theorem gc_roots_dir_confined_witness:
  "is_absolute ''/nix/var/nix/gcroots/./evix/../evix'' \<and>
    (\<exists>parts. list_all plain_name parts \<and>
       path_components ''/nix/var/nix/gcroots/evix'' =
         RootDir # map Normal ([''nix'', ''var'', ''nix'', ''gcroots''] @ parts)) \<and>
    validate_gc_roots_dir_path ''/nix/var/nix/gcroots/evix'' = Inr ''/nix/var/nix/gcroots/evix'' \<and>
    register_gc_root ex_fs ''/nix/var/nix/gcroots/../bad'' ''/nix/store/a.drv'' [] =
      (Inl (Report [] (Template ''gc roots dir must be under {NIX_GCROOTS_DIR}: {}''
         [''/nix/var/nix/gcroots/../bad''])), [])"
  by (rule gc_roots_dir_confined) code_simp+

end
