(* ===== verification/Worker.thy ===== *)
theory Worker
  imports Worker_Process Eval Fork
begin

text \<open>
  The worker process (\<open>crates/evix/src/worker.rs\<close>): reading its setup, building the evaluation
  state, evaluating the input (a flake, locked or imported, an expression or a file) to the
  root value, and the loop that answers one attribute path after another, watches the memory
  limit and forks. The Nix library is a record of its operations; the channel a worker serves
  is its standard input and output until it is forked, and its slot's socket afterwards.
\<close>

section \<open>Flake references\<close>

datatype lock_mode = LockCheck | LockVirtual

definition flake_lock_mode :: "bool \<Rightarrow> lock_mode" where
  "flake_lock_mode local_flake = (if local_flake then LockCheck else LockVirtual)"

definition is_local_flake_reference :: "string \<Rightarrow> bool" where
  "is_local_flake_reference reference =
     (let p = (case split_once CHR ''#'' (option_or (strip_prefix ''path:'' reference) reference) of
            None \<Rightarrow> reference
          | Some (p, _) \<Rightarrow> p)
      in p = [] \<or> p = ''.'' \<or> p = ''..'' \<or> starts_with p ''./'' \<or> starts_with p ''../'' \<or> is_absolute p)"

section \<open>The Nix library at start-up\<close>

text \<open>\<open>'r\<close> are parsed flake references and \<open>'l\<close> locked flakes.\<close>

record ('v, 'r, 'l) nix_api =
  na_context :: "unit result"
  na_set_setting :: "string \<Rightarrow> string \<Rightarrow> unit result"
  na_open_store :: "unit result"
  na_store_uri :: "string result"
  na_api_store_dir :: "string result"
  na_builder :: "unit result"
  na_flake_settings :: "unit result"
  na_with_flake_settings :: "unit result"
  na_build :: "unit result"
  na_fetchers :: "unit result"
  na_current_dir :: "path result"
  na_parse_flags :: "unit result"
  na_set_base_directory :: "string \<Rightarrow> unit result"
  na_eval_from_string :: "string \<Rightarrow> string \<Rightarrow> 'v result"
  na_eval_from_file :: "path \<Rightarrow> 'v result"
  na_make_string :: "string \<Rightarrow> 'v result"
  na_make_attrs :: "(string \<times> 'v) list \<Rightarrow> 'v result"
  na_auto_call :: "'v option \<Rightarrow> 'v \<Rightarrow> 'v result"
  na_get_attr :: "'v \<Rightarrow> string \<Rightarrow> 'v result"
  na_parse_flake_ref :: "string \<Rightarrow> ('r \<times> string) result"
  na_lock_flags :: "unit result"
  na_set_lock_mode :: "lock_mode \<Rightarrow> unit result"
  na_add_input_override :: "string \<Rightarrow> 'r \<Rightarrow> unit result"
  na_lock :: "lock_mode \<Rightarrow> (string \<times> 'r) list \<Rightarrow> 'r \<Rightarrow> 'l result"
  na_import_json :: "string \<Rightarrow> 'l result"
  na_output_attrs :: "'l \<Rightarrow> 'v result"
  na_export_json :: "'l \<Rightarrow> string result"
  na_allow_store_path :: "string \<Rightarrow> unit result"
  na_json_from_str :: "string \<Rightarrow> json result"

definition build_eval_state :: "('v, 'r, 'l) nix_api \<Rightarrow> unit result" where
  "build_eval_state na =
     and_then (with_context ''eval state builder'' (na_builder na)) (\<lambda>_.
     and_then (with_context ''flake settings'' (na_flake_settings na)) (\<lambda>_.
     and_then (with_context ''applying flake settings'' (na_with_flake_settings na)) (\<lambda>_.
       with_context ''building eval state'' (na_build na))))"

fun auto_arg_values :: "('v, 'r, 'l) nix_api \<Rightarrow> (string \<times> auto_arg) list \<Rightarrow> (string \<times> 'v) list result" where
  "auto_arg_values na [] = Inr []"
| "auto_arg_values na ((name, arg) # args) =
     and_then (case arg of
         ArgExpr e \<Rightarrow> with_context (''--arg '' @ name) (na_eval_from_string na e ''<arg>'')
       | ArgStr s \<Rightarrow> with_context (''--argstr '' @ name) (na_make_string na s)) (\<lambda>v.
     and_then (auto_arg_values na args) (\<lambda>vs. Inr ((name, v) # vs)))"

definition build_auto_args :: "('v, 'r, 'l) nix_api \<Rightarrow> (string \<times> auto_arg) list \<Rightarrow> 'v option result" where
  "build_auto_args na args =
     (if args = [] then Inr None
      else and_then (auto_arg_values na args) (\<lambda>pairs.
           and_then (with_context ''building auto-args attrset'' (na_make_attrs na pairs)) (\<lambda>attrs.
             Inr (Some attrs))))"

definition flake_parse_flags :: "('v, 'r, 'l) nix_api \<Rightarrow> unit result" where
  "flake_parse_flags na =
     and_then (with_context ''resolving flake base directory'' (na_current_dir na)) (\<lambda>base_dir.
     and_then (with_context ''parse flags'' (na_parse_flags na)) (\<lambda>_.
       if \<not> valid_utf8 base_dir then Inr ()
       else with_context (''setting flake base directory '' @ base_dir) (na_set_base_directory na base_dir)))"

fun input_overrides ::
  "('v, 'r, 'l) nix_api \<Rightarrow> (string \<times> string) list \<Rightarrow> (string \<times> 'r) list result" where
  "input_overrides na [] = Inr []"
| "input_overrides na ((name, val) # overrides) =
     and_then (with_context (''parsing --override-input '' @ name @ '' reference {value:?}'')
         (na_parse_flake_ref na val)) (\<lambda>(override_ref, _).
     and_then (with_context (''applying --override-input '' @ name)
         (na_add_input_override na name override_ref)) (\<lambda>_.
     and_then (input_overrides na overrides) (\<lambda>os. Inr ((name, override_ref) # os))))"

definition lock_flake ::
  "('v, 'r, 'l) nix_api \<Rightarrow> string \<Rightarrow> (string \<times> string) list \<Rightarrow> 'r \<Rightarrow> 'l result" where
  "lock_flake na flake_ref_str override_inputs flake_ref =
     (let local_flake = is_local_flake_reference flake_ref_str; mode = flake_lock_mode local_flake in
      and_then (with_context ''lock flags'' (na_lock_flags na)) (\<lambda>_.
      and_then (with_context ''setting lock mode'' (na_set_lock_mode na mode)) (\<lambda>_.
      and_then (input_overrides na override_inputs) (\<lambda>os.
        with_context (if local_flake then ''locking local flake with an up-to-date flake.lock''
            else ''locking flake'')
          (na_lock na mode os flake_ref)))))"

fun eval_fragment :: "('v, 'r, 'l) nix_api \<Rightarrow> string list \<Rightarrow> 'v \<Rightarrow> 'v result" where
  "eval_fragment na [] current = Inr current"
| "eval_fragment na (part # parts) current =
     and_then (with_context ''fragment attr {part:?}'' (na_get_attr na current part)) (\<lambda>raw.
     and_then (with_context ''auto-calling fragment {part:?}'' (na_auto_call na None raw)) (\<lambda>next.
       eval_fragment na parts next))"

text \<open>The store path a node of an imported graph lies in.\<close>

definition imported_root :: "string \<Rightarrow> json \<Rightarrow> string result" where
  "imported_root dir v =
     (case as_str v of
        None \<Rightarrow> bail ''locked flake node path is not a string''
      | Some p \<Rightarrow>
          (case Option.bind (strip_prefix dir p) (strip_prefix ''/'') of
             None \<Rightarrow> bail ''locked flake node path is outside the worker store''
           | Some relative \<Rightarrow>
               let name = hd (split_char CHR ''/'' relative) in
               if name = [] then bail ''locked flake node path is missing its store path''
               else Inr (dir @ ''/'' @ name)))"

definition imported_roots :: "string \<Rightarrow> json list \<Rightarrow> string list result" where
  "imported_roots dir vs =
     and_then (collect_results (imported_root dir) vs) (\<lambda>roots. Inr (sort (remdups roots)))"

definition allow_imported_flake_paths :: "('v, 'r, 'l) nix_api \<Rightarrow> string \<Rightarrow> string list result" where
  "allow_imported_flake_paths na text =
     and_then (with_context ''parsing locked flake graph'' (na_json_from_str na text)) (\<lambda>graph.
       case Option.bind (json_get graph ''nodePaths'') as_object of
         None \<Rightarrow> bail ''locked flake graph is missing node paths''
       | Some paths \<Rightarrow>
           and_then (with_context ''reading Nix store directory'' (na_api_store_dir na)) (\<lambda>dir.
           and_then (imported_roots dir (map snd paths)) (\<lambda>roots.
             and_then (collect_results (na_allow_store_path na) roots) (\<lambda>_. Inr roots))))"

definition eval_flake ::
  "('v, 'r, 'l) nix_api \<Rightarrow> string \<Rightarrow> (string \<times> string) list \<Rightarrow> string option \<Rightarrow> 'v result" where
  "eval_flake na flake_ref_str override_inputs locked_flake_json =
     and_then (with_context ''flake settings'' (na_flake_settings na)) (\<lambda>_.
     and_then (with_context ''fetcher settings'' (na_fetchers na)) (\<lambda>_.
     and_then (flake_parse_flags na) (\<lambda>_.
     and_then (with_context ''parsing flake reference'' (na_parse_flake_ref na flake_ref_str)) (\<lambda>(flake_ref, fragment).
     and_then (case locked_flake_json of
         Some text \<Rightarrow>
           and_then (allow_imported_flake_paths na text) (\<lambda>_.
           and_then (with_context ''importing locked flake graph'' (na_import_json na text)) (\<lambda>imported.
             with_context ''flake outputs'' (na_output_attrs na imported)))
       | None \<Rightarrow>
           and_then (lock_flake na flake_ref_str override_inputs flake_ref) (\<lambda>locked.
             with_context ''flake outputs'' (na_output_attrs na locked))) (\<lambda>outputs.
       if fragment = [] then Inr outputs
       else eval_fragment na (split_char CHR ''.'' fragment) outputs)))))"

definition eval_root :: "('v, 'r, 'l) nix_api \<Rightarrow> worker_config \<Rightarrow> 'v option \<Rightarrow> 'v result" where
  "eval_root na config auto =
     (case w_input config of
        InputFlake flake_ref \<Rightarrow>
          eval_flake na flake_ref (w_override_inputs config) (w_locked_flake_json config)
      | InputExpr e \<Rightarrow>
          and_then (with_context ''evaluating expression'' (na_eval_from_string na e ''<cmdline>''))
            (na_auto_call na auto)
      | InputFile file \<Rightarrow>
          and_then (with_context ''evaluating file'' (na_eval_from_file na file)) (na_auto_call na auto))"

definition export_locked_flake :: "('v, 'r, 'l) nix_api \<Rightarrow> config \<Rightarrow> string option result" where
  "export_locked_flake na config =
     (case c_input config of
        InputFlake flake_ref_str \<Rightarrow>
          and_then (with_context ''Nix context'' (na_context na)) (\<lambda>_.
          and_then (with_context ''Nix store'' (na_open_store na)) (\<lambda>_.
          and_then (build_eval_state na) (\<lambda>_.
          and_then (with_context ''flake settings'' (na_flake_settings na)) (\<lambda>_.
          and_then (with_context ''fetcher settings'' (na_fetchers na)) (\<lambda>_.
          and_then (flake_parse_flags na) (\<lambda>_.
          and_then (with_context ''parsing flake reference'' (na_parse_flake_ref na flake_ref_str)) (\<lambda>(flake_ref, _).
          and_then (lock_flake na flake_ref_str (c_override_inputs config) flake_ref) (\<lambda>locked.
            with_context ''exporting locked flake graph''
              (and_then (na_export_json na locked) (\<lambda>text. Inr (Some text)))))))))))
      | _ \<Rightarrow> Inr None)"

section \<open>The loop\<close>

definition should_restart :: "usize \<Rightarrow> usize \<Rightarrow> bool" where
  "should_restart max_rss_kb max_memory_mb \<longleftrightarrow> saturating_mul max_memory_mb 1024 < max_rss_kb"

datatype channel = StdChannel | SlotChannel fork_slot

datatype worker_out = OutMessage server_message | OutPid nat

text \<open>
  What the loop meets, item by item: the evaluation of a path on the state of the file
  system, the peak memory after item \<open>n\<close>, \<open>waitpid\<close>, the fork loop's views, whether write
  number \<open>n\<close> succeeds, the duplication of the slot's socket, the redirection of the standard
  streams, the process identifier of the child, and what each channel delivers.
\<close>

record 'f worker_world =
  ww_answer :: "attr_path \<Rightarrow> 'f \<Rightarrow> event \<times> 'f"
  ww_maxrss :: "nat \<Rightarrow> usize result"
  ww_waitpid :: "nat \<Rightarrow> int \<Rightarrow> int"
  ww_fork :: "nat \<Rightarrow> nat \<Rightarrow> fork_view"
  ww_write :: "nat \<Rightarrow> unit result"
  ww_clone :: "unit result"
  ww_detach :: "unit result"
  ww_pid :: nat
  ww_requests :: "channel \<Rightarrow> client_message result list"

fun write_outs ::
  "'f worker_world \<Rightarrow> (channel \<times> worker_out) list \<Rightarrow> (channel \<times> worker_out) list
    \<Rightarrow> unit result \<times> (channel \<times> worker_out) list" where
  "write_outs w outs [] = (Inr (), outs)"
| "write_outs w outs (x # xs) =
     (case ww_write w (length outs) of
        Inl e \<Rightarrow> (Inl e, outs)
      | Inr _ \<Rightarrow> write_outs w (outs @ [x]) xs)"

lemma fork_due_slots:
  assumes "fork_due view 0 completed rss f = (r, f')"
  shows "length (fk_slots f') \<le> length (fk_slots f)"
    and "r = Inr (Some slot) \<Longrightarrow> fk_slots f' = [] \<and> fk_slots f \<noteq> [] \<and> slot \<in> set (fk_slots f)"
proof -
  from fork_due_forked_times [OF assms] obtain k where
    k: "forked_times view 0 completed rss f k r f'" ..
  then show "length (fk_slots f') \<le> length (fk_slots f)" by (auto simp: forked_times_def)
  assume "r = Inr (Some slot)"
  with k show "fk_slots f' = [] \<and> fk_slots f \<noteq> [] \<and> slot \<in> set (fk_slots f)"
    by (auto simp: forked_times_def intro!: nth_mem)
qed

lemma fork_due_subset:
  "fork_due view 0 completed rss f = (r, f') \<Longrightarrow> set (fk_slots f') \<subseteq> set (fk_slots f)"
  using fork_due_forked_times [of view 0 completed rss f r f']
  by (auto simp: forked_times_def dest: in_set_dropD)

lemma reap_slots [simp]: "fk_slots (reap waitpid f) = fk_slots f"
  by (simp add: reap_def)

text \<open>
  After the status: reaping and forking. The result is the output, the file system, and either
  how the worker ended or the slot the process continues on, as the child of a fork, with the
  forker.
\<close>

definition worker_fork ::
  "'f worker_world \<Rightarrow> usize \<Rightarrow> nat \<Rightarrow> usize \<Rightarrow> forker \<Rightarrow> 'f \<Rightarrow> (channel \<times> worker_out) list
    \<Rightarrow> (channel \<times> worker_out) list \<times> 'f \<times> (unit result + fork_slot option \<times> forker)" where
  "worker_fork w completed n rss fk st outs =
     (case fork_due (ww_fork w n) 0 (completed + 1) rss (reap (ww_waitpid w n) fk) of
        (Inl e, fk2) \<Rightarrow> (outs, st, Inl (Inl e))
      | (Inr None, fk2) \<Rightarrow> (outs, st, Inr (None, fk2))
      | (Inr (Some slot), fk2) \<Rightarrow>
          (case and_then (ww_clone w) (\<lambda>_. ww_detach w) of
             Inl e \<Rightarrow> (outs, st, Inl (Inl e))
           | Inr _ \<Rightarrow>
          (case write_outs w outs
               [(SlotChannel slot, OutPid (ww_pid w)), (SlotChannel slot, OutMessage ServerReady)] of
             (Inl e, outs1) \<Rightarrow> (outs1, st, Inl (Inl e))
           | (Inr _, outs1) \<Rightarrow> (outs1, st, Inr (Some slot, fk2)))))"

text \<open>
  The work on one path: the event, the memory check with the status, and forking.
\<close>

definition worker_item ::
  "'f worker_world \<Rightarrow> usize \<Rightarrow> channel \<Rightarrow> attr_path \<Rightarrow> usize \<Rightarrow> nat \<Rightarrow> forker \<Rightarrow> 'f \<Rightarrow> (channel \<times> worker_out) list
    \<Rightarrow> (channel \<times> worker_out) list \<times> 'f \<times> (unit result + fork_slot option \<times> forker)" where
  "worker_item w max_memory ch p completed n fk st outs =
     (case ww_answer w p st of (response, st1) \<Rightarrow>
     (case write_outs w outs [(ch, OutMessage (ServerEvent response))] of
        (Inl e, outs1) \<Rightarrow> (outs1, st1, Inl (Inl e))
      | (Inr _, outs1) \<Rightarrow>
     (case with_context ''checking worker memory usage'' (ww_maxrss w n) of
        Inl e \<Rightarrow> (outs1, st1, Inl (Inl e))
      | Inr rss \<Rightarrow>
          if should_restart rss max_memory then
            (case write_outs w outs1 [(ch, OutMessage (ServerStatus StatusRestart))] of
               (r, outs2) \<Rightarrow> (outs2, st1, Inl r))
          else
     (case write_outs w outs1 [(ch, OutMessage (ServerStatus StatusReady))] of
        (Inl e, outs2) \<Rightarrow> (outs2, st1, Inl (Inl e))
      | (Inr _, outs2) \<Rightarrow>
     worker_fork w completed n rss fk st1 outs2))))"

lemma worker_item_fork:
  "worker_item w m ch p completed n fk st outs = (outs', st', Inr (x, fk')) \<Longrightarrow>
     \<exists>rss. fork_due (ww_fork w n) 0 (completed + 1) rss (reap (ww_waitpid w n) fk) = (Inr x, fk')"
  by (auto simp: worker_item_def worker_fork_def simp del: write_outs.simps
      split: prod.splits sum.splits option.splits if_splits)

lemma worker_item_slots:
  assumes "worker_item w m ch p completed n fk st outs = (outs', st', Inr (x, fk'))"
  shows "set (fk_slots fk') \<subseteq> set (fk_slots fk)" and "length (fk_slots fk') \<le> length (fk_slots fk)"
    and "x = Some slot \<Longrightarrow> fk_slots fk' = [] \<and> slot \<in> set (fk_slots fk)"
proof -
  from worker_item_fork [OF assms] obtain rss where
    f: "fork_due (ww_fork w n) 0 (completed + 1) rss (reap (ww_waitpid w n) fk) = (Inr x, fk')" ..
  show "set (fk_slots fk') \<subseteq> set (fk_slots fk)" using fork_due_subset [OF f] by simp
  show "length (fk_slots fk') \<le> length (fk_slots fk)" using fork_due_slots(1) [OF f] by simp
  show "x = Some slot \<Longrightarrow> fk_slots fk' = [] \<and> slot \<in> set (fk_slots fk)"
    using fork_due_slots(2) [OF f] by simp
qed

lemma worker_item_shrinks:
  "(outs', st', Inr (Some slot, fk')) = worker_item w m ch p completed n fk st outs \<Longrightarrow>
     length (fk_slots fk') < length (fk_slots fk)"
  "(outs', st', Inr (None, fk')) = worker_item w m ch p completed n fk st outs \<Longrightarrow>
     length (fk_slots fk') \<le> length (fk_slots fk)"
  by (metis worker_item_slots(3) empty_iff length_greater_0_conv list.set(1) list.size(3),
      metis worker_item_slots(2))

text \<open>The second component is how the worker ended, \<open>None\<close> while it waits for a message.\<close>

function worker_loop ::
  "'f worker_world \<Rightarrow> usize \<Rightarrow> channel \<Rightarrow> client_message result list \<Rightarrow> usize \<Rightarrow> nat \<Rightarrow> forker \<Rightarrow> 'f
    \<Rightarrow> (channel \<times> worker_out) list \<Rightarrow> (channel \<times> worker_out) list \<times> unit result option" where
  "worker_loop w max_memory ch msgs completed n fk st outs =
     (case msgs of
        [] \<Rightarrow> (outs, None)
      | Inl e # rest \<Rightarrow> (outs, Some (Inl e))
      | Inr Shutdown # rest \<Rightarrow> (outs, Some (Inr ()))
      | Inr (Setup config token dir) # rest \<Rightarrow> (outs, Some (bail ''worker setup sent twice''))
      | Inr (Work p) # rest \<Rightarrow>
          (case worker_item w max_memory ch p completed n fk st outs of
             (outs1, st1, Inl r) \<Rightarrow> (outs1, Some r)
           | (outs1, st1, Inr (None, fk1)) \<Rightarrow>
               worker_loop w max_memory ch rest (completed + 1) (Suc n) fk1 st1 outs1
           | (outs1, st1, Inr (Some slot, fk1)) \<Rightarrow>
               worker_loop w max_memory (SlotChannel slot) (ww_requests w (SlotChannel slot))
                 (completed + 1) (Suc n) fk1 st1 outs1))"
  by pat_completeness auto

termination
  by (relation "measures [\<lambda>(w, max_memory, ch, msgs, completed, n, fk, st, outs). length (fk_slots fk),
        \<lambda>(w, max_memory, ch, msgs, completed, n, fk, st, outs). length msgs]")
    (auto dest: worker_item_shrinks)

declare worker_loop.simps [simp del]

section \<open>A worker's life\<close>

definition eval_options_of :: "worker_config \<Rightarrow> eval_options" where
  "eval_options_of c = \<lparr>o_force_recurse = w_force_recurse c, o_gc_roots_dir = w_gc_roots_dir c,
     o_meta = w_meta c, o_show_input_drvs = w_show_input_drvs c\<rparr>"

definition newline :: string where
  "newline = [CHR 0x0A]"

definition OUTPUT_PATHS_EXPR :: string where
  \<open>OUTPUT_PATHS_EXPR = newline @
     ''  drv: builtins.listToAttrs (map (name: {'' @ newline @
     ''    inherit name;'' @ newline @
     ''    value = builtins.unsafeDiscardStringContext drv.${name}.outPath;'' @ newline @
     ''  }) (drv.drvAttrs.outputs or drv.outputs or [ "out" ]))'' @ newline\<close>

text \<open>
  Everything between the setup and the first ready message: the forker, the arguments for
  auto-called functions and the root value.
\<close>

definition worker_start ::
  "('v, 'r, 'l) nix_api \<Rightarrow> (int \<Rightarrow> unit result) \<Rightarrow> string option \<Rightarrow> worker_config
    \<Rightarrow> (forker \<times> 'v option \<times> 'v) result" where
  "worker_start na set_cloexec fork_fds config =
     and_then (with_context ''Nix context'' (na_context na)) (\<lambda>_.
     and_then (with_context ''disabling the negative path info cache''
         (na_set_setting na ''narinfo-cache-negative-ttl'' ''0'')) (\<lambda>_.
     and_then (with_context ''Nix store'' (na_open_store na)) (\<lambda>_.
     and_then (forker_from_env set_cloexec fork_fds (na_store_uri na) (w_max_memory_size config)) (\<lambda>forker.
     and_then (build_eval_state na) (\<lambda>_.
     and_then (build_auto_args na (w_auto_args config)) (\<lambda>auto.
     and_then (eval_root na config auto) (\<lambda>root.
     and_then (with_context ''evaluating output path helper''
         (na_eval_from_string na OUTPUT_PATHS_EXPR ''<evix>'')) (\<lambda>_.
       Inr (forker, auto, root)))))))))"

text \<open>
  \<open>nx auto\<close> is the evaluator with the arguments \<open>auto\<close> for auto-called functions. The first
  message of the standard channel is the setup.
\<close>

definition worker_run ::
  "('v, 'r, 'l) nix_api \<Rightarrow> ('v option \<Rightarrow> 'v nix) \<Rightarrow> 'f gc_fs \<Rightarrow> (report \<Rightarrow> string) \<Rightarrow>
    (int \<Rightarrow> unit result) \<Rightarrow> string option \<Rightarrow> 'f worker_world \<Rightarrow> client_message result \<Rightarrow> 'f
    \<Rightarrow> (channel \<times> worker_out) list \<times> unit result option" where
  "worker_run na nx fs render set_cloexec fork_fds w first st =
     (case first of
        Inl e \<Rightarrow> ([], Some (Inl e))
      | Inr (Setup config token dir) \<Rightarrow>
          (case worker_start na set_cloexec fork_fds config of
             Inl e \<Rightarrow> ([], Some (Inl e))
           | Inr (forker, auto, root) \<Rightarrow>
               (let w' = w\<lparr>ww_answer := process_attr (nx auto) fs render root (eval_options_of config)\<rparr> in
                case write_outs w' [] [(StdChannel, OutMessage ServerReady)] of
                  (Inl e, outs) \<Rightarrow> (outs, Some (Inl e))
                | (Inr _, outs) \<Rightarrow>
                    worker_loop w' (w_max_memory_size config) StdChannel (ww_requests w StdChannel)
                      0 0 forker st outs))
      | Inr m \<Rightarrow> ([], Some (bail_fmt ''worker expected setup message, got {other:?}'' [])))"

section \<open>What a worker says\<close>

text \<open>The messages on one channel, after the greeting of a forked worker.\<close>

definition said :: "channel \<Rightarrow> (channel \<times> worker_out) list \<Rightarrow> server_message list" where
  "said ch outs = concat (map (\<lambda>(c, x). case x of OutMessage m \<Rightarrow> if c = ch then [m] else [] | OutPid _ \<Rightarrow> []) outs)"

definition answered_by :: "'f worker_world \<Rightarrow> attr_path \<Rightarrow> event \<Rightarrow> bool" where
  "answered_by w p e \<longleftrightarrow> (\<exists>st. e = fst (ww_answer w p st))"

lemma said_simps [simp]:
  "said ch [] = []"
  "said ch (xs @ ys) = said ch xs @ said ch ys"
  "said ch ((c, OutMessage m) # xs) = (if c = ch then m # said ch xs else said ch xs)"
  "said ch ((c, OutPid n) # xs) = said ch xs"
  by (simp_all add: said_def)

lemma write_outs_prefix:
  "write_outs w outs xs = (r, outs') \<Longrightarrow> \<exists>k. outs' = outs @ take k xs \<and> (r = Inr () \<longrightarrow> take k xs = xs)"
proof (induction w outs xs rule: write_outs.induct)
  case (2 w outs x xs)
  show ?case
  proof (cases "ww_write w (length outs)")
    case (Inl e)
    with "2.prems" show ?thesis by (intro exI [of _ 0]) auto
  next
    case (Inr u)
    with 2 obtain k where "outs' = (outs @ [x]) @ take k xs" "r = Inr () \<longrightarrow> take k xs = xs" by auto
    then show ?thesis by (intro exI [of _ "Suc k"]) simp
  qed
qed simp

lemma write_outs_Ok: "write_outs w outs xs = (Inr (), outs') \<Longrightarrow> outs' = outs @ xs"
  using write_outs_prefix [of w outs xs "Inr ()" outs'] by auto

lemma write_outs_one: "write_outs w outs [x] = (r, outs') \<Longrightarrow> outs' = outs \<or> outs' = outs @ [x]"
  by (auto split: sum.splits)

lemma write_outs_two:
  "write_outs w outs [x, y] = (Inl e, outs') \<Longrightarrow> outs' = outs \<or> outs' = outs @ [x]"
  by (auto split: sum.splits)

declare write_outs.simps [simp del]

text \<open>What the work on one path adds to the output.\<close>

definition item_says ::
  "'f worker_world \<Rightarrow> channel \<Rightarrow> attr_path \<Rightarrow> (channel \<times> worker_out) list \<Rightarrow> unit result + fork_slot option \<times> forker \<Rightarrow> bool"
where
  "item_says w ch p new r =
     (case r of
        Inl _ \<Rightarrow> conversation (answered_by w) [p] (said ch new) \<and> (\<forall>c. c \<noteq> ch \<longrightarrow> said c new = [])
      | Inr (None, _) \<Rightarrow>
          \<exists>e. answered_by w p e \<and>
            new = [(ch, OutMessage (ServerEvent e)), (ch, OutMessage (ServerStatus StatusReady))]
      | Inr (Some slot, _) \<Rightarrow>
          \<exists>e. answered_by w p e \<and>
            new = [(ch, OutMessage (ServerEvent e)), (ch, OutMessage (ServerStatus StatusReady)),
              (SlotChannel slot, OutPid (ww_pid w)), (SlotChannel slot, OutMessage ServerReady)])"

lemma worker_fork_says:
  assumes "worker_fork w completed n rss fk st outs = (outs', st', r)"
  shows "(outs' = outs \<and> (isl r \<or> (\<exists>fk'. r = Inr (None, fk')))) \<or>
    (\<exists>slot. outs' = outs @ [(SlotChannel slot, OutPid (ww_pid w))] \<and> isl r) \<or>
    (\<exists>slot fk'. outs' = outs @ [(SlotChannel slot, OutPid (ww_pid w)),
       (SlotChannel slot, OutMessage ServerReady)] \<and> r = Inr (Some slot, fk'))"
proof -
  obtain x fk2 where f: "fork_due (ww_fork w n) 0 (completed + 1) rss (reap (ww_waitpid w n) fk) = (x, fk2)"
    by force
  show ?thesis
  proof (cases "\<exists>slot. x = Inr (Some slot)")
    case False
    with assms f show ?thesis by (auto simp: worker_fork_def split: sum.splits option.splits)
  next
    case True
    then obtain slot where x: "x = Inr (Some slot)" ..
    obtain r3 outs3 where w3: "write_outs w outs
        [(SlotChannel slot, OutPid (ww_pid w)), (SlotChannel slot, OutMessage ServerReady)] = (r3, outs3)"
      by force
    show ?thesis
    proof (cases r3)
      case (Inl y)
      with assms f x w3 write_outs_two [of w outs _ _ y outs3] show ?thesis
        by (fastforce simp: worker_fork_def split: sum.splits)
    next
      case (Inr u)
      with assms f x w3 write_outs_Ok [of w outs _ outs3] show ?thesis
        by (auto simp: worker_fork_def split: sum.splits)
    qed
  qed
qed

lemma worker_item_says:
  assumes "worker_item w m ch p completed n fk st outs = (outs', st', r)"
  shows "\<exists>new. outs' = outs @ new \<and> item_says w ch p new r"
proof -
  obtain e st1 where ans: "ww_answer w p st = (e, st1)" by force
  then have A: "answered_by w p e" by (metis answered_by_def fst_conv)
  let ?ev = "(ch, OutMessage (ServerEvent e))" and ?ready = "(ch, OutMessage (ServerStatus StatusReady))"
  obtain r1 outs1 where w1: "write_outs w outs [?ev] = (r1, outs1)" by force
  show ?thesis
  proof (cases "r1 = Inr ()")
    case False
    then obtain err where "r1 = Inl err" by (cases r1) auto
    with assms ans w1 write_outs_one [OF w1] A show ?thesis
      by (auto simp: worker_item_def item_says_def)
  next
    case True
    with w1 have outs1: "outs1 = outs @ [?ev]" by (simp add: write_outs_Ok)
    obtain r2 outs2 where w2: "write_outs w outs1 [?ready] = (r2, outs2)" by force
    note facts = assms ans w1 True outs1 w2 A
    consider err where "ww_maxrss w n = Inl err"
      | rss where "ww_maxrss w n = Inr rss" "should_restart rss m"
      | rss err where "ww_maxrss w n = Inr rss" "\<not> should_restart rss m" "r2 = Inl err"
      | rss where "ww_maxrss w n = Inr rss" "\<not> should_restart rss m" "r2 = Inr ()"
      by (cases "ww_maxrss w n"; cases r2) auto
    then show ?thesis
    proof cases
      case 1
      with facts have "outs' = outs1" "\<exists>x. r = Inl x"
        by (cases err; auto simp: worker_item_def)+
      with outs1 A show ?thesis by (auto simp: item_says_def)
    next
      case 2
      with facts show ?thesis
        by (auto simp: worker_item_def item_says_def split: prod.splits dest!: write_outs_one)
    next
      case 3
      with facts write_outs_one [OF w2] show ?thesis
        by (auto simp: worker_item_def item_says_def)
    next
      case 4
      with w2 outs1 have outs2: "outs2 = outs @ [?ev, ?ready]" by (auto dest: write_outs_Ok)
      with 4 facts have "worker_fork w completed n rss fk st1 (outs @ [?ev, ?ready]) = (outs', st', r)"
        by (simp add: worker_item_def)
      from worker_fork_says [OF this] A show ?thesis by (auto simp: item_says_def isl_def)
    qed
  qed
qed

text \<open>What a channel other than the worker's own carries: nothing, or a forked worker's greeting and conversation.\<close>

definition slot_says :: "'f worker_world \<Rightarrow> fork_slot set \<Rightarrow> (channel \<times> worker_out) list \<Rightarrow> channel \<Rightarrow> bool" where
  "slot_says w slots new c \<longleftrightarrow> said c new = [] \<or>
     (\<exists>slot ms. slot \<in> slots \<and> c = SlotChannel slot \<and> said c new = ServerReady # ms \<and>
        conversation (answered_by w) (works (ww_requests w c)) ms)"

lemma worker_loop_not_work:
  "\<forall>p rest. msgs \<noteq> Inr (Work p) # rest \<Longrightarrow>
     fst (worker_loop w m ch msgs completed n fk st outs) = outs"
  by (subst worker_loop.simps) (auto split: list.splits sum.splits client_message.splits)

lemma worker_loop_work:
  "worker_loop w m ch (Inr (Work p) # rest) completed n fk st outs =
     (case worker_item w m ch p completed n fk st outs of
        (outs1, st1, Inl r) \<Rightarrow> (outs1, Some r)
      | (outs1, st1, Inr (None, fk1)) \<Rightarrow> worker_loop w m ch rest (completed + 1) (Suc n) fk1 st1 outs1
      | (outs1, st1, Inr (Some slot, fk1)) \<Rightarrow>
          worker_loop w m (SlotChannel slot) (ww_requests w (SlotChannel slot))
            (completed + 1) (Suc n) fk1 st1 outs1)"
  by (subst worker_loop.simps) simp

lemma slot_says_append:
  "slot_says w slots new' c \<Longrightarrow> said c new = [] \<Longrightarrow> slots \<subseteq> slots' \<Longrightarrow> slot_says w slots' (new @ new') c"
  by (auto simp: slot_says_def)

lemma slot_says_greeting:
  assumes "slot \<in> slots" and "conversation (answered_by w) (works (ww_requests w (SlotChannel slot))) (said (SlotChannel slot) new)"
    and "\<forall>c. c \<noteq> SlotChannel slot \<longrightarrow> said c new = []" and "c \<noteq> ch" and "SlotChannel slot \<noteq> ch"
  shows "slot_says w slots ((ch, OutMessage a) # (ch, OutMessage b) # (SlotChannel slot, OutPid n) #
    (SlotChannel slot, OutMessage ServerReady) # new) c"
  using assms by (cases "c = SlotChannel slot") (auto simp: slot_says_def)

lemma worker_loop_says:
  assumes "\<And>slot fk' completed n st outs. slot \<in> set (fk_slots fk) \<Longrightarrow> fk_slots fk' = [] \<Longrightarrow>
      \<exists>new. fst (worker_loop w m (SlotChannel slot) (ww_requests w (SlotChannel slot)) completed n fk' st outs) =
          outs @ new \<and>
        conversation (answered_by w) (works (ww_requests w (SlotChannel slot))) (said (SlotChannel slot) new) \<and>
        (\<forall>c. c \<noteq> SlotChannel slot \<longrightarrow> said c new = [])"
    and "\<forall>s \<in> set (fk_slots fk). SlotChannel s \<noteq> ch"
  shows "\<exists>new. fst (worker_loop w m ch msgs completed n fk st outs) = outs @ new \<and>
    conversation (answered_by w) (works msgs) (said ch new) \<and>
    (\<forall>c. c \<noteq> ch \<longrightarrow> slot_says w (set (fk_slots fk)) new c)"
  using assms
proof (induction msgs arbitrary: completed n fk st outs)
  case Nil
  show ?case
    using worker_loop_not_work [of "[]" w m ch completed n fk st outs]
    by (intro exI [of _ "[]"]) (auto simp: slot_says_def)
next
  case (Cons msg msgs)
  show ?case
  proof (cases "\<exists>p. msg = Inr (Work p)")
    case False
    with worker_loop_not_work [of "msg # msgs" w m ch completed n fk st outs] show ?thesis
      by (intro exI [of _ "[]"]) (auto simp: slot_says_def)
  next
    case True
    then obtain p where msg: "msg = Inr (Work p)" by blast
    obtain outs1 st1 r where item: "worker_item w m ch p completed n fk st outs = (outs1, st1, r)"
      by (metis prod_cases3)
    from worker_item_says [OF item] obtain new where outs1: "outs1 = outs @ new"
      and new: "item_says w ch p new r" by blast
    consider x where "r = Inl x" | fk1 where "r = Inr (None, fk1)" | slot fk1 where "r = Inr (Some slot, fk1)"
      by (metis old.sum.exhaust option.exhaust prod.exhaust)
    then show ?thesis
    proof cases
      case 1
      with new outs1 item msg conversation_more [of "answered_by w" "[p]"] show ?thesis
        by (auto simp: worker_loop_work item_says_def slot_says_def)
    next
      case 2
      note slots = worker_item_slots(1) [OF item [unfolded 2]]
      have "\<exists>new. fst (worker_loop w m ch msgs (completed + 1) (Suc n) fk1 st1 outs1) = outs1 @ new \<and>
          conversation (answered_by w) (works msgs) (said ch new) \<and>
          (\<forall>c. c \<noteq> ch \<longrightarrow> slot_says w (set (fk_slots fk1)) new c)"
        using slots Cons.prems by (intro Cons.IH) auto
      then obtain new' where rest: "fst (worker_loop w m ch msgs (completed + 1) (Suc n) fk1 st1 outs1) = outs1 @ new'"
        "conversation (answered_by w) (works msgs) (said ch new')"
        "\<forall>c. c \<noteq> ch \<longrightarrow> slot_says w (set (fk_slots fk1)) new' c" by blast
      from new 2 rest slots item msg outs1 show ?thesis
        by (intro exI [of _ "new @ new'"])
          (auto simp: worker_loop_work item_says_def intro!: slot_says_append)
    next
      case 3
      note slots = worker_item_slots(3) [OF item [unfolded 3] refl]
      then obtain new' where rest: "fst (worker_loop w m (SlotChannel slot) (ww_requests w (SlotChannel slot))
            (completed + 1) (Suc n) fk1 st1 outs1) = outs1 @ new'"
        "conversation (answered_by w) (works (ww_requests w (SlotChannel slot))) (said (SlotChannel slot) new')"
        "\<forall>c. c \<noteq> SlotChannel slot \<longrightarrow> said c new' = []"
        using Cons.prems(1) [of slot fk1] by blast
      moreover have "SlotChannel slot \<noteq> ch" using slots Cons.prems(2) by blast
      ultimately show ?thesis
        using new 3 item msg outs1 slots
        by (intro exI [of _ "new @ new'"])
          (auto simp: worker_loop_work item_says_def intro!: slot_says_greeting)
    qed
  qed
qed

lemma slot_says_none [simp]: "slot_says w {} new c \<longleftrightarrow> said c new = []"
  by (simp add: slot_says_def)

lemma worker_loop_says_unforked:
  "fk_slots fk = [] \<Longrightarrow> \<exists>new. fst (worker_loop w m ch msgs completed n fk st outs) = outs @ new \<and>
     conversation (answered_by w) (works msgs) (said ch new) \<and> (\<forall>c. c \<noteq> ch \<longrightarrow> said c new = [])"
  using worker_loop_says [of fk w m ch msgs completed n st outs] by simp

lemma worker_loop_says_std:
  "\<exists>new. fst (worker_loop w m StdChannel msgs completed n fk st outs) = outs @ new \<and>
     conversation (answered_by w) (works msgs) (said StdChannel new) \<and>
     (\<forall>c. c \<noteq> StdChannel \<longrightarrow> slot_says w (set (fk_slots fk)) new c)"
  by (rule worker_loop_says) (use worker_loop_says_unforked in auto)

text \<open>A channel on which a worker greeted and then held a conversation, or has said nothing yet.\<close>

definition serves :: "(attr_path \<Rightarrow> event \<Rightarrow> bool) \<Rightarrow> client_message result list \<Rightarrow> server_message list \<Rightarrow> bool" where
  "serves A requests ms \<longleftrightarrow> ms = [] \<or> (\<exists>rest. ms = ServerReady # rest \<and> conversation A (works requests) rest)"

lemma serves_mono: "serves A requests ms \<Longrightarrow> (\<And>p e. A p e \<Longrightarrow> B p e) \<Longrightarrow> serves B requests ms"
  unfolding serves_def using conversation_mono [of A "works requests" _ B] by blast

lemma worker_run_serves:
  assumes "worker_start na set_cloexec fork_fds config = Inr (forker, auto, root)"
  shows "serves (\<lambda>p e. \<exists>st. e = fst (process_attr (nx auto) fs render root (eval_options_of config) p st))
    (ww_requests w ch)
    (said ch (fst (worker_run na nx fs render set_cloexec fork_fds w (Inr (Setup config token dir)) st)))"
proof -
  let ?w = "w\<lparr>ww_answer := process_attr (nx auto) fs render root (eval_options_of config)\<rparr>"
  have A: "answered_by ?w = (\<lambda>p e. \<exists>st. e = fst (process_attr (nx auto) fs render root (eval_options_of config) p st))"
    by (auto simp: answered_by_def fun_eq_iff)
  obtain r outs where w1: "write_outs ?w [] [(StdChannel, OutMessage ServerReady)] = (r, outs)" by force
  show ?thesis
  proof (cases r)
    case (Inl e)
    with assms w1 show ?thesis
      using write_outs_one [OF w1] by (auto simp: worker_run_def Let_def serves_def)
  next
    case (Inr u)
    with w1 have outs: "outs = [(StdChannel, OutMessage ServerReady)]" by (auto dest: write_outs_Ok)
    obtain new where new:
      "fst (worker_loop ?w (w_max_memory_size config) StdChannel (ww_requests w StdChannel) 0 0 forker st outs) = outs @ new"
      "conversation (answered_by ?w) (works (ww_requests w StdChannel)) (said StdChannel new)"
      "\<forall>c. c \<noteq> StdChannel \<longrightarrow> slot_says ?w (set (fk_slots forker)) new c"
      using worker_loop_says_std [of ?w "w_max_memory_size config" "ww_requests w StdChannel" 0 0 forker st outs]
      by blast
    have "fst (worker_run na nx fs render set_cloexec fork_fds w (Inr (Setup config token dir)) st) =
        (StdChannel, OutMessage ServerReady) # new"
      using assms w1 Inr new(1) outs by (simp add: worker_run_def Let_def)
    with new(2,3) A show ?thesis
      by (cases "ch = StdChannel") (auto simp: serves_def slot_says_def)
  qed
qed

section \<open>The worker keeps its client's contract\<close>

text \<open>An event that some worker with this library, started for the configuration, gave for a path.\<close>

definition evaluated ::
  "('v, 'r, 'l) nix_api \<Rightarrow> ('v option \<Rightarrow> 'v nix) \<Rightarrow> 'f gc_fs \<Rightarrow> (report \<Rightarrow> string) \<Rightarrow> (int \<Rightarrow> unit result) \<Rightarrow>
    string option \<Rightarrow> worker_config \<Rightarrow> attr_path \<Rightarrow> event \<Rightarrow> bool" where
  "evaluated na nx fs render set_cloexec fork_fds config p e \<longleftrightarrow>
     (\<exists>forker auto root st. worker_start na set_cloexec fork_fds config = Inr (forker, auto, root) \<and>
        e = fst (process_attr (nx auto) fs render root (eval_options_of config) p st))"

text \<open>What a worker process writes on its standard output once it has been sent some messages.\<close>

definition local_replies ::
  "('v, 'r, 'l) nix_api \<Rightarrow> ('v option \<Rightarrow> 'v nix) \<Rightarrow> 'f gc_fs \<Rightarrow> (report \<Rightarrow> string) \<Rightarrow> (int \<Rightarrow> unit result) \<Rightarrow>
    string option \<Rightarrow> 'f worker_world \<Rightarrow> 'f \<Rightarrow> client_message list \<Rightarrow> server_message result list" where
  "local_replies na nx fs render set_cloexec fork_fds w st sent =
     (case sent of
        [] \<Rightarrow> []
      | first # ms \<Rightarrow>
          map Inr (said StdChannel (fst (worker_run na nx fs render set_cloexec fork_fds
            (w\<lparr>ww_requests := (ww_requests w)(StdChannel := map Inr ms)\<rparr>) (Inr first) st))))"

lemma local_replies_Setup:
  "\<exists>ms. local_replies na nx fs render set_cloexec fork_fds w st (Setup config token dir # sent) = map Inr ms \<and>
     serves (evaluated na nx fs render set_cloexec fork_fds config) (map Inr sent) ms"
proof (cases "worker_start na set_cloexec fork_fds config")
  case (Inl e)
  then show ?thesis by (auto simp: local_replies_def worker_run_def serves_def)
next
  case (Inr x)
  then obtain forker auto root where start: "worker_start na set_cloexec fork_fds config = Inr (forker, auto, root)"
    by (cases x) auto
  let ?w = "w\<lparr>ww_requests := (ww_requests w)(StdChannel := map Inr sent)\<rparr>"
  let ?ms = "said StdChannel (fst (worker_run na nx fs render set_cloexec fork_fds ?w (Inr (Setup config token dir)) st))"
  have "serves (evaluated na nx fs render set_cloexec fork_fds config) (ww_requests ?w StdChannel) ?ms"
    using worker_run_serves [OF start] by (rule serves_mono) (use start in \<open>unfold evaluated_def, blast\<close>)
  then show ?thesis by (auto simp: local_replies_def)
qed

interpretation local_worker: worker_contract config "evaluated na nx fs render set_cloexec fork_fds config"
  "local_replies na nx fs render set_cloexec fork_fds w st"
proof unfold_locales
  fix sent
  assume config: "setup_is config sent"
  let ?A = "evaluated na nx fs render set_cloexec fork_fds config"
  show "\<exists>ms errs. local_replies na nx fs render set_cloexec fork_fds w st sent = map Inr ms @ errs \<and>
      (\<forall>x \<in> set errs. isl x) \<and> (ms = [] \<or> (\<exists>rest. ms = ServerReady # rest \<and> conversation ?A (paths_of sent) rest))"
  proof (cases "\<exists>config token dir ms. sent = Setup config token dir # ms")
    case True
    with config obtain token dir sent' where sent: "sent = Setup config token dir # sent'" by auto
    obtain ms where ms: "local_replies na nx fs render set_cloexec fork_fds w st sent = map Inr ms"
      "serves ?A (map Inr sent') ms"
      using local_replies_Setup [of na nx fs render set_cloexec fork_fds w st config token dir sent']
      unfolding sent by blast
    obtain qs where "paths_of sent = works (map Inr sent') @ qs"
      using works_paths_of [of sent'] sent by auto
    with ms conversation_more [of ?A "works (map Inr sent')"] show ?thesis
      by (intro exI [of _ ms] exI [of _ "[]"]) (auto simp: serves_def)
  next
    case False
    then have "local_replies na nx fs render set_cloexec fork_fds w st sent = []"
      by (auto simp: local_replies_def worker_run_def split: list.split client_message.split)
    then show ?thesis by simp
  qed
qed

section \<open>The claims\<close>

text \<open>
  C35. A worker answers what it is asked, in order: whatever the library, the memory readings,
  the forks and the writes do, each channel it or a forked child of it serves carries first
  the readiness and then, for the paths requested on that channel in order, the event the
  evaluation of that path gave followed by one status, and nothing after a restart.
\<close>

theorem worker_answers_in_order:
  assumes "worker_start na set_cloexec fork_fds config = Inr (forker, auto, root)"
    and "worker_run na nx fs render set_cloexec fork_fds w (Inr (Setup config token dir)) st = (outs, ending)"
  shows "said ch outs = [] \<or> (\<exists>ms. said ch outs = ServerReady # ms \<and>
      conversation (\<lambda>p e. \<exists>st'. e = fst (process_attr (nx auto) fs render root (eval_options_of config) p st'))
        (works (ww_requests w ch)) ms)"
  using worker_run_serves [OF assms(1), of nx fs render w ch token dir st] assms(2)
  by (simp add: serves_def)

subsection \<open>A concrete worker\<close>

definition ex_api :: "(json, string, json) nix_api" where
  "ex_api = \<lparr>na_context = Inr (), na_set_setting = (\<lambda>_ _. Inr ()), na_open_store = Inr (),
     na_store_uri = Inr ''daemon'', na_api_store_dir = Inr ''/nix/store'', na_builder = Inr (),
     na_flake_settings = Inr (), na_with_flake_settings = Inr (), na_build = Inr (), na_fetchers = Inr (),
     na_current_dir = Inr ''/'', na_parse_flags = Inr (), na_set_base_directory = (\<lambda>_. Inr ()),
     na_eval_from_string = (\<lambda>_ _. Inr ex_root), na_eval_from_file = (\<lambda>_. external ''nix''),
     na_make_string = (\<lambda>s. Inr (JString s)), na_make_attrs = (\<lambda>m. Inr (JObject m)),
     na_auto_call = (\<lambda>_. Inr), na_get_attr = nx_get_attr ex_nix, na_parse_flake_ref = (\<lambda>s. Inr (s, [])),
     na_lock_flags = Inr (), na_set_lock_mode = (\<lambda>_. Inr ()), na_add_input_override = (\<lambda>_ _. Inr ()),
     na_lock = (\<lambda>_ _ _. Inr ex_root), na_import_json = (\<lambda>_. Inr ex_root), na_output_attrs = Inr,
     na_export_json = (\<lambda>_. Inr ''{}''), na_allow_store_path = (\<lambda>_. Inr ()),
     na_json_from_str = (\<lambda>_. Inr (JObject [(''nodePaths'', JObject [(''root'', JString ''/nix/store/abc-source/sub'')])]))\<rparr>"

definition ex_worker_config :: worker_config where
  "ex_worker_config = worker_config_of (config_of_wire (wire_config_expr ''{ }''))"

definition ex_world :: "(path \<times> path) list worker_world" where
  "ex_world = \<lparr>ww_answer = (\<lambda>p st. (AttrSet [] p [], st)), ww_maxrss = (\<lambda>n. Inr (if n = 0 then 100 else - 1)),
     ww_waitpid = (\<lambda>_ _. 0), ww_fork = (\<lambda>_. ex_fork_view), ww_write = (\<lambda>_. Inr ()), ww_clone = Inr (),
     ww_detach = Inr (), ww_pid = 7,
     ww_requests = (\<lambda>ch. if ch = StdChannel then [Inr (Work []), Inr (Work [''a'']), Inr (Work [''s''])] else [])\<rparr>"

lemma ex_worker_start:
  "worker_start ex_api (\<lambda>_. Inr ()) None ex_worker_config =
     Inr (\<lparr>fk_slots = [], fk_forked = 0, fk_children = [],
       fk_max_memory_kb = saturating_mul (w_max_memory_size ex_worker_config) 1024\<rparr>, None, ex_root)"
  by (simp add: worker_start_def ex_api_def ex_worker_config_def forker_from_env_def inherited_slots_def
      build_eval_state_def build_auto_args_def eval_root_def worker_config_of_def config_of_wire_def
      wire_config_expr_def default_wire_config_def)

lemma ex_worker_run:
  "said StdChannel (fst (worker_run ex_api (\<lambda>_. ex_nix) ex_fs (\<lambda>_. []) (\<lambda>_. Inr ()) None ex_world
       (Inr (Setup ex_worker_config None None)) [])) =
     [ServerReady, ServerEvent (AttrSet [] [] [''a'', ''s'']), ServerStatus StatusReady,
      ServerEvent (fst (process_attr ex_nix ex_fs (\<lambda>_. []) ex_root (eval_options_of ex_worker_config) [''a''] [])),
      ServerStatus StatusRestart]"
  by code_simp

theorem worker_answers_in_order_witness:
  "\<exists>ms. said StdChannel (fst (worker_run ex_api (\<lambda>_. ex_nix) ex_fs (\<lambda>_. []) (\<lambda>_. Inr ()) None ex_world
        (Inr (Setup ex_worker_config None None)) [])) = ServerReady # ms \<and>
     conversation (\<lambda>p e. \<exists>st'. e = fst (process_attr ex_nix ex_fs (\<lambda>_. []) ex_root (eval_options_of ex_worker_config) p st'))
       (works (ww_requests ex_world StdChannel)) ms"
proof -
  obtain outs ending where run: "worker_run ex_api (\<lambda>_. ex_nix) ex_fs (\<lambda>_. []) (\<lambda>_. Inr ()) None ex_world
      (Inr (Setup ex_worker_config None None)) [] = (outs, ending)" by force
  from worker_answers_in_order [OF ex_worker_start run, of StdChannel] ex_worker_run run
  show ?thesis by auto
qed

text \<open>
  A reference with an explicit path scheme is recognised as local only when it carries a
  fragment: \<open>path:/dir#attr\<close> is local, while \<open>path:/dir\<close> is not, because the whole reference,
  scheme included, is tested when there is no fragment; such a flake is locked without the
  check of its lock file that local flakes get.
\<close>

theorem path_reference_needs_fragment:
  assumes "CHR ''#'' \<notin> set p"
  shows "\<not> is_local_flake_reference (''path:'' @ p) \<and>
    flake_lock_mode (is_local_flake_reference (''path:'' @ p)) = LockVirtual \<and>
    is_local_flake_reference (''path:'' @ p @ ''#'' @ attr) =
      (p = [] \<or> p = ''.'' \<or> p = ''..'' \<or> starts_with p ''./'' \<or> starts_with p ''../'' \<or> is_absolute p)"
  using assms
  by (simp add: is_local_flake_reference_def split_once_None_iff [THEN iffD2] flake_lock_mode_def
      starts_with_def is_absolute_def strip_prefix_append [of "''path:''", simplified])

theorem path_reference_needs_fragment_witness:
  "\<not> is_local_flake_reference (''path:'' @ ''/src'') \<and>
    flake_lock_mode (is_local_flake_reference (''path:'' @ ''/src'')) = LockVirtual \<and>
    is_local_flake_reference (''path:'' @ ''/src'' @ ''#'' @ ''jobs'') =
      (''/src'' = [] \<or> ''/src'' = ''.'' \<or> ''/src'' = ''..'' \<or> starts_with ''/src'' ''./'' \<or>
       starts_with ''/src'' ''../'' \<or> is_absolute ''/src'')"
  by (rule path_reference_needs_fragment) simp

lemma split_char_hd_prefix: "\<exists>t. s = hd (split_char c s) @ t \<and> (t = [] \<or> hd t = c)"
proof (induction s)
  case (Cons x xs)
  then show ?case by (cases "split_char c xs") (auto split: list.splits)
qed simp

lemma hd_split_char_no_sep: "c \<notin> set (hd (split_char c s))"
  using split_char_parts [of "hd (split_char c s)" c s] by (simp add: hd_in_set)

lemma imported_root_Ok:
  assumes "imported_root dir v = Inr r"
  shows "\<exists>name t. r = dir @ ''/'' @ name \<and> name \<noteq> [] \<and> CHR ''/'' \<notin> set name \<and>
    v = JString (r @ t) \<and> (t = [] \<or> hd t = CHR ''/'')"
proof -
  from assms obtain p relative where v: "as_str v = Some p"
    and p: "p = dir @ ''/'' @ relative" and name: "hd (split_char CHR ''/'' relative) \<noteq> []"
    and r: "r = dir @ ''/'' @ hd (split_char CHR ''/'' relative)"
    by (auto simp: imported_root_def Let_def strip_prefix_Some_iff bind_eq_Some_conv
        split: option.splits if_splits)
  obtain t where "relative = hd (split_char CHR ''/'' relative) @ t" "t = [] \<or> hd t = CHR ''/''"
    using split_char_hd_prefix by blast
  with v p name r hd_split_char_no_sep [of "CHR ''/''" relative] show ?thesis
    by (intro exI [of _ "hd (split_char CHR ''/'' relative)"] exI [of _ t]) (cases v, auto)
qed

lemma collect_results_each: "collect_results f xs = Inr ys \<Longrightarrow> x \<in> set xs \<Longrightarrow> \<exists>y \<in> set ys. f x = Inr y"
  by (induction xs arbitrary: ys) (auto simp: and_then_Ok_iff)

lemma collect_results_origin: "collect_results f xs = Inr ys \<Longrightarrow> y \<in> set ys \<Longrightarrow> \<exists>x \<in> set xs. f x = Inr y"
  by (induction xs arbitrary: ys) (auto simp: and_then_Ok_iff)

text \<open>
  Importing a locked flake whitelists store paths only: every path the worker allows is a
  direct child of its store directory, allowed once, and every node of the imported graph lies
  in an allowed path; a node outside the store makes the import fail.
\<close>

theorem imported_flake_roots_in_store:
  assumes "allow_imported_flake_paths na text = Inr roots"
    and "na_json_from_str na text = Inr graph" and "json_get graph ''nodePaths'' = Some (JObject nodes)"
    and "na_api_store_dir na = Inr dir"
  shows "distinct roots \<and>
    (\<forall>r \<in> set roots. (\<exists>name. r = dir @ ''/'' @ name \<and> name \<noteq> [] \<and> CHR ''/'' \<notin> set name) \<and>
       na_allow_store_path na r = Inr ()) \<and>
    (\<forall>(key, v) \<in> set nodes. \<exists>r \<in> set roots. \<exists>t. v = JString (r @ t) \<and> (t = [] \<or> hd t = CHR ''/''))"
proof -
  from assms obtain found where found: "collect_results (imported_root dir) (map snd nodes) = Inr found"
    and roots: "roots = sort (remdups found)"
    and allowed: "\<exists>us. collect_results (na_allow_store_path na) roots = Inr us"
    by (auto simp: allow_imported_flake_paths_def imported_roots_def and_then_Ok_iff split: option.splits)
  have "\<exists>name. r = dir @ ''/'' @ name \<and> name \<noteq> [] \<and> CHR ''/'' \<notin> set name" if "r \<in> set roots" for r
    using collect_results_origin [OF found] that roots imported_root_Ok by fastforce
  moreover have "na_allow_store_path na r = Inr ()" if "r \<in> set roots" for r
    using allowed collect_results_each that by fastforce
  moreover have "\<exists>r \<in> set roots. \<exists>t. v = JString (r @ t) \<and> (t = [] \<or> hd t = CHR ''/'')"
    if "(key, v) \<in> set nodes" for key v
  proof -
    from that have "v \<in> set (map snd nodes)" by force
    from collect_results_each [OF found this] obtain r where "r \<in> set found" "imported_root dir v = Inr r"
      by blast
    with imported_root_Ok [of dir v r] roots show ?thesis by auto
  qed
  ultimately show ?thesis using roots by auto
qed

theorem imported_flake_roots_in_store_witness:
  "distinct [''/nix/store/abc-source''] \<and>
    list_all (\<lambda>r. (\<exists>name. r = ''/nix/store'' @ ''/'' @ name \<and> name \<noteq> [] \<and> CHR ''/'' \<notin> set name) \<and>
       na_allow_store_path ex_api r = Inr ()) [''/nix/store/abc-source''] \<and>
    list_all (\<lambda>(key, v). list_ex (\<lambda>r. \<exists>t. v = JString (r @ t) \<and> (t = [] \<or> hd t = CHR ''/'')) [''/nix/store/abc-source''])
      [(''root'', JString ''/nix/store/abc-source/sub'')]"
proof -
  have "allow_imported_flake_paths ex_api ''x'' = Inr [''/nix/store/abc-source'']" by code_simp
  moreover have "json_get (JObject [(''nodePaths'', JObject [(''root'', JString ''/nix/store/abc-source/sub'')])]) ''nodePaths'' =
      Some (JObject [(''root'', JString ''/nix/store/abc-source/sub'')])" by code_simp
  ultimately show ?thesis
    using imported_flake_roots_in_store [of ex_api "''x''" "[''/nix/store/abc-source'']"
        "JObject [(''nodePaths'', JObject [(''root'', JString ''/nix/store/abc-source/sub'')])]"
        "[(''root'', JString ''/nix/store/abc-source/sub'')]" "''/nix/store''"]
    by (simp add: ex_api_def)
qed

end
