(* ===== verification/Remote_Worker.thy ===== *)
theory Remote_Worker
  imports Worker
begin

text \<open>
  Remote workers (\<open>crates/evix/src/remote_worker.rs\<close>). On the serving side: the accept loop with
  its connection limit, the checks of the setup (token, store directory, Nix options), and
  the loop that relays each path to a local worker process while it watches the connection.
  On the coordinator's side: connecting with its handshake, one request with its two replies,
  stopping and aborting. Sockets and timers are parameters: what a connection delivers, which
  of its writes fail and which reads are late.
\<close>

unbundle bit_operations_syntax

section \<open>Checks of the setup\<close>

definition MAX_REMOTE_CONNECTIONS :: nat where
  "MAX_REMOTE_CONNECTIONS = 64"

definition REMOTE_SETUP_TIMEOUT :: nat where
  "REMOTE_SETUP_TIMEOUT = 30"

definition ALLOWED_REMOTE_NIX_OPTIONS :: "string list" where
  "ALLOWED_REMOTE_NIX_OPTIONS = [''accept-flake-config'', ''allow-import-from-derivation'',
     ''allowed-uris'', ''experimental-features'', ''extra-experimental-features'', ''restrict-eval'']"

text \<open>The comparison runs over both tokens to the end: a byte past the end of one counts as zero.\<close>

definition token_byte :: "string \<Rightarrow> nat \<Rightarrow> usize" where
  "token_byte s i = (if i < length s then of_char (s ! i) else 0)"

definition token_matches :: "string option \<Rightarrow> string option \<Rightarrow> bool" where
  "token_matches actual expected =
     (case expected of
        None \<Rightarrow> actual = None
      | Some e \<Rightarrow>
          (case actual of
             None \<Rightarrow> False
           | Some a \<Rightarrow>
               foldl (\<lambda>diff i. diff OR (token_byte a i XOR token_byte e i))
                 (of_nat (length a) XOR of_nat (length e)) [0..<max (length a) (length e)] = 0))"

fun validate_remote_options :: "(string \<times> string) list \<Rightarrow> unit result" where
  "validate_remote_options [] = Inr ()"
| "validate_remote_options ((key, v) # options) =
     (if key \<notin> set ALLOWED_REMOTE_NIX_OPTIONS then
        bail_fmt ''remote worker rejected unsupported nix option {key:?}'' [key]
      else validate_remote_options options)"

definition validate_remote_config :: "worker_config \<Rightarrow> unit result" where
  "validate_remote_config config = validate_remote_options (w_nix_options config)"

definition validate_store_dir_against :: "string \<Rightarrow> string \<Rightarrow> unit result" where
  "validate_store_dir_against expected actual =
     (if actual \<noteq> expected then
        bail (''remote worker store dir mismatch: master uses '' @ expected @ '', remote uses '' @ actual)
      else Inr ())"

definition validate_store_dir :: "string result \<Rightarrow> string option \<Rightarrow> unit result" where
  "validate_store_dir local_store_dir expected =
     (case expected of
        None \<Rightarrow> Inr ()
      | Some e \<Rightarrow> and_then local_store_dir (validate_store_dir_against e))"

section \<open>Serving a connection\<close>

text \<open>
  What a connection meets: its token, the local store directory, the messages the client
  sends, whether the setup is late, which writes fail, the worker process of each spawn, and
  for each request whether the client spoke before the worker answered.
\<close>

record connection =
  cn_token :: "string option"
  cn_store_dir :: "string result"
  cn_messages :: "client_message result list"
  cn_setup_late :: bool
  cn_write :: "nat \<Rightarrow> unit result"
  cn_spawn :: "worker_config \<Rightarrow> nat \<Rightarrow> worker_process result"
  cn_interrupted :: "nat \<Rightarrow> bool"

fun send_server ::
  "connection \<Rightarrow> server_message list \<Rightarrow> server_message list \<Rightarrow> unit result \<times> server_message list" where
  "send_server cn outs [] = (Inr (), outs)"
| "send_server cn outs (m # ms) =
     (case cn_write cn (length outs) of
        Inl e \<Rightarrow> (Inl e, outs)
      | Inr _ \<Rightarrow> send_server cn (outs @ [m]) ms)"

definition handle_inflight_client_message :: "client_message result \<Rightarrow> unit result" where
  "handle_inflight_client_message m =
     (case m of
        Inr Shutdown \<Rightarrow> Inr ()
      | Inr (Work _) \<Rightarrow> bail ''remote worker received new work while an attribute was in flight''
      | Inr (Setup _ _ _) \<Rightarrow> bail ''remote worker setup sent twice''
      | Inl e \<Rightarrow> with_context ''reading remote worker request during work'' (Inl e))"

text \<open>
  The loop: the messages left, the number of requests and of spawns so far, the worker
  process and the messages sent. The result is the messages sent, the worker process as it
  was left, and how the connection ended, \<open>None\<close> while it waits.
\<close>

fun remote_loop ::
  "(report \<Rightarrow> string) \<Rightarrow> connection \<Rightarrow> worker_config \<Rightarrow> client_message result list \<Rightarrow> nat \<Rightarrow> nat \<Rightarrow> worker_process
    \<Rightarrow> server_message list \<Rightarrow> server_message list \<times> worker_process \<times> unit result option" where
  "remote_loop render cn config [] n k worker outs = (outs, worker, None)"
| "remote_loop render cn config (Inl e # msgs) n k worker outs =
     (outs, wp_abort worker, Some (with_context ''reading remote worker request'' (Inl e)))"
| "remote_loop render cn config (Inr Shutdown # msgs) n k worker outs = (outs, wp_stop worker, Some (Inr ()))"
| "remote_loop render cn config (Inr (Setup c t d) # msgs) n k worker outs =
     (outs, worker, Some (bail ''remote worker setup sent twice''))"
| "remote_loop render cn config (Inr (Work p) # msgs) n k worker outs =
     (if cn_interrupted cn n then
        (case msgs of
           [] \<Rightarrow> (outs, worker, None)
         | m # _ \<Rightarrow> (outs, wp_abort worker, Some (handle_inflight_client_message m)))
      else
        (case wp_work render p worker of
           (Inl err, worker1) \<Rightarrow>
             (case send_server cn outs [ServerError (render err)] of
                (Inl e, outs1) \<Rightarrow> (outs1, worker1, Some (Inl e))
              | (Inr _, outs1) \<Rightarrow> (outs1, worker1, Some (Inl err)))
         | (Inr r, worker1) \<Rightarrow>
             (case send_server cn outs [ServerEvent (wr_event r), ServerStatus (wr_status r)] of
                (Inl e, outs1) \<Rightarrow> (outs1, worker1, Some (Inl e))
              | (Inr _, outs1) \<Rightarrow>
                  if wr_status r = StatusRestart then
                    (case cn_spawn cn config (Suc k) of
                       Inl e \<Rightarrow> (outs1, snd (wp_wait worker1), Some (Inl e))
                     | Inr worker2 \<Rightarrow> remote_loop render cn config msgs (Suc n) (Suc k) worker2 outs1)
                  else remote_loop render cn config msgs (Suc n) k worker1 outs1)))"

definition read_setup ::
  "connection \<Rightarrow> (server_message list \<times> unit result) + (worker_config \<times> client_message result list)" where
  "read_setup cn =
     (if cn_setup_late cn then
        Inl ([], with_context ''timed out reading remote worker request'' (external ''deadline has elapsed''))
      else
        (case cn_messages cn of
           [] \<Rightarrow> Inl ([], external ''end of stream'')
         | Inl e # _ \<Rightarrow> Inl ([], Inl e)
         | Inr (Setup config token expected_store_dir) # msgs \<Rightarrow>
             if \<not> token_matches token (cn_token cn) then
               (case send_server cn [] [ServerError ''remote worker authentication failed''] of
                  (Inl e, outs) \<Rightarrow> Inl (outs, Inl e)
                | (Inr _, outs) \<Rightarrow> Inl (outs, bail ''remote worker authentication failed''))
             else
               (case and_then (validate_store_dir (cn_store_dir cn) expected_store_dir)
                       (\<lambda>_. validate_remote_config config) of
                  Inl e \<Rightarrow> Inl ([], Inl e)
                | Inr _ \<Rightarrow> Inr (config, msgs))
         | Inr other # _ \<Rightarrow>
             Inl ([], bail_fmt ''expected setup as first remote worker message, got {other:?}'' [])))"

text \<open>The last component is the worker process as it was left, if one was spawned.\<close>

definition serve_connection ::
  "(report \<Rightarrow> string) \<Rightarrow> connection \<Rightarrow> server_message list \<times> unit result option \<times> worker_process option" where
  "serve_connection render cn =
     (case read_setup cn of
        Inl (outs, r) \<Rightarrow> (outs, Some r, None)
      | Inr (config, msgs) \<Rightarrow>
          (case cn_spawn cn config 0 of
             Inl e \<Rightarrow> ([], Some (Inl e), None)
           | Inr worker \<Rightarrow>
               (case send_server cn [] [ServerReady] of
                  (Inl e, outs) \<Rightarrow> (outs, Some (Inl e), Some worker)
                | (Inr _, outs) \<Rightarrow>
                    (case remote_loop render cn config msgs 0 0 worker outs of
                       (outs1, worker1, r) \<Rightarrow> (outs1, r, Some worker1)))))"

text \<open>
  The accept loop: a connection takes one of the permits, and is turned away when none is
  left; the permit comes back when the connection's task ends.
\<close>

definition serve_token :: "string option \<Rightarrow> unit result" where
  "serve_token token = (if token = Some [] then bail ''remote worker token must not be empty'' else Inr ())"

definition remote_accept :: "nat \<Rightarrow> bool \<times> nat" where
  "remote_accept live = (if live < MAX_REMOTE_CONNECTIONS then (True, Suc live) else (False, live))"

section \<open>The coordinator's side\<close>

text \<open>
  \<open>rw_replies sent\<close> are the replies once the messages \<open>sent\<close> have been written, as for a worker
  process; \<open>rw_late n\<close> says that reply \<open>n\<close> comes after its time limit.
\<close>

record remote_worker =
  rw_label :: string
  rw_open :: bool
  rw_replies :: "client_message list \<Rightarrow> server_message result list"
  rw_read :: nat
  rw_late :: "nat \<Rightarrow> bool"
  rw_write_error :: "report option"
  rw_sent :: "client_message list"

definition rw_write :: "client_message \<Rightarrow> remote_worker \<Rightarrow> unit result \<times> remote_worker" where
  "rw_write m w =
     (case rw_write_error w of
        Some e \<Rightarrow> (Inl e, w)
      | None \<Rightarrow> (Inr (), w\<lparr>rw_sent := rw_sent w @ [m]\<rparr>))"

definition read_server_timeout :: "remote_worker \<Rightarrow> server_message result \<times> remote_worker" where
  "read_server_timeout w =
     (if rw_late w (rw_read w) then
        (with_context ''timed out reading remote worker response'' (external ''deadline has elapsed''), w)
      else
        (case drop (rw_read w) (rw_replies w (rw_sent w)) of
           [] \<Rightarrow> (external ''end of stream'', w)
         | m # _ \<Rightarrow> (m, w\<lparr>rw_read := Suc (rw_read w)\<rparr>)))"

definition connect_remote ::
  "string result \<Rightarrow> remote_worker result \<Rightarrow> unit result \<Rightarrow> unit result \<Rightarrow> string option \<Rightarrow> worker_config \<Rightarrow>
    string \<Rightarrow> string \<Rightarrow> remote_worker result" where
  "connect_remote local_store_dir tcp nodelay keepalive token config label endpoint =
     and_then local_store_dir (\<lambda>expected_store_dir.
     and_then (with_context (''connecting remote worker '' @ label @ '' at '' @ endpoint) tcp) (\<lambda>stream.
     and_then (with_context (''setting TCP_NODELAY on connection to '' @ label) nodelay) (\<lambda>_.
     and_then (with_context (''enabling TCP keepalive on connection to '' @ label) keepalive) (\<lambda>_.
       let w = stream\<lparr>rw_label := label, rw_open := True\<rparr> in
       case rw_write (Setup config token (Some expected_store_dir)) w of
         (Inl e, _) \<Rightarrow> with_context (''sending setup to remote worker '' @ label) (Inl e)
       | (Inr _, w1) \<Rightarrow>
           (case read_server_timeout w1 of
              (Inl e, _) \<Rightarrow> with_context (''reading handshake from remote worker '' @ label) (Inl e)
            | (Inr ready, w2) \<Rightarrow> and_then (expect_ready ready label) (\<lambda>_. Inr w2))))))"

definition event_of_reply :: "string \<Rightarrow> server_message \<Rightarrow> event result" where
  "event_of_reply label m =
     (case m of
        ServerEvent e \<Rightarrow> Inr e
      | ServerError error \<Rightarrow> bail (''remote worker '' @ label @ '': '' @ error)
      | _ \<Rightarrow> bail_fmt ''remote worker {label} sent unexpected event response: {other:?}'' [label])"

definition status_of_reply :: "string \<Rightarrow> server_message \<Rightarrow> unit result" where
  "status_of_reply label m =
     (case m of
        ServerStatus StatusReady \<Rightarrow> Inr ()
      | ServerStatus StatusRestart \<Rightarrow> Inr ()
      | ServerError error \<Rightarrow> bail (''remote worker '' @ label @ '': '' @ error)
      | _ \<Rightarrow> bail_fmt ''remote worker {label} sent unexpected status response: {other:?}'' [label])"

definition rw_work :: "attr_path \<Rightarrow> remote_worker \<Rightarrow> event result \<times> remote_worker" where
  "rw_work p w =
     (if \<not> rw_open w then (bail (''remote worker '' @ rw_label w @ '' is closed''), w)
      else
        (case rw_write (Work p) w of
           (Inl e, w1) \<Rightarrow> (with_context (''sending work to '' @ rw_label w) (Inl e), w1)
         | (Inr _, w1) \<Rightarrow>
             (case read_server_timeout w1 of
                (Inl e, w2) \<Rightarrow> (with_context (''reading event from '' @ rw_label w) (Inl e), w2)
              | (Inr m, w2) \<Rightarrow>
             (case event_of_reply (rw_label w) m of
                Inl e \<Rightarrow> (Inl e, w2)
              | Inr event \<Rightarrow>
             (case read_server_timeout w2 of
                (Inl e, w3) \<Rightarrow> (with_context (''reading status from '' @ rw_label w) (Inl e), w3)
              | (Inr m', w3) \<Rightarrow> (and_then (status_of_reply (rw_label w) m') (\<lambda>_. Inr event), w3))))))"

definition rw_stop :: "remote_worker \<Rightarrow> remote_worker" where
  "rw_stop w = (if rw_open w then snd (rw_write Shutdown w) else w)"

definition rw_abort :: "remote_worker \<Rightarrow> remote_worker" where
  "rw_abort w = w\<lparr>rw_open := False\<rparr>"

section \<open>Tokens\<close>

lemma foldl_or_eq_0: "foldl (\<lambda>d i. d OR f i) a is = (0 :: usize) \<longleftrightarrow> a = 0 \<and> (\<forall>i \<in> set is. f i = 0)"
  by (induction "is" arbitrary: a) (auto simp: or_eq_0_iff)

lemma xor_word_eq_0: "a XOR b = (0 :: usize) \<longleftrightarrow> a = b"
  by (simp add: bit_eq_iff bit_simps)

lemma usize_of_nat_eq:
  assumes "m < 2 ^ 64" and "n < 2 ^ 64"
  shows "(of_nat m :: usize) = of_nat n \<longleftrightarrow> m = n"
proof
  assume "(of_nat m :: usize) = of_nat n"
  then have "m mod 2 ^ 64 = n mod 2 ^ 64"
    using unat_of_nat [of m, where 'a = 64] unat_of_nat [of n, where 'a = 64] by simp
  with assms show "m = n" by simp
qed simp

lemma of_char_usize_eq: "(of_char c :: usize) = of_char d \<longleftrightarrow> c = d"
proof
  assume eq: "(of_char c :: usize) = of_char d"
  have bound: "(of_char x :: nat) < 2 ^ 64" for x :: char
    by (rule order_less_trans [OF nat_of_char_less_256]) simp
  have "(of_nat (of_char c) :: usize) = of_nat (of_char d)"
    using eq by (simp only: of_nat_of_char)
  with bound have "(of_char c :: nat) = of_char d" by (simp add: usize_of_nat_eq)
  then show "c = d" by simp
qed simp

lemma token_bytes_eq:
  assumes "length a = length e"
  shows "(\<forall>i < length e. token_byte a i = token_byte e i) \<longleftrightarrow> a = e"
  using assms by (auto simp: token_byte_def of_char_usize_eq list_eq_iff_nth_eq)

lemma token_matches_eq:
  assumes "\<forall>a. actual = Some a \<longrightarrow> length a < 2 ^ 64" and "\<forall>e. expected = Some e \<longrightarrow> length e < 2 ^ 64"
  shows "token_matches actual expected \<longleftrightarrow> actual = expected"
proof (cases actual; cases expected)
  fix a e
  assume "actual = Some a" "expected = Some e"
  with assms show ?thesis
    using token_bytes_eq [of a e]
    by (auto simp: token_matches_def foldl_or_eq_0 xor_word_eq_0 usize_of_nat_eq)
qed (simp_all add: token_matches_def)

lemma validate_remote_options_Ok:
  "validate_remote_options options = Inr () \<longleftrightarrow> fst ` set options \<subseteq> set ALLOWED_REMOTE_NIX_OPTIONS"
  by (induction options rule: validate_remote_options.induct) (auto simp: bail_fmt_def)

section \<open>The dialogue with a remote worker\<close>

text \<open>
  The protocol a coordinator sees: the paths are answered in order, each by its event and then
  a status, whether or not the worker process behind was replaced; an error ends it.
\<close>

fun dialogue :: "(attr_path \<Rightarrow> event \<Rightarrow> bool) \<Rightarrow> attr_path list \<Rightarrow> server_message list \<Rightarrow> bool" where
  "dialogue A ps [] = True"
| "dialogue A ps [ServerError _] = True"
| "dialogue A (p # ps) [ServerEvent e] = A p e"
| "dialogue A (p # ps) (ServerEvent e # ServerStatus _ # ms) = (A p e \<and> dialogue A ps ms)"
| "dialogue A _ _ = False"

lemma dialogue_event:
  "dialogue A ps ms \<Longrightarrow> 2 * i < length ms \<Longrightarrow> ms ! (2 * i) = ServerEvent e \<Longrightarrow> i < length ps \<and> A (ps ! i) e"
proof (induction A ps ms arbitrary: i rule: dialogue.induct)
  case (4 A p ps e s ms)
  then show ?case by (cases i) auto
qed (auto simp: less_Suc_eq)

lemma send_server_sent: "\<exists>n. snd (send_server cn outs ms) = outs @ take n ms \<and>
    (fst (send_server cn outs ms) = Inr () \<longrightarrow> snd (send_server cn outs ms) = outs @ ms)"
proof (induction ms arbitrary: outs)
  case (Cons m ms)
  show ?case
  proof (cases "cn_write cn (length outs)")
    case (Inl e)
    then show ?thesis by (auto intro: exI [of _ 0])
  next
    case (Inr u)
    from Cons.IH [of "outs @ [m]"] obtain n where
      "snd (send_server cn (outs @ [m]) ms) = (outs @ [m]) @ take n ms"
      "fst (send_server cn (outs @ [m]) ms) = Inr () \<longrightarrow> snd (send_server cn (outs @ [m]) ms) = (outs @ [m]) @ ms"
      by blast
    with Inr show ?thesis by (intro exI [of _ "Suc n"]) simp
  qed
qed simp

text \<open>A connection whose worker processes all keep the contract of a worker.\<close>

definition workers_answer :: "(worker_config \<Rightarrow> attr_path \<Rightarrow> event \<Rightarrow> bool) \<Rightarrow> connection \<Rightarrow> bool" where
  "workers_answer A cn \<longleftrightarrow> (\<forall>config k w. cn_spawn cn config k = Inr w \<longrightarrow>
     (\<exists>replies. worker_contract config (A config) replies \<and> worker_contract.in_step config replies w))"

lemma dialogue_pair: "A p e \<Longrightarrow> dialogue A (p # ps) (take n [ServerEvent e, ServerStatus s])"
  by (cases n; cases "n - 1") (auto simp: take_Cons')

text \<open>One request that was not interrupted: what is sent for it, and whether the loop goes on.\<close>

lemma remote_loop_work:
  assumes "\<not> cn_interrupted cn n"
  obtains (failed) err worker1 r ms where "wp_work render p worker = (Inl err, worker1)"
      "remote_loop render cn config (Inr (Work p) # msgs) n k worker outs = (outs @ ms, worker1, Some r)"
      "ms = [] \<or> ms = [ServerError (render err)]"
    | (cut) x worker1 worker2 r j where "wp_work render p worker = (Inr x, worker1)"
      "remote_loop render cn config (Inr (Work p) # msgs) n k worker outs =
         (outs @ take j [ServerEvent (wr_event x), ServerStatus (wr_status x)], worker2, Some r)"
    | (replaced) x worker1 worker2 where "wp_work render p worker = (Inr x, worker1)"
      "cn_spawn cn config (Suc k) = Inr worker2"
      "remote_loop render cn config (Inr (Work p) # msgs) n k worker outs =
         remote_loop render cn config msgs (Suc n) (Suc k) worker2
           (outs @ [ServerEvent (wr_event x), ServerStatus (wr_status x)])"
    | (kept) x worker1 where "wp_work render p worker = (Inr x, worker1)"
      "remote_loop render cn config (Inr (Work p) # msgs) n k worker outs =
         remote_loop render cn config msgs (Suc n) k worker1
           (outs @ [ServerEvent (wr_event x), ServerStatus (wr_status x)])"
proof (cases "wp_work render p worker")
  case (Pair y worker1)
  show ?thesis
  proof (cases y)
    case (Inl err)
    show ?thesis
    proof (cases "cn_write cn (length outs)")
      case (Inl e)
      with Pair \<open>y = Inl err\<close> assms show ?thesis by (intro failed [of err worker1 "[]"]) auto
    next
      case (Inr u)
      with Pair \<open>y = Inl err\<close> assms show ?thesis
        by (intro failed [of err worker1 "[ServerError (render err)]"]) auto
    qed
  next
    case (Inr x)
    let ?ms = "[ServerEvent (wr_event x), ServerStatus (wr_status x)]"
    obtain u outs1 where sent: "send_server cn outs ?ms = (u, outs1)" by force
    with send_server_sent [of cn outs ?ms] obtain j where j: "outs1 = outs @ take j ?ms"
      "u = Inr () \<longrightarrow> outs1 = outs @ ?ms" by (metis fst_conv snd_conv)
    show ?thesis
    proof (cases u)
      case (Inl e)
      with Pair Inr sent assms j(1) cut show ?thesis by simp
    next
      case u: (Inr v)
      with j have outs1: "outs1 = outs @ ?ms" by simp
      show ?thesis
      proof (cases "wr_status x = StatusRestart")
        case True
        show ?thesis
        proof (cases "cn_spawn cn config (Suc k)")
          case (Inl e)
          with Pair Inr sent assms outs1 u True cut [of x worker1 2] show ?thesis by simp
        next
          case spawned: (Inr worker2)
          with Pair Inr sent assms outs1 u True replaced [of x worker1 worker2] show ?thesis by simp
        qed
      next
        case False
        with Pair Inr sent assms outs1 u kept [of x worker1] show ?thesis by simp
      qed
    qed
  qed
qed

lemma remote_loop_dialogue:
  assumes "workers_answer A cn" and "worker_contract config (A config) replies" and "worker_contract.in_step config replies worker"
  shows "\<exists>ms. fst (remote_loop render cn config msgs n k worker outs) = outs @ ms \<and> dialogue (A config) (works msgs) ms"
  using assms(2,3)
proof (induction msgs arbitrary: replies n k worker outs)
  case (Cons m msgs)
  note contract = Cons.prems
  show ?case
  proof (cases "\<exists>p. m = Inr (Work p)")
    case False
    then show ?thesis by (cases m; cases "projr m") auto
  next
    case True
    then obtain p where m: "m = Inr (Work p)" by blast
    show ?thesis
    proof (cases "cn_interrupted cn n")
      case True
      with m show ?thesis by (cases msgs) auto
    next
      case False
      have answers: "A config p (wr_event x)" "worker_contract.in_step config replies worker1"
        if "wp_work render p worker = (Inr x, worker1)" for x worker1
        using worker_contract.work_answers [OF contract that] by simp_all
      from False show ?thesis
      proof (cases rule: remote_loop_work [of cn n render p worker config msgs k outs])
        case (failed err worker1 r ms)
        then show ?thesis by (auto simp: m simp del: remote_loop.simps)
      next
        case (cut x worker1 worker2 r j)
        with answers(1) dialogue_pair [of "A config" p "wr_event x" "works msgs" j] show ?thesis
          by (auto simp: m simp del: remote_loop.simps)
      next
        case (replaced x worker1 worker2)
        from replaced(2) assms(1) obtain replies' where
          "worker_contract config (A config) replies'" "worker_contract.in_step config replies' worker2"
          unfolding workers_answer_def by blast
        from Cons.IH [OF this, of "Suc n" "Suc k" "outs @ [ServerEvent (wr_event x), ServerStatus (wr_status x)]"]
          replaced(3) answers(1) [OF replaced(1)] show ?thesis by (auto simp: m simp del: remote_loop.simps)
      next
        case (kept x worker1)
        from Cons.IH [OF contract(1) answers(2) [OF kept(1)], of "Suc n" k
            "outs @ [ServerEvent (wr_event x), ServerStatus (wr_status x)]"]
          kept(2) answers(1) [OF kept(1)] show ?thesis by (auto simp: m simp del: remote_loop.simps)
      qed
    qed
  qed
qed simp

section \<open>The whole remote service\<close>

definition served_replies ::
  "(report \<Rightarrow> string) \<Rightarrow> connection \<Rightarrow> client_message list \<Rightarrow> server_message result list" where
  "served_replies render cn sent = map Inr (fst (serve_connection render (cn\<lparr>cn_messages := map Inr sent\<rparr>)))"

lemma read_setup_Inl:
  assumes "read_setup cn = Inl (outs, r)"
  shows "outs = [] \<or> outs = [ServerError ''remote worker authentication failed'']"
  using assms
  by (cases "cn_write cn 0")
    (auto simp: read_setup_def split: if_splits list.splits sum.splits client_message.splits)

lemma read_setup_Inr:
  assumes "read_setup cn = Inr (config, msgs)"
  shows "\<exists>token dir. cn_messages cn = Inr (Setup config token dir) # msgs \<and> \<not> cn_setup_late cn \<and>
    token_matches token (cn_token cn) \<and> validate_store_dir (cn_store_dir cn) dir = Inr () \<and>
    validate_remote_config config = Inr ()"
proof (cases "cn_messages cn")
  case (Cons m rest)
  with assms show ?thesis
    by (cases "cn_write cn 0")
      (auto simp: read_setup_def and_then_Ok_iff split: if_splits sum.splits client_message.splits)
qed (use assms in \<open>simp add: read_setup_def split: if_splits\<close>)

lemma serve_connection_dialogue:
  assumes "workers_answer A cn"
  shows "fst (serve_connection render cn) = [] \<or> (\<exists>e. fst (serve_connection render cn) = [ServerError e]) \<or>
    (\<exists>config token dir msgs ms. cn_messages cn = Inr (Setup config token dir) # msgs \<and>
       fst (serve_connection render cn) = ServerReady # ms \<and> dialogue (A config) (works msgs) ms)"
proof (cases "read_setup cn")
  case (Inl x)
  with read_setup_Inl [of cn "fst x" "snd x"] show ?thesis by (auto simp: serve_connection_def split: prod.splits)
next
  case (Inr x)
  then obtain config msgs where setup': "read_setup cn = Inr (config, msgs)" by (cases x) auto
  show ?thesis
  proof (cases "\<exists>worker. cn_spawn cn config 0 = Inr worker \<and> \<not> isl (cn_write cn 0)")
    case False
    with setup' show ?thesis by (auto simp: serve_connection_def split: sum.splits)
  next
    case True
    then obtain worker where worker: "cn_spawn cn config 0 = Inr worker" "\<not> isl (cn_write cn 0)" by blast
    from assms worker(1) obtain replies where
      "worker_contract config (A config) replies" "worker_contract.in_step config replies worker"
      unfolding workers_answer_def by blast
    from remote_loop_dialogue [OF assms this, of render msgs 0 0 "[ServerReady]"]
    obtain ms where "fst (remote_loop render cn config msgs 0 0 worker [ServerReady]) = ServerReady # ms"
      "dialogue (A config) (works msgs) ms" by auto
    with setup' worker read_setup_Inr [OF setup'] show ?thesis
      by (auto simp: serve_connection_def split: sum.splits prod.splits)
  qed
qed

lemma read_server_Ok:
  assumes "read_server_timeout w = (Inr m, w')"
  shows "rw_read w < length (rw_replies w (rw_sent w)) \<and> rw_replies w (rw_sent w) ! rw_read w = Inr m \<and>
    w' = w\<lparr>rw_read := Suc (rw_read w)\<rparr>"
proof (cases "drop (rw_read w) (rw_replies w (rw_sent w))")
  case (Cons x xs)
  then have "rw_read w < length (rw_replies w (rw_sent w))" by (metis drop_eq_Nil leI list.distinct(1))
  with Cons assms nth_via_drop [OF Cons] show ?thesis
    by (auto simp: read_server_timeout_def split: if_splits sum.splits)
qed (use assms in \<open>auto simp: read_server_timeout_def split: if_splits sum.splits\<close>)

lemma rw_work_Ok:
  assumes "rw_work p w = (Inr e, w')"
  shows "rw_replies w (rw_sent w @ [Work p]) ! rw_read w = Inr (ServerEvent e) \<and>
    rw_read w < length (rw_replies w (rw_sent w @ [Work p])) \<and>
    w' = w\<lparr>rw_sent := rw_sent w @ [Work p], rw_read := Suc (Suc (rw_read w))\<rparr>"
  using assms
  by (auto simp: rw_work_def rw_write_def event_of_reply_def and_then_Ok_iff
      split: if_splits option.splits prod.splits sum.splits server_message.splits dest!: read_server_Ok)

lemma connect_remote_Ok:
  assumes "connect_remote dir tcp nodelay keepalive token config label endpoint = Inr w"
  shows "\<exists>stream store_dir. tcp = Inr stream \<and> rw_replies w = rw_replies stream \<and>
    rw_sent w = rw_sent stream @ [Setup config token (Some store_dir)] \<and> rw_read w = Suc (rw_read stream)"
  using assms
  by (auto simp: connect_remote_def and_then_Ok_iff rw_write_def Let_def expect_ready_def
      split: option.splits prod.splits sum.splits server_message.splits dest!: read_server_Ok)

text \<open>The requests of a coordinator for some paths, one after the other, up to the first failure.\<close>

fun remote_run :: "attr_path list \<Rightarrow> remote_worker \<Rightarrow> event list \<times> report option \<times> remote_worker" where
  "remote_run [] w = ([], None, w)"
| "remote_run (p # ps) w =
     (case rw_work p w of
        (Inl e, w1) \<Rightarrow> ([], Some e, w1)
      | (Inr event, w1) \<Rightarrow> (case remote_run ps w1 of (events, err, w2) \<Rightarrow> (event # events, err, w2)))"

text \<open>What a remote worker promises the coordinator.\<close>

locale remote_contract =
  fixes config :: worker_config
    and A :: "attr_path \<Rightarrow> event \<Rightarrow> bool"
    and replies :: "client_message list \<Rightarrow> server_message result list"
  assumes replies_dialogue: "setup_is config sent \<Longrightarrow> \<exists>ms. replies sent = map Inr ms \<and>
    (ms = [] \<or> (\<exists>e. ms = [ServerError e]) \<or> (\<exists>rest. ms = ServerReady # rest \<and> dialogue A (paths_of sent) rest))"
begin

definition remote_in_step :: "remote_worker \<Rightarrow> bool" where
  "remote_in_step w \<longleftrightarrow> rw_replies w = replies \<and> rw_read w = Suc (2 * length (paths_of (rw_sent w))) \<and>
     setup_is config (rw_sent w)"

lemma remote_work_answers:
  assumes "remote_in_step w" and "rw_work p w = (Inr e, w')"
  shows "A p e" and "remote_in_step w'"
proof -
  let ?sent = "rw_sent w @ [Work p]" and ?n = "length (paths_of (rw_sent w))"
  note ok = rw_work_Ok [OF assms(2)]
  with assms(1) show "remote_in_step w'" by (simp add: remote_in_step_def)
  obtain ms where ms: "replies ?sent = map Inr ms"
    "ms = [] \<or> (\<exists>e. ms = [ServerError e]) \<or> (\<exists>rest. ms = ServerReady # rest \<and> dialogue A (paths_of ?sent) rest)"
    using replies_dialogue [of ?sent] assms(1) by (auto simp: remote_in_step_def)
  from ok assms(1) ms(1) have ev: "Suc (2 * ?n) < length ms" "ms ! Suc (2 * ?n) = ServerEvent e"
    by (auto simp: remote_in_step_def)
  with ms(2) obtain rest where "ms = ServerReady # rest" "dialogue A (paths_of ?sent) rest" by auto
  with dialogue_event [of A "paths_of ?sent" rest ?n e] ev show "A p e" by (simp add: nth_append)
qed

lemma connected_in_step:
  assumes "connect_remote dir (Inr stream) nodelay keepalive token config label endpoint = Inr w"
    and "rw_replies stream = replies" and "rw_sent stream = []" and "rw_read stream = 0"
  shows "remote_in_step w"
  using connect_remote_Ok [OF assms(1)] assms(2-4) by (auto simp: remote_in_step_def)

lemma remote_run_answers:
  assumes "remote_in_step w" and "remote_run ps w = (events, err, w')"
  shows "length events \<le> length ps \<and> (\<forall>i < length events. A (ps ! i) (events ! i))"
  using assms
proof (induction ps arbitrary: w events)
  case (Cons p ps)
  show ?case
  proof (cases "rw_work p w")
    case (Pair r w1)
    show ?thesis
    proof (cases r)
      case (Inl e)
      with Pair Cons.prems show ?thesis by simp
    next
      case (Inr e)
      obtain events' where rest: "remote_run ps w1 = (events', err, w')" "events = e # events'"
        using Pair Inr Cons.prems(2) by (auto split: prod.splits)
      have "A p e" "remote_in_step w1"
        using remote_work_answers [OF Cons.prems(1)] Pair Inr by blast+
      with Cons.IH [OF \<open>remote_in_step w1\<close> rest(1)] rest(2) show ?thesis
        by (auto simp: less_Suc_eq_0_disj)
    qed
  qed
qed simp

end

text \<open>
  A connection served on a machine whose worker processes run \<open>worker_run\<close>: the world, file
  system and environment of each spawn are its own.
\<close>

definition local_connection ::
  "('v, 'r, 'l) nix_api \<Rightarrow> ('v option \<Rightarrow> 'v nix) \<Rightarrow> 'f gc_fs \<Rightarrow> (report \<Rightarrow> string) \<Rightarrow> (int \<Rightarrow> unit result) \<Rightarrow>
    (nat \<Rightarrow> 'f worker_world) \<Rightarrow> (nat \<Rightarrow> 'f) \<Rightarrow> (nat \<Rightarrow> process_env) \<Rightarrow>
    (nat \<Rightarrow> path \<Rightarrow> string option \<Rightarrow> string option \<Rightarrow> worker_process result) \<Rightarrow> (nat \<Rightarrow> bool) \<Rightarrow> connection \<Rightarrow> connection" where
  "local_connection na nx fs render set_cloexec world st env child timed_out cn = cn\<lparr>cn_spawn := (\<lambda>config k.
     spawn_local render (env k) (\<lambda>exe files fds. map_sum id
         (\<lambda>c. c\<lparr>wp_replies := local_replies na nx fs render set_cloexec None (world k) (st k),
            wp_read := 0, wp_sent := []\<rparr>) (child k exe files fds))
       (timed_out k) config ''remote'' None [])\<rparr>"

lemma local_connection_answers:
  "workers_answer (evaluated na nx fs render set_cloexec None)
     ((local_connection na nx fs render set_cloexec world st env child timed_out cn)\<lparr>cn_messages := msgs\<rparr>)"
  unfolding workers_answer_def
proof (intro allI impI)
  fix config k w
  let ?replies = "local_replies na nx fs render set_cloexec None (world k) (st k)"
  assume "cn_spawn ((local_connection na nx fs render set_cloexec world st env child timed_out cn)\<lparr>cn_messages := msgs\<rparr>)
    config k = Inr w"
  then have spawned: "spawn_local render (env k) (\<lambda>exe files fds. map_sum id
      (\<lambda>c. c\<lparr>wp_replies := ?replies, wp_read := 0, wp_sent := []\<rparr>) (child k exe files fds))
    (timed_out k) config ''remote'' None [] = Inr w"
    by (simp add: local_connection_def)
  have fresh: "wp_replies c = ?replies \<and> wp_read c = 0 \<and> wp_sent c = []"
    if "map_sum id (\<lambda>c. c\<lparr>wp_replies := ?replies, wp_read := 0, wp_sent := []\<rparr>) (child k exe files fds) = Inr c"
    for exe files fds c
    using that by (cases "child k exe files fds") auto
  have "worker_contract.in_step config ?replies w"
    by (rule local_worker.spawned_in_step [OF spawned]) (rule fresh)
  then show "\<exists>replies. worker_contract config (evaluated na nx fs render set_cloexec None config) replies \<and>
      worker_contract.in_step config replies w"
    by (intro exI [of _ ?replies] conjI local_worker.worker_contract_axioms)
qed

lemma dialogue_more: "dialogue A ps ms \<Longrightarrow> dialogue A (ps @ qs) ms"
  by (induction A ps ms rule: dialogue.induct) auto

interpretation remote_service: remote_contract config "evaluated na nx fs render set_cloexec None config"
  "served_replies render (local_connection na nx fs render set_cloexec world st env child timed_out cn)"
proof unfold_locales
  fix sent
  assume config: "setup_is config sent"
  let ?A = "evaluated na nx fs render set_cloexec None"
  let ?cn = "(local_connection na nx fs render set_cloexec world st env child timed_out cn)
    \<lparr>cn_messages := map Inr sent\<rparr>"
  let ?ms = "fst (serve_connection render ?cn)"
  have "?ms = [] \<or> (\<exists>e. ?ms = [ServerError e]) \<or>
    (\<exists>config token dir msgs ms. cn_messages ?cn = Inr (Setup config token dir) # msgs \<and>
       ?ms = ServerReady # ms \<and> dialogue (?A config) (works msgs) ms)"
    by (rule serve_connection_dialogue [OF local_connection_answers])
  moreover have "dialogue (?A config) (paths_of sent) ms"
    if "cn_messages ?cn = Inr (Setup config' token dir) # msgs" and "dialogue (?A config') (works msgs) ms"
    for config' token dir msgs ms
  proof -
    from that(1) obtain rest where sent: "sent = Setup config' token dir # rest" "msgs = map Inr rest" by auto
    with config works_paths_of [of rest] dialogue_more [OF that(2)] show ?thesis by auto
  qed
  ultimately show "\<exists>ms. served_replies render (local_connection na nx fs render set_cloexec world st env child timed_out cn)
      sent = map Inr ms \<and> (ms = [] \<or> (\<exists>e. ms = [ServerError e]) \<or>
        (\<exists>rest. ms = ServerReady # rest \<and> dialogue (?A config) (paths_of sent) rest))"
    unfolding served_replies_def by (intro exI [of _ ?ms]) blast
qed

section \<open>The claims\<close>

text \<open>
  C36. The whole way to a remote evaluator and back: a coordinator that connects to a remote
  service and sends it paths one after the other gets, for each path whose request succeeds,
  an event that a worker process of that service, started for the configuration of the setup,
  gave for this very path, whatever restarts,
  spawn failures, write failures and time limits intervene on either side.
\<close>

theorem remote_events_are_evaluations:
  assumes "connect_remote dir (Inr stream) nodelay keepalive token config label endpoint = Inr w"
    and "rw_replies stream =
      served_replies render (local_connection na nx fs render set_cloexec world st env child timed_out cn)"
    and "rw_sent stream = []" and "rw_read stream = 0"
    and "remote_run ps w = (events, err, w')"
  shows "length events \<le> length ps \<and>
    (\<forall>i < length events. evaluated na nx fs render set_cloexec None config (ps ! i) (events ! i))"
  using remote_service.remote_run_answers [OF remote_service.connected_in_step [OF assms(1-4)] assms(5)] .

text \<open>
  C37. Authentication and policy come before any work: a connection gets a worker process only
  when its first message arrived in time and was a setup with the configured token, byte for
  byte, the store directory of this machine if it named one, and Nix options from the allowed
  list only; otherwise nothing is spawned and at most the authentication error is sent.
\<close>

theorem remote_worker_needs_authorised_setup:
  assumes "serve_connection render cn = (outs, r, worker)"
    and "\<forall>t. cn_token cn = Some t \<longrightarrow> length t < 2 ^ 64"
    and "\<forall>config t dir. Inr (Setup config (Some t) dir) \<in> set (cn_messages cn) \<longrightarrow> length t < 2 ^ 64"
  shows "case worker of
      Some w \<Rightarrow> \<not> cn_setup_late cn \<and> (\<exists>config dir msgs. cn_messages cn = Inr (Setup config (cn_token cn) dir) # msgs \<and>
        (\<forall>d. dir = Some d \<longrightarrow> cn_store_dir cn = Inr d) \<and>
        fst ` set (w_nix_options config) \<subseteq> set ALLOWED_REMOTE_NIX_OPTIONS)
    | None \<Rightarrow> outs = [] \<or> outs = [ServerError ''remote worker authentication failed'']"
proof (cases "read_setup cn")
  case (Inl x)
  with assms(1) read_setup_Inl [of cn "fst x" "snd x"] show ?thesis
    by (auto simp: serve_connection_def split: prod.splits)
next
  case (Inr x)
  then obtain config msgs where "read_setup cn = Inr (config, msgs)" by (cases x) auto
  note parsed = this read_setup_Inr [OF this]
  then obtain token dir where first: "cn_messages cn = Inr (Setup config token dir) # msgs" "\<not> cn_setup_late cn"
    "token_matches token (cn_token cn)" "validate_store_dir (cn_store_dir cn) dir = Inr ()"
    "validate_remote_config config = Inr ()" by blast
  have "token = cn_token cn"
    using first(1,3) assms(2,3) token_matches_eq [of token "cn_token cn"] by auto
  moreover have "cn_store_dir cn = Inr d" if "dir = Some d" for d
    using first(4) that
    by (auto simp: validate_store_dir_def validate_store_dir_against_def and_then_Ok_iff bail_def split: if_splits)
  moreover have "fst ` set (w_nix_options config) \<subseteq> set ALLOWED_REMOTE_NIX_OPTIONS"
    using first(5) by (simp add: validate_remote_config_def validate_remote_options_Ok)
  ultimately show ?thesis using first(1,2) parsed(1) assms(1)
    by (auto simp: serve_connection_def split: option.splits sum.splits prod.splits)
qed

subsection \<open>A concrete remote service\<close>

definition ex_remote_child :: worker_process where
  "ex_remote_child = \<lparr>wp_label = [], wp_forked = False, wp_replies = (\<lambda>_. []), wp_read = 0, wp_write_error = None,
     wp_exit = None, wp_stderr = None, wp_sent = [], wp_killed = False\<rparr>"

definition ex_connection :: connection where
  "ex_connection = local_connection ex_api (\<lambda>_. ex_nix) ex_fs (\<lambda>_. []) (\<lambda>_. Inr ()) (\<lambda>_. ex_world) (\<lambda>_. [])
     (\<lambda>_. ex_env) (\<lambda>_ _ _ _. Inr ex_remote_child) (\<lambda>_. False)
     \<lparr>cn_token = Some ''secret'', cn_store_dir = Inr ''/nix/store'', cn_messages = [], cn_setup_late = False,
      cn_write = (\<lambda>_. Inr ()), cn_spawn = (\<lambda>_ _. external ''spawn''), cn_interrupted = (\<lambda>_. False)\<rparr>"

definition ex_stream :: remote_worker where
  "ex_stream = \<lparr>rw_label = [], rw_open = False, rw_replies = served_replies (\<lambda>_. []) ex_connection, rw_read = 0,
     rw_late = (\<lambda>_. False), rw_write_error = None, rw_sent = []\<rparr>"

definition ex_connected :: "remote_worker result" where
  "ex_connected = connect_remote (Inr ''/nix/store'') (Inr ex_stream) (Inr ()) (Inr ()) (Some ''secret'')
     ex_worker_config ''r0'' ''host:1''"

lemma ex_connected_Ok: "\<not> isl ex_connected"
  by code_simp

lemma ex_remote_run: "length (fst (remote_run [[], [''a''], [''s'']] (projr ex_connected))) = 3"
  by code_simp

theorem remote_events_are_evaluations_witness:
  "list_all2 (evaluated ex_api (\<lambda>_. ex_nix) ex_fs (\<lambda>_. []) (\<lambda>_. Inr ()) None ex_worker_config) [[], [''a''], [''s'']]
     (fst (remote_run [[], [''a''], [''s'']] (projr ex_connected)))"
proof -
  let ?run = "remote_run [[], [''a''], [''s'']] (projr ex_connected)"
  have "connect_remote (Inr ''/nix/store'') (Inr ex_stream) (Inr ()) (Inr ()) (Some ''secret'')
     ex_worker_config ''r0'' ''host:1'' = Inr (projr ex_connected)"
    using ex_connected_Ok by (cases ex_connected) (simp_all add: ex_connected_def)
  from remote_events_are_evaluations [OF this, where ps = "[[], [''a''], [''s'']]" and events = "fst ?run"
      and err = "fst (snd ?run)" and w' = "snd (snd ?run)" and na = ex_api and nx = "\<lambda>_. ex_nix" and fs = ex_fs
      and render = "\<lambda>_. []" and set_cloexec = "\<lambda>_. Inr ()"] ex_remote_run
  show ?thesis by (simp add: ex_stream_def ex_connection_def list_all2_conv_all_nth)
qed

theorem remote_worker_needs_authorised_setup_witness:
  "fst (serve_connection (\<lambda>_. []) (ex_connection\<lparr>cn_messages := [Inr (Setup ex_worker_config (Some ''wrong'') None)]\<rparr>)) =
     [ServerError ''remote worker authentication failed'']"
proof -
  let ?cn = "ex_connection\<lparr>cn_messages := [Inr (Setup ex_worker_config (Some ''wrong'') None)]\<rparr>"
  have "snd (snd (serve_connection (\<lambda>_. []) ?cn)) = None" "fst (serve_connection (\<lambda>_. []) ?cn) \<noteq> []"
    by code_simp+
  with remote_worker_needs_authorised_setup [of "\<lambda>_. []" ?cn "fst (serve_connection (\<lambda>_. []) ?cn)"
      "fst (snd (serve_connection (\<lambda>_. []) ?cn))" "snd (snd (serve_connection (\<lambda>_. []) ?cn))"]
  show ?thesis by (simp add: ex_connection_def local_connection_def)
qed

text \<open>
  The comparison of tokens, which looks at every byte of the longer one and adds up the
  differences so that its time does not depend on where they are, decides equality.
\<close>

theorem token_matches_decides_equality:
  assumes "length a < 2 ^ 64" and "length e < 2 ^ 64"
  shows "token_matches (Some a) (Some e) \<longleftrightarrow> a = e"
  using token_matches_eq [of "Some a" "Some e"] assms by simp

theorem token_matches_decides_equality_witness:
  "\<not> token_matches (Some ''secre'') (Some (''secre'' @ [CHR 0x00]))"
  using token_matches_decides_equality [of "''secre''" "''secre'' @ [CHR 0x00]"] by simp

end
