(* ===== verification/Worker_Task.thy ===== *)
theory Worker_Task
  imports Coordinator Remote_Worker
begin

text \<open>
  The tasks of the coordinator, the other half of \<open>crates/evix/src/async_master.rs\<close>: the client of
  a worker (a local process or a remote connection), the task that serves one worker and
  reconnects or restarts it, and the run as a whole from the validation of the configuration
  to the shutdown of the tasks. What a machine gives each connection, when the cancellation
  flag is seen, which sends find their channel closed and which requests run out of time are
  parameters.
\<close>

section \<open>Worker clients\<close>

datatype worker_client = LocalClient worker_process | RemoteClient remote_worker

datatype worker_command = CommandWork work_item | CommandStop

text \<open>
  What the machine gives the connections of one task, by their number: the environment, the
  process and the lateness of a spawn; the stream of a remote connection; and for a forked
  worker its process identifier and its end of the socket.
\<close>

record client_world =
  cl_env :: "nat \<Rightarrow> process_env"
  cl_spawn :: "nat \<Rightarrow> path \<Rightarrow> string option \<Rightarrow> string option \<Rightarrow> worker_process result"
  cl_spawn_late :: "nat \<Rightarrow> bool"
  cl_slot :: "nat \<Rightarrow> fork_slot"
  cl_pid :: pid_read
  cl_pidfd :: "nat \<Rightarrow> unit result"
  cl_attach_late :: bool
  cl_forked :: worker_process
  cl_store_dir :: "nat \<Rightarrow> string result"
  cl_tcp :: "nat \<Rightarrow> remote_worker result"
  cl_nodelay :: "nat \<Rightarrow> unit result"
  cl_keepalive :: "nat \<Rightarrow> unit result"

text \<open>The fork slots and the socket of a specification are taken by its first connection.\<close>

record client_state =
  ct_connects :: nat
  ct_slots :: "nat list"
  ct_socket :: bool

definition initial_client_state :: "worker_spec \<Rightarrow> client_state" where
  "initial_client_state spec =
     \<lparr>ct_connects = 0,
      ct_slots = (case sp_kind spec of Local _ (ForkParent slots) \<Rightarrow> slots | _ \<Rightarrow> []),
      ct_socket = is_forked spec\<rparr>"

definition client_spawn ::
  "(report \<Rightarrow> string) \<Rightarrow> client_world \<Rightarrow> worker_config \<Rightarrow> string \<Rightarrow> path option \<Rightarrow> nat list \<Rightarrow> nat \<Rightarrow>
    worker_client result" where
  "client_spawn render cl config label worker_exe slots n =
     and_then (spawn_local render (cl_env cl n) (cl_spawn cl n) (cl_spawn_late cl n) config label worker_exe
       (map (cl_slot cl) slots)) (\<lambda>w. Inr (LocalClient w))"

definition client_connect ::
  "(report \<Rightarrow> string) \<Rightarrow> client_world \<Rightarrow> worker_config \<Rightarrow> worker_spec \<Rightarrow> client_state \<Rightarrow>
    worker_client result \<times> client_state" where
  "client_connect render cl config spec ct =
     (let n = ct_connects ct;
          ct1 = ct\<lparr>ct_connects := Suc n\<rparr>;
          label = sp_label spec
      in case sp_kind spec of
           Local worker_exe ForkNone \<Rightarrow> (client_spawn render cl config label worker_exe [] n, ct1)
         | Local worker_exe (ForkParent _) \<Rightarrow>
             (client_spawn render cl config label worker_exe (ct_slots ct) n, ct1\<lparr>ct_slots := []\<rparr>)
         | Local worker_exe (ForkChild _) \<Rightarrow>
             (if ct_socket ct then
                and_then (attach_forked render (cl_pidfd cl) (cl_attach_late cl) config label (cl_pid cl) (cl_forked cl))
                  (\<lambda>worker. case worker of
                     Some w \<Rightarrow> Inr (LocalClient w)
                   | None \<Rightarrow> client_spawn render cl config label worker_exe [] n)
              else client_spawn render cl config label worker_exe [] n, ct1\<lparr>ct_socket := False\<rparr>)
         | Remote remote \<Rightarrow>
             (and_then (connect_remote (cl_store_dir cl n) (cl_tcp cl n) (cl_nodelay cl n) (cl_keepalive cl n)
                (r_token remote) config label (r_endpoint remote)) (\<lambda>w. Inr (RemoteClient w)), ct1))"

definition client_work ::
  "(report \<Rightarrow> string) \<Rightarrow> attr_path \<Rightarrow> worker_client \<Rightarrow> (event \<times> worker_status) result \<times> worker_client" where
  "client_work render p c =
     (case c of
        LocalClient w \<Rightarrow>
          (case wp_work render p w of
             (r, w1) \<Rightarrow> (and_then r (\<lambda>x. Inr (wr_event x, wr_status x)), LocalClient w1))
      | RemoteClient w \<Rightarrow>
          (case rw_work p w of
             (r, w1) \<Rightarrow> (and_then r (\<lambda>event. Inr (event, StatusReady)), RemoteClient w1)))"

definition client_stop :: "worker_client \<Rightarrow> worker_client" where
  "client_stop c =
     (case c of LocalClient w \<Rightarrow> LocalClient (wp_stop w) | RemoteClient w \<Rightarrow> RemoteClient (rw_stop w))"

definition client_abort :: "worker_client \<Rightarrow> worker_client" where
  "client_abort c =
     (case c of LocalClient w \<Rightarrow> LocalClient (wp_abort w) | RemoteClient w \<Rightarrow> RemoteClient (rw_abort w))"

text \<open>
  Replacing the client: when the connection fails, the old client stays. A restart waits for
  the old process first, and does nothing for a remote worker.
\<close>

definition client_reconnect ::
  "(report \<Rightarrow> string) \<Rightarrow> client_world \<Rightarrow> worker_config \<Rightarrow> worker_spec \<Rightarrow> worker_client \<Rightarrow> client_state \<Rightarrow>
    unit result \<times> worker_client \<times> client_state" where
  "client_reconnect render cl config spec c ct =
     (case client_connect render cl config spec ct of
        (Inl e, ct1) \<Rightarrow> (Inl e, c, ct1)
      | (Inr c1, ct1) \<Rightarrow> (Inr (), c1, ct1))"

definition client_restart ::
  "(report \<Rightarrow> string) \<Rightarrow> client_world \<Rightarrow> worker_config \<Rightarrow> worker_spec \<Rightarrow> worker_client \<Rightarrow> client_state \<Rightarrow>
    unit result \<times> worker_client \<times> client_state" where
  "client_restart render cl config spec c ct =
     (case c of
        LocalClient w \<Rightarrow> client_reconnect render cl config spec (LocalClient (snd (wp_wait w))) ct
      | RemoteClient _ \<Rightarrow> (Inr (), c, ct))"

section \<open>The task of one worker\<close>

text \<open>
  By the number of the command: whether the flag is set when it arrives and after its answer,
  whether the coordinator no longer listens, whether the request runs out of time, and in
  what state an abandoned request leaves the client.
\<close>

record task_world =
  tw_cancel :: "nat \<Rightarrow> bool"
  tw_cancel_after :: "nat \<Rightarrow> bool"
  tw_closed :: "nat \<Rightarrow> bool"
  tw_late :: "nat \<Rightarrow> bool"
  tw_cut :: "nat \<Rightarrow> worker_client \<Rightarrow> worker_client"

definition work_with_timeout ::
  "(report \<Rightarrow> string) \<Rightarrow> task_world \<Rightarrow> worker_config \<Rightarrow> worker_spec \<Rightarrow> nat \<Rightarrow> work_item \<Rightarrow> worker_client \<Rightarrow>
    (event \<times> worker_status) result \<times> worker_client" where
  "work_with_timeout render tw config spec j item c =
     (if tw_late tw j then
        (bail (''worker '' @ sp_label spec @ '' timed out evaluating '' @ display_attr (wi_path item) @
           '' after '' @ show_nat (unat (w_item_timeout_seconds config)) @ '' seconds''),
         client_abort (tw_cut tw j c))
      else client_work render (wi_path item) c)"

text \<open>The replacement of the client once its answer is with the coordinator.\<close>

definition after_answer ::
  "(report \<Rightarrow> string) \<Rightarrow> client_world \<Rightarrow> task_world \<Rightarrow> worker_config \<Rightarrow> worker_spec \<Rightarrow> nat \<Rightarrow>
    (event \<times> worker_status) result \<Rightarrow> worker_client \<Rightarrow> client_state \<Rightarrow> unit result \<times> worker_client \<times> client_state" where
  "after_answer render cl tw config spec j r c ct =
     (let status = (case r of Inr x \<Rightarrow> snd x | Inl _ \<Rightarrow> StatusReady)
      in if isl r \<and> \<not> tw_cancel_after tw j then client_reconnect render cl config spec c ct
         else if status = StatusRestart then client_restart render cl config spec c ct
         else (Inr (), c, ct))"

text \<open>The end of the list of commands is the end of the command channel.\<close>

fun serve_loop ::
  "(report \<Rightarrow> string) \<Rightarrow> client_world \<Rightarrow> task_world \<Rightarrow> worker_config \<Rightarrow> worker_spec \<Rightarrow> worker_command list \<Rightarrow> nat \<Rightarrow>
    worker_client \<Rightarrow> client_state \<Rightarrow> worker_message list \<times> unit result \<times> worker_client" where
  "serve_loop render cl tw config spec [] j c ct = ([], Inr (), client_stop c)"
| "serve_loop render cl tw config spec (command # commands) j c ct =
     (if tw_cancel tw j then
        (if tw_closed tw j then [] else [WorkerCancelled], Inr (), client_stop c)
      else
        (case command of
           CommandStop \<Rightarrow> ([], Inr (), client_stop c)
         | CommandWork item \<Rightarrow>
             (case work_with_timeout render tw config spec j item c of (r, c1) \<Rightarrow>
                let answer = WorkResult (sp_id spec) item (and_then r (\<lambda>x. Inr (fst x)))
                in if tw_closed tw j then ([], Inr (), client_stop c1)
                   else
                     (case after_answer render cl tw config spec j r c1 ct of
                        (Inl e, c2, _) \<Rightarrow> ([answer], Inl e, c2)
                      | (Inr _, c2, ct2) \<Rightarrow>
                          (case serve_loop render cl tw config spec commands (Suc j) c2 ct2 of
                             (ms, rest) \<Rightarrow> (answer # ms, rest))))))"

text \<open>
  Before a forked worker has started, a command may come first (\<open>early\<close>); and the coordinator may
  have gone when it reports ready (\<open>ready_closed\<close>). The last component is the client at the end.
\<close>

definition serve_worker ::
  "(report \<Rightarrow> string) \<Rightarrow> client_world \<Rightarrow> task_world \<Rightarrow> bool \<Rightarrow> bool \<Rightarrow> worker_config \<Rightarrow> worker_spec \<Rightarrow>
    worker_command list \<Rightarrow> worker_message list \<times> unit result \<times> worker_client option" where
  "serve_worker render cl tw early ready_closed config spec commands =
     (if is_forked spec \<and> early then
        (case commands of
           CommandWork _ # _ \<Rightarrow> ([], bail (''work sent to '' @ sp_label spec @ '' before it started''), None)
         | _ \<Rightarrow> ([], Inr (), None))
      else
        (case client_connect render cl config spec (initial_client_state spec) of
           (Inl e, _) \<Rightarrow> ([], Inl e, None)
         | (Inr c, ct) \<Rightarrow>
             if is_forked spec \<and> ready_closed then ([], Inr (), Some c)
             else
               (case serve_loop render cl tw config spec commands 0 c ct of
                  (ms, r, c1) \<Rightarrow> ((if is_forked spec then [Ready (sp_id spec)] else []) @ ms, r, Some c1))))"

text \<open>
  A panic in the service (\<open>Some n\<close>: after \<open>n\<close> messages) becomes an error; an error is sent to the
  coordinator unless it no longer listens.
\<close>

definition worker_task ::
  "(report \<Rightarrow> string) \<Rightarrow> nat option \<Rightarrow> bool \<Rightarrow> worker_message list \<times> unit result \<times> worker_client option \<Rightarrow>
    worker_message list \<times> unit result" where
  "worker_task render panicked exit_closed served =
     (case served of (ms, result, _) \<Rightarrow>
        let (ms, result) = (case panicked of
              None \<Rightarrow> (ms, result)
            | Some n \<Rightarrow> (take n ms, bail ''worker task panicked''))
        in (case result of
              Inl err \<Rightarrow> (ms @ (if exit_closed then [] else [Exited (render err)]), result)
            | Inr _ \<Rightarrow> (ms, result)))"

section \<open>The run\<close>

text \<open>\<open>joined\<close> is whether the blocking task that locks a flake could be awaited.\<close>

definition master_worker_config ::
  "('v, 'r, 'l) nix_api \<Rightarrow> (path \<Rightarrow> path result) \<Rightarrow> unit result \<Rightarrow> config \<Rightarrow> worker_config result" where
  "master_worker_config na absolute joined c =
     (let wc = worker_config_of c in
      and_then (case w_input wc of
          InputFile p \<Rightarrow> and_then (with_context ''resolving file path'' (absolute p)) (\<lambda>q. Inr (wc\<lparr>w_input := InputFile q\<rparr>))
        | _ \<Rightarrow> Inr wc) (\<lambda>wc1.
      and_then (with_context ''joining flake lock export task'' joined) (\<lambda>_.
      and_then (export_locked_flake na c) (\<lambda>locked. Inr (wc1\<lparr>w_locked_flake_json := locked\<rparr>)))))"

text \<open>What awaiting a task gives.\<close>

datatype join = JoinOk "unit result" | JoinCancelled | JoinPanicked

fun shutdown_workers :: "join list \<Rightarrow> unit result" where
  "shutdown_workers [] = Inr ()"
| "shutdown_workers (JoinOk r # joins) = and_then r (\<lambda>_. shutdown_workers joins)"
| "shutdown_workers (_ # joins) = with_context ''worker task panicked'' (external ''tokio'')"

fun abort_workers :: "join list \<Rightarrow> unit result" where
  "abort_workers [] = Inr ()"
| "abort_workers (JoinOk r # joins) = and_then r (\<lambda>_. abort_workers joins)"
| "abort_workers (JoinCancelled # joins) = abort_workers joins"
| "abort_workers (JoinPanicked # joins) = with_context ''worker task panicked'' (external ''tokio'')"

definition run_setup ::
  "('v, 'r, 'l) nix_api \<Rightarrow> (path \<Rightarrow> path result) \<Rightarrow> unit result \<Rightarrow> (nat \<Rightarrow> nat result) \<Rightarrow> config \<Rightarrow>
    (worker_config \<times> worker_spec list) result" where
  "run_setup na absolute joined open_slot c =
     and_then (validate_config c) (\<lambda>_.
     and_then (master_worker_config na absolute joined c) (\<lambda>wc.
     and_then (worker_specs open_slot c) (\<lambda>specs.
       if specs = [] then bail ''evaluation requires at least one local or remote worker''
       else Inr (wc, specs))))"

text \<open>
  The events the sink got and how the run ended, \<open>None\<close> while it goes on: the turns are those
  of the coordinator, and \<open>joins\<close> what the tasks end with.
\<close>

definition run_evaluation ::
  "(report \<Rightarrow> string) \<Rightarrow> ('v, 'r, 'l) nix_api \<Rightarrow> (path \<Rightarrow> path result) \<Rightarrow> unit result \<Rightarrow> (nat \<Rightarrow> nat result) \<Rightarrow>
    turn list \<Rightarrow> (worker_config \<Rightarrow> worker_spec list \<Rightarrow> join list) \<Rightarrow> config \<Rightarrow> event list \<times> run_outcome result option" where
  "run_evaluation render na absolute joined open_slot ts joins c =
     (case run_setup na absolute joined open_slot c of
        Inl e \<Rightarrow> ([], Some (Inl e))
      | Inr (wc, specs) \<Rightarrow>
          (case sys_run render specs ts (initial_sys specs) of
             (y, None) \<Rightarrow> (y_emitted y, None)
           | (y, Some result) \<Rightarrow>
               (y_emitted y, Some (and_then
                  (if result = Inr Cancelled then abort_workers (joins wc specs)
                   else shutdown_workers (joins wc specs)) (\<lambda>_. result)))))"

section \<open>What a task tells the coordinator\<close>

text \<open>
  The messages of a task: one answer per command it took, in order, with its own number and
  the item of the command; an answer is a failure or an event that is right for the path.
  They may be followed by the notice that it was cancelled.
\<close>

fun task_says :: "(attr_path \<Rightarrow> event \<Rightarrow> bool) \<Rightarrow> nat \<Rightarrow> worker_command list \<Rightarrow> worker_message list \<Rightarrow> bool" where
  "task_says A w commands [] = True"
| "task_says A w (CommandWork item # commands) (WorkResult v item' r # ms) =
     (v = w \<and> item' = item \<and> (case r of Inl _ \<Rightarrow> True | Inr e \<Rightarrow> A (wi_path item) e) \<and> task_says A w commands ms)"
| "task_says A w (command # commands) [WorkerCancelled] = True"
| "task_says A w _ _ = False"

text \<open>A forked worker reports that it is ready first.\<close>

definition service_says ::
  "(attr_path \<Rightarrow> event \<Rightarrow> bool) \<Rightarrow> worker_spec \<Rightarrow> worker_command list \<Rightarrow> worker_message list \<Rightarrow> bool" where
  "service_says A spec commands ms \<longleftrightarrow>
     (\<exists>ready answers. ms = ready @ answers \<and> (ready = [] \<or> is_forked spec \<and> ready = [Ready (sp_id spec)]) \<and>
        task_says A (sp_id spec) commands answers)"

lemma service_says_plain: "task_says A (sp_id spec) commands ms \<Longrightarrow> service_says A spec commands ms"
  unfolding service_says_def by (intro exI [of _ "[]"] exI [of _ ms]) simp

lemma service_says_forked:
  "is_forked spec \<Longrightarrow> task_says A (sp_id spec) commands ms \<Longrightarrow> service_says A spec commands (Ready (sp_id spec) # ms)"
  unfolding service_says_def by (intro exI [of _ "[Ready (sp_id spec)]"] exI [of _ ms]) simp

lemma task_says_take: "task_says A w commands ms \<Longrightarrow> task_says A w commands (take n ms)"
proof (induction A w commands ms arbitrary: n rule: task_says.induct)
  case (2 A w item commands v item' r ms)
  then show ?case by (cases n) auto
qed (auto simp: take_Cons')

lemma service_says_take:
  assumes "service_says A spec commands ms"
  shows "service_says A spec commands (take n ms)"
proof -
  from assms obtain ready answers where "ms = ready @ answers"
    "ready = [] \<or> is_forked spec \<and> ready = [Ready (sp_id spec)]" "task_says A (sp_id spec) commands answers"
    unfolding service_says_def by blast
  with task_says_take [of A "sp_id spec" commands answers] show ?thesis
    unfolding service_says_def
    by (intro exI [of _ "take n ready"] exI [of _ "take (n - length ready) answers"]) (auto simp: take_Cons')
qed

text \<open>
  What the machine of a task promises: every worker process it spawns, the forked one, and
  every remote stream keep their contracts.
\<close>

locale worker_machine =
  fixes config :: worker_config
    and A :: "attr_path \<Rightarrow> event \<Rightarrow> bool"
    and cl :: client_world
  assumes spawned: "cl_spawn cl n exe files fds = Inr w \<Longrightarrow>
      worker_contract config A (wp_replies w) \<and> wp_read w = 0 \<and> wp_sent w = []"
    and forked: "worker_contract config A (wp_replies (cl_forked cl)) \<and> wp_read (cl_forked cl) = 0 \<and>
      wp_sent (cl_forked cl) = []"
    and streamed: "cl_tcp cl n = Inr s \<Longrightarrow>
      remote_contract config A (rw_replies s) \<and> rw_read s = 0 \<and> rw_sent s = []"
begin

definition client_ok :: "worker_client \<Rightarrow> bool" where
  "client_ok c \<longleftrightarrow>
     (case c of
        LocalClient w \<Rightarrow> worker_contract config A (wp_replies w) \<and> worker_contract.in_step config (wp_replies w) w
      | RemoteClient w \<Rightarrow> remote_contract config A (rw_replies w) \<and> remote_contract.remote_in_step config (rw_replies w) w)"

lemma local_client_ok:
  assumes "worker_contract config A replies" and "worker_contract.in_step config replies w"
  shows "client_ok (LocalClient w)"
  using assms worker_contract.in_step_def [OF assms(1), of w] by (simp add: client_ok_def)

lemma remote_client_ok:
  assumes "remote_contract config A replies" and "remote_contract.remote_in_step config replies w"
  shows "client_ok (RemoteClient w)"
  using assms remote_contract.remote_in_step_def [OF assms(1), of w] by (simp add: client_ok_def)

lemma client_spawn_ok:
  assumes "client_spawn render cl config label exe slots n = Inr c"
  shows "client_ok c"
proof -
  from assms obtain w where spawn: "spawn_local render (cl_env cl n) (cl_spawn cl n) (cl_spawn_late cl n) config label exe
      (map (cl_slot cl) slots) = Inr w" and c: "c = LocalClient w"
    by (auto simp: client_spawn_def and_then_Ok_iff)
  from spawn_local_Ok [OF spawn] obtain exe' files fds child where child: "cl_spawn cl n exe' files fds = Inr child"
    and hs: "handshake render config (child\<lparr>wp_label := label, wp_forked := False\<rparr>) = Inr w" by blast
  from spawned [OF child] have contract: "worker_contract config A (wp_replies child)"
    and fresh: "wp_read child = 0" "wp_sent child = []" by auto
  from worker_contract.handshake_in_step [OF contract hs] fresh show ?thesis
    unfolding c by (intro local_client_ok [OF contract]) simp
qed

lemma attached_ok:
  assumes "attach_forked render pidfd late config label pid (cl_forked cl) = Inr (Some w)"
  shows "client_ok (LocalClient w)"
proof -
  from forked have contract: "worker_contract config A (wp_replies (cl_forked cl))" by blast
  from worker_contract.ready_in_step [OF contract attach_forked_Ok [OF assms]] forked show ?thesis
    by (intro local_client_ok [OF contract]) simp
qed

lemma streamed_ok:
  assumes "connect_remote dir (cl_tcp cl n) nodelay keepalive token config label endpoint = Inr w"
  shows "client_ok (RemoteClient w)"
proof -
  from connect_remote_Ok [OF assms] obtain stream where stream: "cl_tcp cl n = Inr stream" by blast
  from streamed [OF this] have contract: "remote_contract config A (rw_replies stream)"
    and fresh: "rw_read stream = 0" "rw_sent stream = []" by auto
  from remote_contract.connected_in_step [OF contract assms [unfolded stream]] fresh show ?thesis
    by (intro remote_client_ok [OF contract]) simp
qed

lemma client_connect_ok:
  assumes "client_connect render cl config spec ct = (Inr c, ct')"
  shows "client_ok c"
  using assms
  by (auto simp: client_connect_def Let_def and_then_Ok_iff client_spawn_ok attached_ok streamed_ok
      split: worker_kind.splits local_fork.splits if_splits option.splits)

lemma client_work_ok:
  assumes "client_ok c" and "client_work render p c = (Inr (e, s), c')"
  shows "A p e \<and> client_ok c'"
proof (cases c)
  case (LocalClient w)
  with assms(2) obtain r w1 where work: "wp_work render p w = (Inr r, w1)" "e = wr_event r" "c' = LocalClient w1"
    by (auto simp: client_work_def and_then_Ok_iff split: prod.splits)
  from LocalClient assms(1) have contract: "worker_contract config A (wp_replies w)"
    and step: "worker_contract.in_step config (wp_replies w) w" by (auto simp: client_ok_def)
  note answers = worker_contract.work_answers [OF contract step work(1)]
  from answers(1) local_client_ok [OF contract answers(2)] work(2,3) show ?thesis by simp
next
  case (RemoteClient w)
  with assms(2) obtain w1 where work: "rw_work p w = (Inr e, w1)" "c' = RemoteClient w1"
    by (auto simp: client_work_def and_then_Ok_iff split: prod.splits)
  from RemoteClient assms(1) have contract: "remote_contract config A (rw_replies w)"
    and step: "remote_contract.remote_in_step config (rw_replies w) w" by (auto simp: client_ok_def)
  note answers = remote_contract.remote_work_answers [OF contract step work(1)]
  from answers(1) remote_client_ok [OF contract answers(2)] work(2) show ?thesis by simp
qed

text \<open>One answer: right if it is an event, and the client is in step for the next command.\<close>

lemma work_with_timeout_ok:
  assumes "client_ok c" and "work_with_timeout render tw config spec j item c = (Inr (e, s), c')"
  shows "A (wi_path item) e \<and> client_ok c'"
  using assms client_work_ok by (auto simp: work_with_timeout_def bail_def split: if_splits)

lemma replaced_ok:
  "client_reconnect render cl config spec c ct = (Inr u, c', ct') \<Longrightarrow> client_ok c'"
  "client_restart render cl config spec c ct = (Inr u, c', ct') \<Longrightarrow> client_ok c \<Longrightarrow> client_ok c'"
  using client_connect_ok
  by (auto simp: client_reconnect_def client_restart_def split: prod.splits sum.splits worker_client.splits)

end

text \<open>The flag, once set, stays set.\<close>

definition flag_stays :: "task_world \<Rightarrow> bool" where
  "flag_stays tw \<longleftrightarrow> (\<forall>j. tw_cancel_after tw j \<longrightarrow> tw_cancel tw (Suc j))"

lemma serve_loop_work:
  assumes "\<not> tw_cancel tw j" and "work_with_timeout render tw config spec j item c = (r, c1)"
  shows "serve_loop render cl tw config spec (CommandWork item # commands) j c ct =
    (if tw_closed tw j then ([], Inr (), client_stop c1)
     else (case after_answer render cl tw config spec j r c1 ct of
        (Inl e, c2, _) \<Rightarrow> ([WorkResult (sp_id spec) item (and_then r (\<lambda>x. Inr (fst x)))], Inl e, c2)
      | (Inr _, c2, ct2) \<Rightarrow>
          (case serve_loop render cl tw config spec commands (Suc j) c2 ct2 of
             (ms, rest) \<Rightarrow> (WorkResult (sp_id spec) item (and_then r (\<lambda>x. Inr (fst x))) # ms, rest))))"
  using assms by (simp add: Let_def)

lemma serve_loop_messages:
  assumes "\<not> tw_cancel tw j" and "work_with_timeout render tw config spec j item c = (r, c1)"
    and "after_answer render cl tw config spec j r c1 ct = (u, c2, ct2)"
  shows "fst (serve_loop render cl tw config spec (CommandWork item # commands) j c ct) =
    (if tw_closed tw j then []
     else WorkResult (sp_id spec) item (and_then r (\<lambda>x. Inr (fst x))) #
       (if isl u then [] else fst (serve_loop render cl tw config spec commands (Suc j) c2 ct2)))"
  unfolding serve_loop_work [OF assms(1,2)] assms(3) by (cases u) (simp_all split: prod.splits)

context worker_machine
begin

lemma after_answer_ok:
  assumes "after_answer render cl tw config spec j r c ct = (Inr u, c', ct')" and "flag_stays tw"
    and "\<not> isl r \<Longrightarrow> client_ok c"
  shows "client_ok c' \<or> tw_cancel tw (Suc j)"
  using assms replaced_ok
  by (fastforce simp: after_answer_def Let_def flag_stays_def split: if_splits sum.splits)

lemma serve_loop_says:
  assumes "flag_stays tw" and "client_ok c \<or> tw_cancel tw j"
  shows "task_says A (sp_id spec) commands (fst (serve_loop render cl tw config spec commands j c ct))"
  using assms(2)
proof (induction commands arbitrary: j c ct)
  case (Cons command commands)
  show ?case
  proof (cases "tw_cancel tw j \<or> command = CommandStop")
    case True
    then show ?thesis by auto
  next
    case False
    with Cons.prems obtain item where command: "command = CommandWork item" and ok: "client_ok c"
      by (cases command) auto
    obtain r c1 where work: "work_with_timeout render tw config spec j item c = (r, c1)" by force
    have answer: "A (wi_path item) (fst (projr r)) \<and> client_ok c1" if "\<not> isl r"
      using that work_with_timeout_ok [OF ok, of render tw spec j item] work by (cases r) auto
    obtain u c2 ct2 where after: "after_answer render cl tw config spec j r c1 ct = (u, c2, ct2)"
      by (metis prod_cases3)
    have "task_says A (sp_id spec) commands (fst (serve_loop render cl tw config spec commands (Suc j) c2 ct2))"
      if "u = Inr ()"
      using that after answer after_answer_ok [OF _ assms(1)] by (intro Cons.IH) blast
    with answer False serve_loop_messages [OF _ work after, of commands] show ?thesis
      by (cases r; cases u) (simp_all add: command)
  qed
qed simp

lemma serve_worker_says:
  assumes "flag_stays tw"
  shows "service_says A spec commands (fst (serve_worker render cl tw early ready_closed config spec commands))"
proof (cases "client_connect render cl config spec (initial_client_state spec)")
  case (Pair r ct)
  show ?thesis
  proof (cases "(\<exists>c. r = Inr c) \<and> \<not> (is_forked spec \<and> (early \<or> ready_closed))")
    case False
    with Pair show ?thesis
      by (cases r) (auto simp: serve_worker_def service_says_plain split: list.splits worker_command.splits)
  next
    case True
    then obtain c where r: "r = Inr c" by blast
    have "task_says A (sp_id spec) commands (fst (serve_loop render cl tw config spec commands 0 c ct))"
      using serve_loop_says [OF assms] client_connect_ok Pair r by blast
    with True Pair r show ?thesis
      by (auto simp: serve_worker_def service_says_plain service_says_forked split: prod.splits)
  qed
qed

end

lemma worker_task_messages:
  assumes "worker_task render panicked exit_closed served = (ms, result)"
  shows "\<exists>n exit. ms = take n (fst served) @ exit \<and>
    (exit = [] \<or> (\<exists>err. result = Inl err \<and> exit = [Exited (render err)]))"
proof -
  obtain said' r c where served: "served = (said', r, c)" by (metis prod_cases3)
  define n where "n = (case panicked of None \<Rightarrow> length said' | Some n \<Rightarrow> n)"
  define r' where "r' = (case panicked of None \<Rightarrow> r | Some _ \<Rightarrow> bail ''worker task panicked'')"
  have "ms = take n said' @ (if isl r' \<and> \<not> exit_closed then [Exited (render (projl r'))] else [])" "result = r'"
    using assms by (auto simp: worker_task_def served n_def r'_def bail_def split: option.splits sum.splits if_splits)
  then show ?thesis by (cases r') (auto simp: served)
qed

section \<open>Machines that run the evaluator\<close>

text \<open>A machine with the Nix library, as the worker processes on it see it.\<close>

record ('v, 'r, 'l, 'f) nix_host =
  nh_api :: "('v, 'r, 'l) nix_api"
  nh_nix :: "'v option \<Rightarrow> 'v nix"
  nh_fs :: "'f gc_fs"
  nh_cloexec :: "int \<Rightarrow> unit result"

definition host_evaluates ::
  "(report \<Rightarrow> string) \<Rightarrow> ('v, 'r, 'l, 'f) nix_host \<Rightarrow> worker_config \<Rightarrow> attr_path \<Rightarrow> event \<Rightarrow> bool" where
  "host_evaluates render h config p e \<longleftrightarrow>
     (\<exists>fork_fds. evaluated (nh_api h) (nh_nix h) (nh_fs h) render (nh_cloexec h) fork_fds config p e)"

text \<open>What a forked child says on its socket once it has been sent some messages there.\<close>

definition slot_replies ::
  "(report \<Rightarrow> string) \<Rightarrow> ('v, 'r, 'l, 'f) nix_host \<Rightarrow> string option \<Rightarrow> 'f worker_world \<Rightarrow> 'f \<Rightarrow> worker_config \<Rightarrow>
    fork_slot \<Rightarrow> client_message list \<Rightarrow> server_message result list" where
  "slot_replies render h fork_fds w st config slot sent =
     map Inr (said (SlotChannel slot) (fst (worker_run (nh_api h) (nh_nix h) (nh_fs h) render (nh_cloexec h) fork_fds
       (w\<lparr>ww_requests := (ww_requests w)(SlotChannel slot := map Inr sent)\<rparr>) (Inr (Setup config None None)) st)))"

interpretation forked_worker: worker_contract config "host_evaluates render h config"
  "slot_replies render h fork_fds w st config slot"
proof unfold_locales
  fix sent
  let ?A = "host_evaluates render h config"
  let ?w = "w\<lparr>ww_requests := (ww_requests w)(SlotChannel slot := map Inr sent)\<rparr>"
  let ?ms = "said (SlotChannel slot) (fst (worker_run (nh_api h) (nh_nix h) (nh_fs h) render (nh_cloexec h) fork_fds
    ?w (Inr (Setup config None None)) st))"
  have "serves ?A (map Inr sent) ?ms"
  proof (cases "worker_start (nh_api h) (nh_cloexec h) fork_fds config")
    case (Inl e)
    then show ?thesis by (simp add: worker_run_def serves_def)
  next
    case (Inr x)
    then obtain forker auto root where start:
      "worker_start (nh_api h) (nh_cloexec h) fork_fds config = Inr (forker, auto, root)" by (cases x) auto
    have "serves ?A (ww_requests ?w (SlotChannel slot)) ?ms"
      using worker_run_serves [OF start]
      by (rule serves_mono) (use start in \<open>unfold host_evaluates_def evaluated_def, blast\<close>)
    then show ?thesis by simp
  qed
  moreover obtain qs where "paths_of sent = works (map Inr sent) @ qs" using works_paths_of [of sent] by blast
  ultimately show "\<exists>ms errs. slot_replies render h fork_fds w st config slot sent = map Inr ms @ errs \<and>
      (\<forall>x \<in> set errs. isl x) \<and> (ms = [] \<or> (\<exists>rest. ms = ServerReady # rest \<and> conversation ?A (paths_of sent) rest))"
    unfolding slot_replies_def using conversation_more [of ?A "works (map Inr sent)"]
    by (intro exI [of _ ?ms] exI [of _ "[]"]) (auto simp: serves_def)
qed

text \<open>Contracts with weaker promises.\<close>

lemma worker_contract_mono:
  assumes "worker_contract config A replies" and "\<And>p e. A p e \<Longrightarrow> B p e"
  shows "worker_contract config B replies"
proof
  fix sent
  assume "setup_is config sent"
  from worker_contract.replies_serve [OF assms(1) this] obtain ms errs where
    "replies sent = map Inr ms @ errs" "\<forall>x \<in> set errs. isl x"
    "ms = [] \<or> (\<exists>rest. ms = ServerReady # rest \<and> conversation A (paths_of sent) rest)" by blast
  then show "\<exists>ms errs. replies sent = map Inr ms @ errs \<and> (\<forall>x \<in> set errs. isl x) \<and>
      (ms = [] \<or> (\<exists>rest. ms = ServerReady # rest \<and> conversation B (paths_of sent) rest))"
    using conversation_mono [of A _ _ B] assms(2) by (intro exI [of _ ms] exI [of _ errs]) blast
qed

lemma dialogue_mono: "dialogue A ps ms \<Longrightarrow> (\<And>p e. A p e \<Longrightarrow> B p e) \<Longrightarrow> dialogue B ps ms"
  by (induction A ps ms rule: dialogue.induct) auto

lemma remote_contract_mono:
  assumes "remote_contract config A replies" and "\<And>p e. A p e \<Longrightarrow> B p e"
  shows "remote_contract config B replies"
proof
  fix sent
  assume "setup_is config sent"
  from remote_contract.replies_dialogue [OF assms(1) this] obtain ms where "replies sent = map Inr ms"
    "ms = [] \<or> (\<exists>e. ms = [ServerError e]) \<or> (\<exists>rest. ms = ServerReady # rest \<and> dialogue A (paths_of sent) rest)"
    by blast
  then show "\<exists>ms. replies sent = map Inr ms \<and>
      (ms = [] \<or> (\<exists>e. ms = [ServerError e]) \<or> (\<exists>rest. ms = ServerReady # rest \<and> dialogue B (paths_of sent) rest))"
    using dialogue_mono [of A _ _ B] assms(2) by (intro exI [of _ ms]) blast
qed

text \<open>
  A machine whose worker processes run \<open>worker_run\<close>, whose forked worker is the child of such a
  process, and whose remote streams lead to services of another machine: each process and
  each service has a world of its own.
\<close>

record 'f host_view =
  hv_world :: "nat \<Rightarrow> 'f worker_world"
  hv_state :: "nat \<Rightarrow> 'f"

record 'f service_view =
  sv_host :: "'f host_view"
  sv_env :: "nat \<Rightarrow> process_env"
  sv_child :: "nat \<Rightarrow> path \<Rightarrow> string option \<Rightarrow> string option \<Rightarrow> worker_process result"
  sv_late :: "nat \<Rightarrow> bool"
  sv_connection :: connection

definition service_replies ::
  "(report \<Rightarrow> string) \<Rightarrow> ('v, 'r, 'l, 'f) nix_host \<Rightarrow> 'f service_view \<Rightarrow> client_message list \<Rightarrow> server_message result list" where
  "service_replies render h sv =
     served_replies render (local_connection (nh_api h) (nh_nix h) (nh_fs h) render (nh_cloexec h)
       (hv_world (sv_host sv)) (hv_state (sv_host sv)) (sv_env sv) (sv_child sv) (sv_late sv) (sv_connection sv))"

definition evaluating_machine ::
  "(report \<Rightarrow> string) \<Rightarrow> worker_config \<Rightarrow> ('v, 'r, 'l, 'f) nix_host \<Rightarrow> 'f host_view \<Rightarrow>
    string option \<Rightarrow> 'f worker_world \<Rightarrow> 'f \<Rightarrow> fork_slot \<Rightarrow>
    ('v2, 'r2, 'l2, 'f2) nix_host \<Rightarrow> (nat \<Rightarrow> 'f2 service_view) \<Rightarrow> client_world \<Rightarrow> client_world" where
  "evaluating_machine render config h hv fork_fds parent parent_st slot rh sv cl = cl\<lparr>
     cl_spawn := (\<lambda>n exe files fds. map_sum id (\<lambda>c. c\<lparr>wp_replies := local_replies (nh_api h) (nh_nix h) (nh_fs h)
         render (nh_cloexec h) fds (hv_world hv n) (hv_state hv n), wp_read := 0, wp_sent := []\<rparr>)
       (cl_spawn cl n exe files fds)),
     cl_forked := (cl_forked cl)\<lparr>wp_replies := slot_replies render h fork_fds parent parent_st config slot,
       wp_read := 0, wp_sent := []\<rparr>,
     cl_tcp := (\<lambda>n. map_sum id (\<lambda>s. s\<lparr>rw_replies := service_replies render rh (sv n), rw_read := 0, rw_sent := []\<rparr>)
       (cl_tcp cl n))\<rparr>"

interpretation machine: worker_machine config "\<lambda>p e. host_evaluates render h config p e \<or> host_evaluates render rh config p e"
  "evaluating_machine render config h hv fork_fds parent parent_st slot rh sv cl"
proof
  let ?A = "\<lambda>p e. host_evaluates render h config p e \<or> host_evaluates render rh config p e"
  let ?cl = "evaluating_machine render config h hv fork_fds parent parent_st slot rh sv cl"
  show "worker_contract config ?A (wp_replies w) \<and> wp_read w = 0 \<and> wp_sent w = []"
    if "cl_spawn ?cl n exe files fds = Inr w" for n exe files fds w
  proof -
    from that have w: "wp_replies w = local_replies (nh_api h) (nh_nix h) (nh_fs h) render (nh_cloexec h) fds
        (hv_world hv n) (hv_state hv n)" "wp_read w = 0" "wp_sent w = []"
      by (cases "cl_spawn cl n exe files fds"; auto simp: evaluating_machine_def)+
    have "worker_contract config ?A (wp_replies w)"
      unfolding w(1) by (rule worker_contract_mono [OF local_worker.worker_contract_axioms])
        (auto simp: host_evaluates_def)
    with w(2,3) show ?thesis by blast
  qed
  show "worker_contract config ?A (wp_replies (cl_forked ?cl)) \<and> wp_read (cl_forked ?cl) = 0 \<and>
      wp_sent (cl_forked ?cl) = []"
    unfolding evaluating_machine_def
    by (simp, rule worker_contract_mono [OF forked_worker.worker_contract_axioms]) simp
  show "remote_contract config ?A (rw_replies s) \<and> rw_read s = 0 \<and> rw_sent s = []"
    if "cl_tcp ?cl n = Inr s" for n s
  proof -
    from that have s: "rw_replies s = service_replies render rh (sv n)" "rw_read s = 0" "rw_sent s = []"
      by (cases "cl_tcp cl n"; auto simp: evaluating_machine_def)+
    have "remote_contract config ?A (rw_replies s)"
      unfolding s(1) service_replies_def
      by (rule remote_contract_mono [OF remote_service.remote_contract_axioms]) (auto simp: host_evaluates_def)
    with s(2,3) show ?thesis by blast
  qed
qed

section \<open>Every command is answered\<close>

lemma after_answer_connects:
  assumes "\<forall>ct. \<not> isl (fst (client_connect render cl config spec ct))"
  shows "\<not> isl (fst (after_answer render cl tw config spec j r c ct))"
proof -
  have reconnect: "\<not> isl (fst (client_reconnect render cl config spec c' ct))" for c'
    using assms by (auto simp: client_reconnect_def split: prod.splits sum.splits) (metis fst_conv sum.disc(1))
  then show ?thesis
    by (auto simp: after_answer_def client_restart_def Let_def split: worker_client.splits)
qed

lemma serve_loop_answers_all:
  assumes "\<forall>ct. \<not> isl (fst (client_connect render cl config spec ct))"
    and "\<forall>j. \<not> tw_cancel tw j \<and> \<not> tw_closed tw j"
  shows "\<exists>rs c'. length rs = length items \<and>
    serve_loop render cl tw config spec (map CommandWork items @ [CommandStop]) j c ct =
      (map2 (WorkResult (sp_id spec)) items rs, Inr (), c')"
proof (induction items arbitrary: j c ct)
  case Nil
  then show ?case using assms(2) by simp
next
  case (Cons item items)
  obtain r c1 where work: "work_with_timeout render tw config spec j item c = (r, c1)" by force
  obtain u c2 ct2 where after: "after_answer render cl tw config spec j r c1 ct = (Inr u, c2, ct2)"
    using after_answer_connects [OF assms(1), of tw j r c1 ct] by (metis fst_conv isl_def old.sum.exhaust prod_cases3)
  from Cons.IH [of "Suc j" c2 ct2] obtain rs c' where rs: "length rs = length items"
    "serve_loop render cl tw config spec (map CommandWork items @ [CommandStop]) (Suc j) c2 ct2 =
      (map2 (WorkResult (sp_id spec)) items rs, Inr (), c')" by blast
  from assms(2) work after rs show ?case
    by (intro exI [of _ "and_then r (\<lambda>x. Inr (fst x)) # rs"] exI [of _ c']) (simp add: Let_def)
qed

section \<open>The claims\<close>

text \<open>
  C4. What a worker's task tells the coordinator, over the whole way to the evaluator: for the
  commands it was given, in order, at most one answer each, under its own number and for the
  item of the command, and an answer that is an event is what a worker process of this machine
  or of the remote one, started for the configuration of the run, gave for that path. That
  holds through restarts, reconnections, time limits, forks and panics; the rest is at most
  the readiness of a forked worker before, and after the answers the notice of a cancellation
  and the error the task ended with.
\<close>

theorem task_answers_its_commands:
  assumes "flag_stays tw"
    and "worker_task render panicked exit_closed (serve_worker render
      (evaluating_machine render config h hv fork_fds parent parent_st slot rh sv cl)
      tw early ready_closed config spec commands) = (ms, result)"
  shows "\<exists>ready answers exit. ms = ready @ answers @ exit \<and>
    (ready = [] \<or> is_forked spec \<and> ready = [Ready (sp_id spec)]) \<and>
    task_says (\<lambda>p e. host_evaluates render h config p e \<or> host_evaluates render rh config p e)
      (sp_id spec) commands answers \<and>
    (exit = [] \<or> (\<exists>err. result = Inl err \<and> exit = [Exited (render err)]))"
proof -
  let ?cl = "evaluating_machine render config h hv fork_fds parent parent_st slot rh sv cl"
  let ?A = "\<lambda>p e. host_evaluates render h config p e \<or> host_evaluates render rh config p e"
  let ?served = "fst (serve_worker render ?cl tw early ready_closed config spec commands)"
  have served: "service_says ?A spec commands ?served" by (rule machine.serve_worker_says [OF assms(1)])
  from worker_task_messages [OF assms(2)] obtain n exit where ms: "ms = take n ?served @ exit"
    and exit: "exit = [] \<or> (\<exists>err. result = Inl err \<and> exit = [Exited (render err)])" by blast
  from service_says_take [OF served, of n] obtain ready answers where "take n ?served = ready @ answers"
    "ready = [] \<or> is_forked spec \<and> ready = [Ready (sp_id spec)]" "task_says ?A (sp_id spec) commands answers"
    unfolding service_says_def by blast
  with ms exit show ?thesis by (intro exI [of _ ready] exI [of _ answers] exI [of _ exit]) simp
qed

text \<open>
  C5. No command is lost: as long as connections come up, the flag is not set and the
  coordinator listens, a task answers each of its commands exactly once and in order, however
  its workers fail, run out of time or restart, and then ends well when it is stopped.
\<close>

theorem every_command_is_answered:
  assumes "\<forall>ct. \<not> isl (fst (client_connect render cl config spec ct))"
    and "\<forall>j. \<not> tw_cancel tw j \<and> \<not> tw_closed tw j"
    and "\<not> (is_forked spec \<and> (early \<or> ready_closed))"
  shows "\<exists>rs c. length rs = length items \<and>
    serve_worker render cl tw early ready_closed config spec (map CommandWork items @ [CommandStop]) =
      ((if is_forked spec then [Ready (sp_id spec)] else []) @ map2 (WorkResult (sp_id spec)) items rs, Inr (), Some c)"
proof -
  obtain c ct where connected: "client_connect render cl config spec (initial_client_state spec) = (Inr c, ct)"
    using assms(1) by (metis fst_conv isl_def old.sum.exhaust surj_pair)
  obtain rs c' where "length rs = length items"
    "serve_loop render cl tw config spec (map CommandWork items @ [CommandStop]) 0 c ct =
      (map2 (WorkResult (sp_id spec)) items rs, Inr (), c')"
    using serve_loop_answers_all [OF assms(1,2)] by blast
  with connected assms(3) show ?thesis by (auto simp: serve_worker_def)
qed

lemma run_evaluation_completed:
  assumes "run_evaluation render na absolute joined open_slot ts joins c = (events, Some (Inr Completed))"
    and "\<forall>specs. worker_specs open_slot c = Inr specs \<longrightarrow> turns_ok answer render specs ts (initial_sys specs)"
    and "depth_bounded answer d"
  shows "mset events = mset (map answer (attr_tree answer d)) \<and> validate_config c = Inr () \<and>
    (\<exists>wc specs. run_setup na absolute joined open_slot c = Inr (wc, specs) \<and> specs \<noteq> [] \<and>
       set (joins wc specs) \<subseteq> {JoinOk (Inr ())})"
proof -
  from assms(1) obtain wc specs where started: "run_setup na absolute joined open_slot c = Inr (wc, specs)"
    by (auto simp: run_evaluation_def split: sum.splits)
  then have specs: "worker_specs open_slot c = Inr specs" "validate_config c = Inr ()" "specs \<noteq> []"
    by (auto simp: run_setup_def and_then_Ok_iff split: if_splits)
  from assms(1) started obtain y result where run: "sys_run render specs ts (initial_sys specs) = (y, Some result)"
    and events: "events = y_emitted y"
    and ended: "and_then (if result = Inr Cancelled then abort_workers (joins wc specs)
      else shutdown_workers (joins wc specs)) (\<lambda>_. result) = Inr Completed"
    by (auto simp: run_evaluation_def split: prod.splits option.splits)
  from ended have result: "result = Inr Completed" "shutdown_workers (joins wc specs) = Inr ()"
    by (auto simp: and_then_Ok_iff split: if_splits)
  have "set js \<subseteq> {JoinOk (Inr ())}" if "shutdown_workers js = Inr ()" for js
    using that by (induction js rule: shutdown_workers.induct) (auto simp: and_then_Ok_iff)
  with result(2) have joins: "set (joins wc specs) \<subseteq> {JoinOk (Inr ())}" by blast
  have "turns_ok answer render specs ts (initial_sys specs)" using assms(2) specs(1) by blast
  note done' = sys_run_completed [OF sys_inv_initial this run [unfolded result(1)]]
  then have "mset (map fst (y_done y)) = mset (attr_tree answer d)"
    using assms(3) closed_paths_tree by blast
  then have "mset events = mset (map answer (attr_tree answer d))"
    using done' events by (metis mset_map)
  with specs joins started show ?thesis by blast
qed

text \<open>
  C3. A run that reports completion is one: its configuration was valid, there was a worker,
  the events that reached the sink are the attribute tree, and every worker's task had ended
  without an error.
\<close>

theorem completed_run_is_complete:
  assumes "run_evaluation render na absolute joined open_slot ts joins c = (events, Some (Inr Completed))"
    and "\<forall>specs. worker_specs open_slot c = Inr specs \<longrightarrow> turns_ok answer render specs ts (initial_sys specs)"
    and "depth_bounded answer d"
  shows "mset events = mset (map answer (attr_tree answer d)) \<and> validate_config c = Inr () \<and>
    (\<exists>wc specs. run_setup na absolute joined open_slot c = Inr (wc, specs) \<and> specs \<noteq> [] \<and>
       set (joins wc specs) \<subseteq> {JoinOk (Inr ())})"
  by (rule run_evaluation_completed [OF assms])

subsection \<open>A concrete task\<close>

definition ex_host :: "(json, string, json, (path \<times> path) list) nix_host" where
  "ex_host = \<lparr>nh_api = ex_api, nh_nix = (\<lambda>_. ex_nix), nh_fs = ex_fs, nh_cloexec = (\<lambda>_. Inr ())\<rparr>"

definition ex_view :: "(path \<times> path) list host_view" where
  "ex_view = \<lparr>hv_world = (\<lambda>_. ex_world), hv_state = (\<lambda>_. [])\<rparr>"

definition ex_service :: "nat \<Rightarrow> (path \<times> path) list service_view" where
  "ex_service n = \<lparr>sv_host = ex_view, sv_env = (\<lambda>_. ex_env), sv_child = (\<lambda>_ _ _ _. Inr ex_remote_child),
     sv_late = (\<lambda>_. False), sv_connection = ex_connection\<rparr>"

definition ex_clients :: client_world where
  "ex_clients =
     \<lparr>cl_env = (\<lambda>_. ex_env), cl_spawn = (\<lambda>_ _ _ _. Inr ex_remote_child), cl_spawn_late = (\<lambda>_. False),
      cl_slot = (\<lambda>n. \<lparr>sl_socket = 5, sl_stderr = 6\<rparr>), cl_pid = PidEof, cl_pidfd = (\<lambda>_. Inr ()),
      cl_attach_late = False, cl_forked = ex_remote_child, cl_store_dir = (\<lambda>_. Inr ''/nix/store''),
      cl_tcp = (\<lambda>_. Inr ex_stream), cl_nodelay = (\<lambda>_. Inr ()), cl_keepalive = (\<lambda>_. Inr ())\<rparr>"

definition ex_machine :: client_world where
  "ex_machine = evaluating_machine (\<lambda>_. []) ex_worker_config ex_host ex_view None ex_world []
     \<lparr>sl_socket = 5, sl_stderr = 6\<rparr> ex_host ex_service ex_clients"

definition ex_task :: task_world where
  "ex_task = \<lparr>tw_cancel = (\<lambda>_. False), tw_cancel_after = (\<lambda>_. False), tw_closed = (\<lambda>_. False),
     tw_late = (\<lambda>j. j = 2), tw_cut = (\<lambda>_ c. c)\<rparr>"

definition ex_spec :: worker_spec where
  "ex_spec = \<lparr>sp_id = 0, sp_label = ''local'', sp_kind = Local None ForkNone\<rparr>"

definition ex_items :: "work_item list" where
  "ex_items = [WorkItem [], WorkItem [''a''], WorkItem [''s''], WorkItem [''s'']]"

definition ex_served :: "worker_message list \<times> unit result \<times> worker_client option" where
  "ex_served = serve_worker (\<lambda>_. []) ex_machine ex_task False False ex_worker_config ex_spec
     (map CommandWork ex_items @ [CommandStop])"

text \<open>The worker restarts after the second item, and the third runs out of time.\<close>

lemma ex_served_messages:
  "map (\<lambda>m. case m of WorkResult w item r \<Rightarrow> (w, wi_path item, isl r) | _ \<Rightarrow> (9, [], True)) (fst ex_served) =
     [(0, [], False), (0, [''a''], False), (0, [''s''], True), (0, [''s''], False)]"
  by code_simp

lemma ex_served_ok: "fst (snd ex_served) = Inr ()"
  by code_simp

theorem task_answers_its_commands_witness:
  "task_says (host_evaluates (\<lambda>_. []) ex_host ex_worker_config) 0 (map CommandWork ex_items @ [CommandStop])
     (fst ex_served)"
proof -
  have flag: "flag_stays ex_task" by (simp add: flag_stays_def ex_task_def)
  have task: "worker_task (\<lambda>_. []) None True (serve_worker (\<lambda>_. [])
      (evaluating_machine (\<lambda>_. []) ex_worker_config ex_host ex_view None ex_world []
        \<lparr>sl_socket = 5, sl_stderr = 6\<rparr> ex_host ex_service ex_clients)
      ex_task False False ex_worker_config ex_spec (map CommandWork ex_items @ [CommandStop])) = (fst ex_served, Inr ())"
    unfolding ex_machine_def [symmetric] ex_served_def [symmetric] using ex_served_ok
    by (simp add: worker_task_def case_prod_beta)
  from task_answers_its_commands [OF flag task] show ?thesis
    by (auto simp: ex_spec_def is_forked_def)
qed

text \<open>The same task with the worlds of the other claim.\<close>

lemma ex_connects: "\<not> isl (fst (client_connect (\<lambda>_. []) ex_machine ex_worker_config ex_spec ct))"
proof -
  have "client_connect (\<lambda>_. []) ex_machine ex_worker_config ex_spec ct =
      (client_spawn (\<lambda>_. []) ex_machine ex_worker_config ''local'' None [] (ct_connects ct), ct\<lparr>ct_connects := Suc (ct_connects ct)\<rparr>)"
    by (simp add: client_connect_def ex_spec_def Let_def)
  moreover have "client_spawn (\<lambda>_. []) ex_machine ex_worker_config ''local'' None [] n =
      client_spawn (\<lambda>_. []) ex_machine ex_worker_config ''local'' None [] 0" for n
    by (simp add: client_spawn_def ex_machine_def evaluating_machine_def ex_clients_def ex_view_def)
  moreover have "\<not> isl (client_spawn (\<lambda>_. []) ex_machine ex_worker_config ''local'' None [] 0)" by code_simp
  ultimately show ?thesis by (metis fst_conv)
qed

theorem every_command_is_answered_witness:
  "\<exists>rs. length rs = length ex_items \<and> fst ex_served = map2 (WorkResult 0) ex_items rs"
proof -
  have "\<forall>j. \<not> tw_cancel ex_task j \<and> \<not> tw_closed ex_task j" by (simp add: ex_task_def)
  with every_command_is_answered [of "\<lambda>_. []" ex_machine ex_worker_config ex_spec ex_task False False ex_items]
    ex_connects show ?thesis
    by (auto simp: ex_served_def ex_spec_def is_forked_def)
qed

definition ex_joins :: "worker_config \<Rightarrow> worker_spec list \<Rightarrow> join list" where
  "ex_joins wc specs = map (\<lambda>_. JoinOk (Inr ())) specs"

lemma ex_run_joined:
  assumes "snd (sys_run ex_render ex_specs ts (initial_sys ex_specs)) = Some (Inr Completed)"
  shows "snd (run_evaluation ex_render ex_api Inr (Inr ()) Inr ts ex_joins ex_config) = Some (Inr Completed)"
proof -
  have "c_input ex_config = InputExpr ''{}''" "validate_config ex_config = Inr ()" by code_simp+
  then have "\<exists>wc. run_setup ex_api Inr (Inr ()) Inr ex_config = Inr (wc, ex_specs)"
    by (simp add: run_setup_def ex_worker_specs master_worker_config_def export_locked_flake_def worker_config_of_def
        ex_specs_def)
  with assms show ?thesis
    by (auto simp: run_evaluation_def ex_joins_def ex_specs_def split: prod.splits option.splits)
qed

theorem completed_run_is_complete_witness:
  "mset (fst (run_evaluation ex_render ex_api Inr (Inr ()) Inr ex_turns ex_joins ex_config)) =
     mset (map ex_answer [[], [''a''], [''b'']]) \<and> validate_config ex_config = Inr ()"
proof -
  let ?run = "run_evaluation ex_render ex_api Inr (Inr ()) Inr ex_turns ex_joins ex_config"
  have "snd ?run = Some (Inr Completed)" by (rule ex_run_joined [OF ex_run_completes])
  then have run: "?run = (fst ?run, Some (Inr Completed))" by (simp add: prod_eq_iff)
  have "\<forall>specs. worker_specs Inr ex_config = Inr specs \<longrightarrow> turns_ok ex_answer ex_render specs ex_turns (initial_sys specs)"
    using ex_turns_ok by (simp add: ex_worker_specs)
  from completed_run_is_complete [OF run this ex_depth_bounded] show ?thesis
    by (simp add: attr_tree_def ex_answer_def)
qed

end
