(* ===== verification/Daemon_Signals.thy ===== *)
theory Daemon_Signals
  imports Daemon Descriptors
begin

unbundle bit_operations_syntax

text \<open>
  The daemon process itself (\<open>crates/evix-daemon/src/lib.rs\<close>): its descriptor table with the
  redirection of the standard streams, the shutdown handlers with the pipe they write to, and
  the accept loop those handlers stop. A process is what these functions change of it; how a
  system call ended is an argument, and the moments at which signals arrive are part of the
  turns of the accept loop.
\<close>

section \<open>A process\<close>

datatype signal = SIGINT | SIGTERM

datatype action = DefaultAction | OtherAction nat | ShutdownHandler

text \<open>
  The open descriptors, the signal actions, the two static variables \<open>SHUTDOWN_REQUESTED\<close> and
  \<open>SHUTDOWN_SIGNAL_WRITE_FD\<close>, and the bytes waiting in the shutdown pipe.
\<close>

record process =
  pr_fds :: fd_table
  pr_actions :: "signal \<Rightarrow> action"
  pr_requested :: bool
  pr_signal_fd :: int
  pr_pipe :: nat

definition close_fd :: "int \<Rightarrow> process \<Rightarrow> process" where
  "close_fd fd p = p\<lparr>pr_fds := (pr_fds p)(fd := None)\<rparr>"

section \<open>The standard streams\<close>

text \<open>\<open>duplicate\<close> is what \<open>F_DUPFD_CLOEXEC\<close> returned.\<close>

definition stable_source_fd :: "int \<Rightarrow> int \<Rightarrow> process \<Rightarrow> int result \<times> process" where
  "stable_source_fd duplicate fd p =
     (if 2 < fd then (Inr fd, p)
      else if duplicate < 0 then (with_context ''duplicating /dev/null descriptor'' (external ''io''), p)
      else (Inr duplicate, p\<lparr>pr_fds := (pr_fds p)(duplicate :=
        map_option (\<lambda>d. d\<lparr>de_flags := FD_CLOEXEC\<rparr>) (pr_fds p fd))\<rparr>))"

text \<open>The \<open>File\<close> for \<open>/dev/null\<close> closes its descriptor when the function returns, on every path.\<close>

definition redirect_stdio_to_dev_null ::
  "int result \<Rightarrow> int \<Rightarrow> (int \<Rightarrow> bool) \<Rightarrow> process \<Rightarrow> unit result \<times> process" where
  "redirect_stdio_to_dev_null opened duplicate dup2_ok p =
     (case with_context ''opening /dev/null for daemon stdio'' opened of
        Inl e \<Rightarrow> (Inl e, p)
      | Inr dev_null \<Rightarrow>
          let p1 = p\<lparr>pr_fds := (pr_fds p)(dev_null \<mapsto>
                \<lparr>de_target = ''/dev/null'', de_flags = FD_CLOEXEC, de_status = 0\<rparr>)\<rparr>
          in case stable_source_fd duplicate dev_null p1 of
               (Inl e, p2) \<Rightarrow> (Inl e, close_fd dev_null p2)
             | (Inr source, p2) \<Rightarrow>
                 (case dup2_all dup2_ok (map (Pair source) [0, 1, 2]) (pr_fds p2) of (ok, fds) \<Rightarrow>
                    let p3 = p2\<lparr>pr_fds := fds\<rparr>;
                        p4 = (if source \<noteq> dev_null then close_fd source p3 else p3)
                    in ((if ok then Inr ()
                         else with_context ''redirecting daemon stdio to /dev/null'' (external ''io'')),
                        close_fd dev_null p4)))"

section \<open>Shutdown signals\<close>

definition set_fd_cloexec :: "bool \<Rightarrow> bool \<Rightarrow> int \<Rightarrow> process \<Rightarrow> unit result \<times> process" where
  "set_fd_cloexec get_ok set_ok fd p =
     (case pr_fds p fd of
        None \<Rightarrow> (with_context ''reading fd flags'' (external ''io''), p)
      | Some d \<Rightarrow>
          if \<not> get_ok then (with_context ''reading fd flags'' (external ''io''), p)
          else if \<not> set_ok then (with_context ''setting fd cloexec'' (external ''io''), p)
          else (Inr (), p\<lparr>pr_fds := (pr_fds p)(fd \<mapsto> d\<lparr>de_flags := de_flags d OR FD_CLOEXEC\<rparr>)\<rparr>))"

definition set_fd_nonblocking :: "bool \<Rightarrow> bool \<Rightarrow> int \<Rightarrow> process \<Rightarrow> unit result \<times> process" where
  "set_fd_nonblocking get_ok set_ok fd p =
     (case pr_fds p fd of
        None \<Rightarrow> (with_context ''reading fd status'' (external ''io''), p)
      | Some d \<Rightarrow>
          if \<not> get_ok then (with_context ''reading fd status'' (external ''io''), p)
          else if \<not> set_ok then (with_context ''setting fd nonblocking'' (external ''io''), p)
          else (Inr (), p\<lparr>pr_fds := (pr_fds p)(fd \<mapsto> d\<lparr>de_status := de_status d OR O_NONBLOCK\<rparr>)\<rparr>))"

text \<open>How the calls of \<open>ShutdownSignals::install\<close> ended; \<open>sc_fcntl i\<close> is its \<open>i\<close>-th \<open>fcntl\<close>.\<close>

record signal_calls =
  sc_pipe :: "(int \<times> int) result"
  sc_fcntl :: "nat \<Rightarrow> bool"
  sc_sigemptyset :: "signal \<Rightarrow> bool"
  sc_sigaction :: "signal \<Rightarrow> bool"

definition configure_signal_pipe :: "signal_calls \<Rightarrow> int \<Rightarrow> int \<Rightarrow> process \<Rightarrow> unit result \<times> process" where
  "configure_signal_pipe sc read_fd write_fd p =
     (case set_fd_cloexec (sc_fcntl sc 0) (sc_fcntl sc 1) read_fd p of
        (Inl e, p1) \<Rightarrow> (Inl e, p1)
      | (Inr _, p1) \<Rightarrow>
          (case set_fd_cloexec (sc_fcntl sc 2) (sc_fcntl sc 3) write_fd p1 of
             (Inl e, p2) \<Rightarrow> (Inl e, p2)
           | (Inr _, p2) \<Rightarrow> set_fd_nonblocking (sc_fcntl sc 4) (sc_fcntl sc 5) write_fd p2))"

definition install_shutdown_handler :: "signal_calls \<Rightarrow> signal \<Rightarrow> process \<Rightarrow> action result \<times> process" where
  "install_shutdown_handler sc s p =
     (if \<not> sc_sigemptyset sc s then (with_context ''initializing signal mask'' (external ''io''), p)
      else if \<not> sc_sigaction sc s then (with_context ''installing daemon signal handler'' (external ''io''), p)
      else (Inr (pr_actions p s), p\<lparr>pr_actions := (pr_actions p)(s := ShutdownHandler)\<rparr>))"

definition restore_signal_handler :: "signal \<Rightarrow> action \<Rightarrow> process \<Rightarrow> process" where
  "restore_signal_handler s old p = p\<lparr>pr_actions := (pr_actions p)(s := old)\<rparr>"

record shutdown_signals =
  sh_read_fd :: int
  sh_write_fd :: int
  sh_old_int :: action
  sh_old_term :: action

definition fresh_end :: descriptor where
  "fresh_end = \<lparr>de_target = ''pipe'', de_flags = 0, de_status = 0\<rparr>"

definition install :: "signal_calls \<Rightarrow> process \<Rightarrow> shutdown_signals result \<times> process" where
  "install sc p =
     (case with_context ''creating daemon shutdown pipe'' (sc_pipe sc) of
        Inl e \<Rightarrow> (Inl e, p)
      | Inr (r, w) \<Rightarrow>
          let p0 = p\<lparr>pr_fds := (pr_fds p)(r \<mapsto> fresh_end, w \<mapsto> fresh_end), pr_pipe := 0\<rparr>
          in case configure_signal_pipe sc r w p0 of
               (Inl e, p1) \<Rightarrow> (Inl e, close_fd w (close_fd r p1))
             | (Inr _, p1) \<Rightarrow>
                 let p2 = p1\<lparr>pr_signal_fd := w\<rparr>
                 in case install_shutdown_handler sc SIGINT p2 of
                      (Inl e, p3) \<Rightarrow> (Inl e, close_fd w (close_fd r (p3\<lparr>pr_signal_fd := - 1\<rparr>)))
                    | (Inr old_int, p3) \<Rightarrow>
                        (case install_shutdown_handler sc SIGTERM p3 of
                           (Inl e, p4) \<Rightarrow>
                             (Inl e, close_fd w (close_fd r
                               ((restore_signal_handler SIGINT old_int p4)\<lparr>pr_signal_fd := - 1\<rparr>)))
                         | (Inr old_term, p4) \<Rightarrow>
                             (Inr \<lparr>sh_read_fd = r, sh_write_fd = w, sh_old_int = old_int,
                                sh_old_term = old_term\<rparr>, p4)))"

text \<open>\<open>Drop for ShutdownSignals\<close>; what was in the pipe goes with its last descriptor.\<close>

definition drop_signals :: "shutdown_signals \<Rightarrow> process \<Rightarrow> process" where
  "drop_signals sh p =
     (let p1 = restore_signal_handler SIGTERM (sh_old_term sh) (restore_signal_handler SIGINT (sh_old_int sh) p);
          p2 = close_fd (sh_write_fd sh) (close_fd (sh_read_fd sh) (p1\<lparr>pr_signal_fd := - 1\<rparr>))
      in p2\<lparr>pr_pipe := 0\<rparr>)"

text \<open>A write to a full nonblocking pipe fails, which the handler ignores.\<close>

definition PIPE_CAPACITY :: nat where
  "PIPE_CAPACITY = 65536"

definition handle_shutdown_signal :: "process \<Rightarrow> process" where
  "handle_shutdown_signal p =
     (let p1 = p\<lparr>pr_requested := True\<rparr>
      in if 0 \<le> pr_signal_fd p1 \<and> pr_pipe p1 < PIPE_CAPACITY then p1\<lparr>pr_pipe := Suc (pr_pipe p1)\<rparr> else p1)"

definition deliver :: "signal \<Rightarrow> process \<Rightarrow> process" where
  "deliver s p = (if pr_actions p s = ShutdownHandler then handle_shutdown_signal p else p)"

section \<open>The accept loop\<close>

text \<open>
  What happens while the loop waits, in order: a signal that arrives before the next call of
  \<open>poll\<close>, one (of the two, or another) that interrupts the call, the call failing, a
  connection. The call has no time-out: it returns once a connection is there or the pipe's
  end is readable, which it is exactly when bytes wait in it, and at once when it already is;
  when neither comes to be, the wait goes on (\<open>None\<close>).
\<close>

datatype wait_event = SignalArrives signal | PollInterrupted "signal option" | PollFailed | ConnectionComes

fun wait_for_connection_or_shutdown :: "wait_event list \<Rightarrow> process \<Rightarrow> bool result option \<times> process" where
  "wait_for_connection_or_shutdown [] p =
     (if 0 < pr_pipe p then Some (Inr True) else None, p)"
| "wait_for_connection_or_shutdown (SignalArrives s # es) p =
     wait_for_connection_or_shutdown es (deliver s p)"
| "wait_for_connection_or_shutdown (PollInterrupted s # es) p =
     (if 0 < pr_pipe p then (Some (Inr True), p)
      else
        let p' = (case s of None \<Rightarrow> p | Some s \<Rightarrow> deliver s p)
        in if pr_requested p' then (Some (Inr True), p') else wait_for_connection_or_shutdown es p')"
| "wait_for_connection_or_shutdown (PollFailed # es) p =
     (Some (with_context ''polling daemon listener'' (external ''io'')), p)"
| "wait_for_connection_or_shutdown (ConnectionComes # es) p =
     (Some (Inr (pr_requested p \<or> 0 < pr_pipe p)), p)"

datatype accepted = Accepted sock | AcceptInterrupted | AcceptFailed

text \<open>
  One turn: the connection threads that ended since the last one, the signals before the
  loop's test, while it waits, and between the wait and \<open>accept\<close>, and what \<open>accept\<close> gave.
\<close>

record accept_turn =
  tu_released :: nat
  tu_head :: "signal list"
  tu_wait :: "wait_event list"
  tu_late :: "signal list"
  tu_accept :: accepted

text \<open>
  The result (\<open>None\<close>: the loop is still running after these turns), the process, the limiter,
  and each accepted connection with whether a thread serves it.
\<close>

fun serve_connections ::
  "env \<Rightarrow> accept_turn list \<Rightarrow> process \<Rightarrow> limiter \<Rightarrow>
    unit result option \<times> process \<times> limiter \<times> (bool \<times> sock) list" where
  "serve_connections en [] p l = (None, p, l, [])"
| "serve_connections en (t # ts) p l =
     (let p1 = fold deliver (tu_head t) p;
          l1 = (release ^^ tu_released t) l
      in if pr_requested p1 then (Some (Inr ()), p1, l1, [])
         else
           (case wait_for_connection_or_shutdown (tu_wait t) p1 of
              (None, p2) \<Rightarrow> (None, p2, l1, [])
            | (Some (Inl e), p2) \<Rightarrow> (Some (Inl e), p2, l1, [])
            | (Some (Inr True), p2) \<Rightarrow> (Some (Inr ()), p2, l1, [])
            | (Some (Inr False), p2) \<Rightarrow>
                let p3 = fold deliver (tu_late t) p2
                in case tu_accept t of
                     Accepted k \<Rightarrow>
                       (case serve_accept en l1 k of (served, l2, k') \<Rightarrow>
                          (case serve_connections en ts p3 l2 of (r, p4, l3, conns) \<Rightarrow>
                             (r, p4, l3, (served, k') # conns)))
                   | _ \<Rightarrow> serve_connections en ts p3 l1))"


section \<open>What the handlers promise\<close>

text \<open>Configuring the pipe only touches its two descriptors.\<close>

lemma set_fd_frame:
  "set_fd_cloexec g s fd p = (res, p') \<Longrightarrow> \<exists>d. p' = p\<lparr>pr_fds := (pr_fds p)(fd := d)\<rparr>"
  "set_fd_nonblocking g s fd p = (res, p') \<Longrightarrow> \<exists>d. p' = p\<lparr>pr_fds := (pr_fds p)(fd := d)\<rparr>"
proof -
  have "p = p\<lparr>pr_fds := (pr_fds p)(fd := pr_fds p fd)\<rparr>" by simp
  then show "set_fd_cloexec g s fd p = (res, p') \<Longrightarrow> \<exists>d. p' = p\<lparr>pr_fds := (pr_fds p)(fd := d)\<rparr>"
    and "set_fd_nonblocking g s fd p = (res, p') \<Longrightarrow> \<exists>d. p' = p\<lparr>pr_fds := (pr_fds p)(fd := d)\<rparr>"
    unfolding set_fd_cloexec_def set_fd_nonblocking_def
    by (auto simp del: fun_upd_triv split: option.splits if_splits)
qed

lemma configure_signal_pipe_frame:
  assumes "configure_signal_pipe sc r w p = (res, p')"
  shows "\<exists>x y. p' = p\<lparr>pr_fds := (pr_fds p)(r := x, w := y)\<rparr>"
proof -
  obtain r1 p1 where 1: "set_fd_cloexec (sc_fcntl sc 0) (sc_fcntl sc 1) r p = (r1, p1)" by force
  obtain r2 p2 where 2: "set_fd_cloexec (sc_fcntl sc 2) (sc_fcntl sc 3) w p1 = (r2, p2)" by force
  obtain r3 p3 where 3: "set_fd_nonblocking (sc_fcntl sc 4) (sc_fcntl sc 5) w p2 = (r3, p3)" by force
  obtain x where x: "p1 = p\<lparr>pr_fds := (pr_fds p)(r := x)\<rparr>" using set_fd_frame(1) [OF 1] by blast
  obtain y where y: "p2 = p1\<lparr>pr_fds := (pr_fds p1)(w := y)\<rparr>" using set_fd_frame(1) [OF 2] by blast
  obtain z where z: "p3 = p2\<lparr>pr_fds := (pr_fds p2)(w := z)\<rparr>" using set_fd_frame(2) [OF 3] by blast
  have "p' \<in> {p1, p2, p3}"
    using assms 1 2 3 by (auto simp: configure_signal_pipe_def split: sum.splits)
  moreover have "p1 = p\<lparr>pr_fds := (pr_fds p)(r := x, w := pr_fds p1 w)\<rparr>"
    using x by (cases "r = w") (simp_all add: fun_upd_idem)
  moreover have "p2 = p\<lparr>pr_fds := (pr_fds p)(r := x, w := y)\<rparr>" using x y by simp
  moreover have "p3 = p\<lparr>pr_fds := (pr_fds p)(r := x, w := z)\<rparr>" using x y z by simp
  ultimately show ?thesis by blast
qed

text \<open>A process before its handlers are installed, and the descriptors \<open>pipe\<close> may give it.\<close>

definition unarmed :: "process \<Rightarrow> bool" where
  "unarmed p \<longleftrightarrow> \<not> pr_requested p \<and> pr_signal_fd p = - 1 \<and> pr_pipe p = 0"

definition fresh_pipe :: "signal_calls \<Rightarrow> process \<Rightarrow> bool" where
  "fresh_pipe sc p \<longleftrightarrow>
     (case sc_pipe sc of Inl _ \<Rightarrow> True
      | Inr (r, w) \<Rightarrow> r \<noteq> w \<and> 0 \<le> r \<and> 0 \<le> w \<and> pr_fds p r = None \<and> pr_fds p w = None)"

text \<open>What serving rests on: both handlers are in place, and a request is also in the pipe.\<close>

definition armed :: "process \<Rightarrow> bool" where
  "armed p \<longleftrightarrow> (\<forall>s. pr_actions p s = ShutdownHandler) \<and> 0 \<le> pr_signal_fd p \<and>
     (pr_requested p \<longrightarrow> 0 < pr_pipe p)"

lemma all_signals: "(\<forall>s. P s) \<longleftrightarrow> P SIGINT \<and> P SIGTERM"
  by (metis signal.exhaust)

lemma install_cases:
  assumes "install sc p = (res, p')" and "unarmed p" and "fresh_pipe sc p"
  shows "(\<exists>e. res = Inl e) \<and> p' = p \<or>
    (\<exists>r w d d'. r \<noteq> w \<and> 0 \<le> w \<and> pr_fds p r = None \<and> pr_fds p w = None \<and>
       res = Inr \<lparr>sh_read_fd = r, sh_write_fd = w, sh_old_int = pr_actions p SIGINT,
         sh_old_term = pr_actions p SIGTERM\<rparr> \<and>
       p' = p\<lparr>pr_fds := (pr_fds p)(r := d, w := d'), pr_actions := (\<lambda>_. ShutdownHandler), pr_signal_fd := w\<rparr>)"
proof (cases "sc_pipe sc")
  case (Inl e)
  then obtain e' where "with_context ''creating daemon shutdown pipe'' (sc_pipe sc) = Inl e'"
    by (cases e) simp
  with assms(1) show ?thesis by (auto simp: install_def)
next
  case (Inr rw)
  then obtain r w where rw: "sc_pipe sc = Inr (r, w)" by (cases rw) simp
  then have fresh: "r \<noteq> w" "0 \<le> r" "0 \<le> w" "pr_fds p r = None" "pr_fds p w = None"
    using assms(3) by (auto simp: fresh_pipe_def)
  have q: "pr_pipe p = 0" "p\<lparr>pr_signal_fd := - 1\<rparr> = p" using assms(2) by (simp_all add: unarmed_def)
  then have p0: "p\<lparr>pr_fds := f, pr_pipe := 0\<rparr> = p\<lparr>pr_fds := f\<rparr>" for f by (cases p) simp
  let ?p0 = "p\<lparr>pr_fds := (pr_fds p)(r \<mapsto> fresh_end, w \<mapsto> fresh_end)\<rparr>"
  obtain c p1 where conf: "configure_signal_pipe sc r w ?p0 = (c, p1)" by force
  from configure_signal_pipe_frame [OF this] fresh(1) obtain x y where
    p1: "p1 = p\<lparr>pr_fds := (pr_fds p)(r := x, w := y)\<rparr>" by (auto simp: fun_upd_twist)
  have closed: "(pr_fds p)(r := None, w := None) = pr_fds p" using fresh by auto
  have acts: "(pr_actions p)(SIGINT := ShutdownHandler, SIGTERM := ShutdownHandler) = (\<lambda>_. ShutdownHandler)"
    using signal.exhaust by (auto simp: fun_eq_iff)
  show ?thesis
    using assms(1) rw conf p1 fresh closed acts q p0
    by (cases p) (auto simp: install_def install_shutdown_handler_def restore_signal_handler_def
        close_fd_def Let_def fun_upd_twist split: sum.splits if_splits, blast)
qed


lemma drop_after_install:
  assumes "unarmed p" and "fresh_pipe sc p" and "install sc p = (Inr sh, p')"
  shows "armed p'"
    and "drop_signals sh (p'\<lparr>pr_requested := requested, pr_pipe := bytes\<rparr>) = p\<lparr>pr_requested := requested\<rparr>"
proof -
  have acts: "f(SIGINT := pr_actions p SIGINT, SIGTERM := pr_actions p SIGTERM) = pr_actions p" for f
    by (rule ext, rename_tac s, case_tac s) simp_all
  from install_cases [OF assms(3,1,2)] obtain r w d d' where fds: "r \<noteq> w" "pr_fds p r = None" "pr_fds p w = None"
    and w: "0 \<le> w"
    and sh: "sh = \<lparr>sh_read_fd = r, sh_write_fd = w, sh_old_int = pr_actions p SIGINT,
       sh_old_term = pr_actions p SIGTERM\<rparr>"
    and p': "p' = p\<lparr>pr_fds := (pr_fds p)(r := d, w := d'), pr_actions := (\<lambda>_. ShutdownHandler),
       pr_signal_fd := w\<rparr>" by auto
  have closed: "(pr_fds p)(r := d, w := d', r := None, w := None) = pr_fds p" using fds by auto
  show "armed p'" using assms(1) w by (simp add: p' armed_def unarmed_def)
  show "drop_signals sh (p'\<lparr>pr_requested := requested, pr_pipe := bytes\<rparr>) = p\<lparr>pr_requested := requested\<rparr>"
    using assms(1) acts closed unfolding sh p'
    by (cases p) (simp add: unarmed_def drop_signals_def restore_signal_handler_def close_fd_def)
qed

text \<open>
  C24. Installing the shutdown handlers is all or nothing, and undone when they are dropped: a
  call that fails at any point leaves the descriptors, the signal actions and the static
  variables as they were, and once installed, both signals are handled and dropping the
  handlers gives back the process before, whatever arrived in between.
\<close>

theorem shutdown_signals_all_or_nothing:
  assumes "unarmed p" and "fresh_pipe sc p"
  shows "case install sc p of
      (Inl e, p') \<Rightarrow> p' = p
    | (Inr sh, p') \<Rightarrow> armed p' \<and>
        drop_signals sh (p'\<lparr>pr_requested := requested, pr_pipe := bytes\<rparr>) = p\<lparr>pr_requested := requested\<rparr>"
proof -
  obtain res p' where inst: "install sc p = (res, p')" by force
  show ?thesis
  proof (cases res)
    case (Inl e)
    with install_cases [OF inst assms] show ?thesis by (simp add: inst)
  next
    case (Inr sh)
    with drop_after_install [OF assms] inst show ?thesis by simp
  qed
qed

definition ex_signal_calls :: signal_calls where
  "ex_signal_calls = \<lparr>sc_pipe = Inr (3, 4), sc_fcntl = (\<lambda>_. True), sc_sigemptyset = (\<lambda>_. True),
     sc_sigaction = (\<lambda>s. s = SIGINT)\<rparr>"

definition ex_process :: process where
  "ex_process = \<lparr>pr_fds = (\<lambda>_. None), pr_actions = (\<lambda>_. DefaultAction), pr_requested = False,
     pr_signal_fd = - 1, pr_pipe = 0\<rparr>"

theorem shutdown_signals_all_or_nothing_witness:
  "\<exists>e. install ex_signal_calls ex_process = (Inl e, ex_process)"
proof -
  have *: "unarmed ex_process" "fresh_pipe ex_signal_calls ex_process"
    by (simp_all add: unarmed_def fresh_pipe_def ex_process_def ex_signal_calls_def)
  have "isl (fst (install ex_signal_calls ex_process))" by code_simp
  with shutdown_signals_all_or_nothing [OF *] show ?thesis
    by (cases "install ex_signal_calls ex_process") (auto simp: isl_def)
qed

section \<open>What stops the daemon\<close>

lemma deliver_armed:
  assumes "armed p"
  shows "armed (deliver s p) \<and> pr_requested (deliver s p)"
  using assms by (auto simp: armed_def deliver_def handle_shutdown_signal_def PIPE_CAPACITY_def Let_def)

lemma fold_deliver_armed:
  "armed p \<Longrightarrow> armed (fold deliver ss p) \<and> (ss \<noteq> [] \<or> pr_requested p \<longrightarrow> pr_requested (fold deliver ss p))"
  by (induction ss arbitrary: p) (use deliver_armed in auto)

text \<open>A signal of the two, during the wait.\<close>

fun signals :: "wait_event \<Rightarrow> bool" where
  "signals (SignalArrives s) = True"
| "signals (PollInterrupted s) = (s \<noteq> None)"
| "signals _ = False"

lemma wait_armed:
  "armed p \<Longrightarrow> wait_for_connection_or_shutdown es p = (r, p') \<Longrightarrow> armed p'"
proof (induction es arbitrary: p)
  case (Cons e es)
  then show ?case
    using deliver_armed [OF Cons.prems(1)]
    by (cases e) (auto simp: Let_def split: option.splits if_splits)
qed simp

text \<open>A byte in the pipe ends the wait, whatever else happens: no connection has to come.\<close>

lemma wait_readable:
  "armed p \<Longrightarrow> 0 < pr_pipe p \<Longrightarrow> PollFailed \<notin> set es \<Longrightarrow>
    fst (wait_for_connection_or_shutdown es p) = Some (Inr True)"
proof (induction es arbitrary: p)
  case (Cons e es)
  have "armed (deliver s p)" "0 < pr_pipe (deliver s p)" for s
    using deliver_armed [OF Cons.prems(1)] by (auto simp: armed_def)
  with Cons show ?case by (cases e) simp_all
qed simp

lemma wait_signal:
  assumes "armed p" and "signals e" and "PollFailed \<notin> set post" and "set pre \<subseteq> {PollInterrupted None}"
  shows "fst (wait_for_connection_or_shutdown (pre @ e # post) p) = Some (Inr True)"
  using assms
proof (induction pre arbitrary: p)
  case Nil
  have after: "armed (deliver s p)" "0 < pr_pipe (deliver s p)" "pr_requested (deliver s p)" for s
    using deliver_armed [OF Nil.prems(1)] by (auto simp: armed_def)
  show ?case
  proof (cases e)
    case (SignalArrives s)
    with wait_readable [OF after(1,2) Nil.prems(3)] show ?thesis by simp
  next
    case (PollInterrupted s)
    with Nil.prems(2) after(3) show ?thesis by (cases s) (simp_all add: Let_def)
  qed (use Nil.prems(2) in simp_all)
next
  case (Cons i pre)
  have "pr_requested p \<longrightarrow> 0 < pr_pipe p" using Cons.prems(1) by (simp add: armed_def)
  with Cons show ?case by (auto simp: Let_def)
qed

lemma serve_armed:
  "armed p \<Longrightarrow> serve_connections en ts p l = (None, p', l', conns) \<Longrightarrow> armed p'"
proof (induction ts arbitrary: p l conns)
  case (Cons t ts)
  have head: "armed (fold deliver (tu_head t) p)" using fold_deliver_armed [OF Cons.prems(1)] by blast
  obtain r p2 where wait: "wait_for_connection_or_shutdown (tu_wait t) (fold deliver (tu_head t) p) = (r, p2)" by force
  have "armed p2" using wait_armed [OF head wait] .
  then have late: "armed (fold deliver (tu_late t) p2)" using fold_deliver_armed by blast
  show ?case
    using Cons.prems(2) wait \<open>armed p2\<close> Cons.IH [OF late]
    by (auto simp: Let_def split: if_splits option.splits sum.splits bool.splits accepted.splits prod.splits)
qed simp

text \<open>The loop changes the process only by the signals it receives.\<close>

lemma deliver_frame: "\<exists>b n. deliver s p = p\<lparr>pr_requested := b, pr_pipe := n\<rparr>"
proof -
  have "p = p\<lparr>pr_requested := pr_requested p, pr_pipe := pr_pipe p\<rparr>" by simp
  moreover have "handle_shutdown_signal p =
      p\<lparr>pr_requested := True, pr_pipe := pr_pipe (handle_shutdown_signal p)\<rparr>"
    by (cases p) (simp add: handle_shutdown_signal_def Let_def)
  ultimately show ?thesis unfolding deliver_def by metis
qed

lemma fold_deliver_frame: "\<exists>b n. fold deliver ss p = p\<lparr>pr_requested := b, pr_pipe := n\<rparr>"
proof (induction ss arbitrary: p)
  case Nil
  have "p = p\<lparr>pr_requested := pr_requested p, pr_pipe := pr_pipe p\<rparr>" by simp
  then show ?case by (metis fold_simps(1))
next
  case (Cons s ss)
  obtain b n where "deliver s p = p\<lparr>pr_requested := b, pr_pipe := n\<rparr>" using deliver_frame by blast
  with Cons [of "deliver s p"] show ?case by auto
qed

lemma wait_frame:
  "wait_for_connection_or_shutdown es p = (r, p') \<Longrightarrow> \<exists>ss. p' = fold deliver ss p"
proof (induction es p rule: wait_for_connection_or_shutdown.induct)
  case (1 p)
  then show ?case by (auto intro: exI [of _ "[]"])
next
  case (2 s es p)
  then obtain ss where "p' = fold deliver ss (deliver s p)" by auto
  then show ?case by (auto intro: exI [of _ "s # ss"])
next
  case (3 s es p)
  let ?p = "case s of None \<Rightarrow> p | Some s \<Rightarrow> deliver s p"
  have head: "?p = fold deliver (case s of None \<Rightarrow> [] | Some s \<Rightarrow> [s]) p" by (cases s) simp_all
  have "p' = p \<or> (\<exists>ss. p' = fold deliver ss ?p)"
    using 3 by (auto simp: Let_def split: if_splits intro: exI [of _ "[]"])
  then show ?case unfolding head by (metis comp_apply fold_append fold_simps(1))
qed (auto intro: exI [of _ "[]"])

lemma serve_frame:
  "serve_connections en ts p l = (r, p', l', conns) \<Longrightarrow> \<exists>ss. p' = fold deliver ss p"
proof (induction ts arbitrary: p l conns)
  case Nil
  then show ?case by (auto intro: exI [of _ "[]"])
next
  case (Cons t ts)
  let ?p1 = "fold deliver (tu_head t) p"
  obtain w p2 where wait: "wait_for_connection_or_shutdown (tu_wait t) ?p1 = (w, p2)" by force
  obtain ss where p2: "p2 = fold deliver ss ?p1" using wait_frame [OF wait] by blast
  have "p' = ?p1 \<or> p' = p2 \<or> (\<exists>ss. p' = fold deliver ss (fold deliver (tu_late t) p2))"
    using Cons.prems Cons.IH wait
    by (auto simp: Let_def split: if_splits option.splits sum.splits bool.splits accepted.splits prod.splits)
  then show ?case unfolding p2 by (metis comp_apply fold_append)
qed


text \<open>The turns of a loop that runs on: a connection came in each.\<close>

definition finished :: "accept_turn list \<Rightarrow> bool" where
  "finished ts \<longleftrightarrow> list_all (\<lambda>t. ConnectionComes \<in> set (tu_wait t)) ts"

lemma wait_finished:
  "ConnectionComes \<in> set es \<Longrightarrow> fst (wait_for_connection_or_shutdown es p) \<noteq> None"
proof (induction es arbitrary: p)
  case (Cons e es)
  then show ?case by (cases e) (auto simp: Let_def)
qed simp

lemma serve_append:
  assumes "finished before" and "serve_connections en before p l = (None, p1, l1, conns)"
  shows "serve_connections en (before @ ts) p l =
    (case serve_connections en ts p1 l1 of (r, p2, l2, rest) \<Rightarrow> (r, p2, l2, conns @ rest))"
  using assms
proof (induction before arbitrary: p l conns)
  case (Cons t before)
  then have es: "ConnectionComes \<in> set (tu_wait t)" "finished before" by (auto simp: finished_def)
  let ?p = "fold deliver (tu_head t) p"
  obtain r p2 where wait: "wait_for_connection_or_shutdown (tu_wait t) ?p = (Some r, p2)"
    using wait_finished [OF es(1), of ?p] by (metis option.exhaust prod.collapse)
  with Cons.prems(2) have r: "r = Inr False" and "\<not> pr_requested ?p"
    by (auto simp: Let_def split: if_splits sum.splits bool.splits)
  with Cons.prems(2) wait Cons.IH [OF es(2)] show ?case
    by (auto simp: Let_def split: accepted.splits prod.splits)
qed (simp split: prod.splits)

text \<open>
  C19. A shutdown request is never lost. Once a signal has arrived, after an earlier wait, before
  the loop's test, or during the wait, before or within a call of \<open>poll\<close>, the loop returns
  without an error in that turn and accepts no further connection; no connection has to come
  for it: the byte the handler wrote makes the next call of \<open>poll\<close> return. Only a \<open>poll\<close> that
  fails otherwise ends the loop with an error instead.
\<close>

theorem shutdown_signal_stops_accepting:
  assumes "armed p" and "finished before"
    and "serve_connections en before p l = (None, p1, l1, conns)"
    and "PollFailed \<notin> set (tu_wait t)"
    and "pr_requested p1 \<or> tu_head t \<noteq> [] \<or>
      (tu_wait t = pre @ e # post \<and> signals e \<and> set pre \<subseteq> {PollInterrupted None})"
  shows "\<exists>p2 l2. serve_connections en (before @ t # after) p l = (Some (Inr ()), p2, l2, conns)"
proof -
  let ?p = "fold deliver (tu_head t) p1"
  have "armed p1" using serve_armed [OF assms(1,3)] .
  then have head: "armed ?p" "tu_head t \<noteq> [] \<or> pr_requested p1 \<longrightarrow> pr_requested ?p"
    using fold_deliver_armed by blast+
  have "\<exists>p2 l2. serve_connections en (t # after) p1 l1 = (Some (Inr ()), p2, l2, [])"
  proof (cases "pr_requested ?p")
    case False
    with head(2) assms(5) have t: "tu_wait t = pre @ e # post" "signals e" "set pre \<subseteq> {PollInterrupted None}"
      by blast+
    with assms(4) have "fst (wait_for_connection_or_shutdown (tu_wait t) ?p) = Some (Inr True)"
      using wait_signal [OF head(1) t(2) _ t(3)] by simp
    with False show ?thesis by (auto simp: Let_def split: prod.splits)
  qed (simp add: Let_def)
  then show ?thesis using serve_append [OF assms(2,3), of "t # after"] by auto
qed

definition ex_accept_turn :: "signal list \<Rightarrow> wait_event list \<Rightarrow> accept_turn" where
  "ex_accept_turn head es = \<lparr>tu_released = 0, tu_head = head, tu_wait = es, tu_late = [],
     tu_accept = Accepted ex_sock\<rparr>"

definition ex_armed :: process where
  "ex_armed = ex_process\<lparr>pr_actions := (\<lambda>_. ShutdownHandler), pr_signal_fd := 4\<rparr>"

theorem shutdown_signal_stops_accepting_witness:
  "\<exists>p2 l2. serve_connections ex_env
     ([ex_accept_turn [] [ConnectionComes]] @ ex_accept_turn [] [PollInterrupted None, SignalArrives SIGTERM] # [])
     ex_armed (limiter_new 64) = (Some (Inr ()), p2, l2, [(True, ex_sock)])"
proof (rule shutdown_signal_stops_accepting)
  show "serve_connections ex_env [ex_accept_turn [] [ConnectionComes]] ex_armed (limiter_new 64) =
      (None, ex_armed, (limiter_new 64)\<lparr>l_active := 1\<rparr>, [(True, ex_sock)])"
    by (simp add: ex_accept_turn_def ex_armed_def ex_process_def limiter_new_def serve_accept_def acquire_def Let_def)
  show "pr_requested ex_armed \<or> tu_head (ex_accept_turn [] [PollInterrupted None, SignalArrives SIGTERM]) \<noteq> [] \<or>
      (tu_wait (ex_accept_turn [] [PollInterrupted None, SignalArrives SIGTERM]) =
         [PollInterrupted None] @ SignalArrives SIGTERM # [] \<and>
       signals (SignalArrives SIGTERM) \<and> set [PollInterrupted None] \<subseteq> {PollInterrupted None})"
    by (simp add: ex_accept_turn_def)
qed (auto simp: armed_def ex_armed_def ex_process_def finished_def ex_accept_turn_def)

section \<open>What redirecting the standard streams does\<close>

text \<open>
  With the standard streams open, so that \<open>/dev/null\<close> is opened above them, a successful
  redirection makes all three refer to \<open>/dev/null\<close>, to be inherited by workers, and leaves
  every other descriptor as it was.
\<close>

theorem redirect_stdio_exact:
  assumes "2 < dev_null" and "pr_fds p dev_null = None"
    and "redirect_stdio_to_dev_null (Inr dev_null) duplicate dup2_ok p = (Inr (), p')"
  shows "pr_fds p' fd =
    (if fd \<in> {0, 1, 2} then Some \<lparr>de_target = ''/dev/null'', de_flags = 0, de_status = 0\<rparr> else pr_fds p fd)"
  using assms
  by (auto simp: redirect_stdio_to_dev_null_def stable_source_fd_def close_fd_def dup2_def Let_def split: if_splits)

theorem redirect_stdio_exact_witness:
  "pr_fds (snd (redirect_stdio_to_dev_null (Inr 5) 6 (\<lambda>_. True) ex_process)) 0 =
     Some \<lparr>de_target = ''/dev/null'', de_flags = 0, de_status = 0\<rparr>"
proof -
  have "redirect_stdio_to_dev_null (Inr 5) 6 (\<lambda>_. True) ex_process =
      (Inr (), snd (redirect_stdio_to_dev_null (Inr 5) 6 (\<lambda>_. True) ex_process))"
    by (simp add: redirect_stdio_to_dev_null_def stable_source_fd_def dup2_def Let_def)
  from redirect_stdio_exact [OF _ _ this, of 0] show ?thesis by (simp add: ex_process_def)
qed

text \<open>
  The duplicate does not keep the \<open>File\<close> from closing a standard stream: when
  \<open>/dev/null\<close> itself was opened as one of the three, that stream is closed again when the
  function returns successfully.
\<close>

theorem redirect_stdio_closes_low_descriptor:
  assumes "dev_null \<le> 2"
    and "redirect_stdio_to_dev_null (Inr dev_null) duplicate dup2_ok p = (Inr (), p')"
  shows "pr_fds p' dev_null = None"
  using assms
  by (auto simp: redirect_stdio_to_dev_null_def close_fd_def Let_def split: prod.splits sum.splits if_splits)

theorem redirect_stdio_closes_low_descriptor_witness:
  "pr_fds (snd (redirect_stdio_to_dev_null (Inr 0) 3 (\<lambda>_. True) ex_process)) 0 = None"
proof -
  have "redirect_stdio_to_dev_null (Inr 0) 3 (\<lambda>_. True) ex_process =
      (Inr (), snd (redirect_stdio_to_dev_null (Inr 0) 3 (\<lambda>_. True) ex_process))"
    by (simp add: redirect_stdio_to_dev_null_def stable_source_fd_def dup2_def Let_def)
  from redirect_stdio_closes_low_descriptor [OF _ this] show ?thesis by simp
qed

end
