(* ===== verification/Daemon_Start.thy ===== *)
theory Daemon_Start
  imports Daemon_Signals
begin

unbundle bit_operations_syntax

text \<open>
  Starting and ending the daemon (\<open>crates/evix-daemon/src/lib.rs\<close>, \<open>src/bin/evixd.rs\<close>): binding
  the socket, reporting readiness, detaching from the terminal, the waiting parent, and the
  whole of \<open>run\<close> with its clean-up. A host is what start-up changes of the machine: sockets,
  files and directories by their full path, the working directory, the file mode mask and the
  process. Failing system calls are arguments.
\<close>

section \<open>A host\<close>

text \<open>A socket with whether a process listens on it and its mode, a file, a directory, anything else.\<close>

datatype node = SocketNode bool u32 | FileNode string | DirNode | OtherNode

record host =
  ho_files :: "path \<Rightarrow> node option"
  ho_cwd :: path
  ho_umask :: u32
  ho_process :: process

abbreviation at :: "host \<Rightarrow> path \<Rightarrow> path" where
  "at h p \<equiv> path_join (ho_cwd h) p"

definition set_node :: "path \<Rightarrow> node option \<Rightarrow> host \<Rightarrow> host" where
  "set_node p n h = h\<lparr>ho_files := (ho_files h)(at h p := n)\<rparr>"

text \<open>
  How the calls on files ended: making the socket's directory (with the directory, and the
  directories that were made before the call ended, whether it failed or not), whether
  the socket's metadata can be read, what connecting to a socket gives when a process listens
  and when none does, which paths may be removed, whether binding and changing the mode work,
  and how many bytes of the pid file are written (\<open>None\<close>: it cannot be opened).
\<close>

record file_calls =
  fc_create_parent :: "(path \<times> unit result) option"
  fc_made :: "path list"
  fc_metadata :: bool
  fc_connect :: "bool \<Rightarrow> probe"
  fc_remove :: "path \<Rightarrow> bool"
  fc_bind :: bool
  fc_chmod :: bool
  fc_write :: "nat option"
  fc_pid :: u32

definition remove_file :: "file_calls \<Rightarrow> path \<Rightarrow> host \<Rightarrow> unit result \<times> host" where
  "remove_file fc p h =
     (if ho_files h (at h p) \<noteq> None \<and> fc_remove fc p then (Inr (), set_node p None h)
      else (external ''io'', h))"

definition write_file :: "file_calls \<Rightarrow> path \<Rightarrow> string \<Rightarrow> host \<Rightarrow> unit result \<times> host" where
  "write_file fc p text h =
     (case fc_write fc of
        None \<Rightarrow> (external ''io'', h)
      | Some n \<Rightarrow>
          (if n < length text then external ''io'' else Inr (), set_node p (Some (FileNode (take n text))) h))"

definition socket_status_of :: "file_calls \<Rightarrow> path \<Rightarrow> host \<Rightarrow> socket_status" where
  "socket_status_of fc p h =
     (if \<not> fc_metadata fc then PathError
      else
        (case ho_files h (at h p) of
           None \<Rightarrow> PathMissing
         | Some (SocketNode live _) \<Rightarrow> PathSocket (fc_connect fc live)
         | Some _ \<Rightarrow> PathOther))"

text \<open>
  \<open>create_dir_all\<close> on the parent of a path: it makes directories above the path, where there was
  nothing (the empty path is never made).
\<close>

definition above :: "path \<Rightarrow> path \<Rightarrow> bool" where
  "above d p \<longleftrightarrow> path_components d \<noteq> [] \<and> path_components d \<noteq> path_components p \<and> path_starts_with p d"

definition made_dir :: "file_calls \<Rightarrow> path \<Rightarrow> host \<Rightarrow> path \<Rightarrow> bool" where
  "made_dir fc p h q \<longleftrightarrow> ho_files h q = None \<and> q \<in> set (fc_made fc) \<and> above q (at h p)"

definition create_dir_all :: "file_calls \<Rightarrow> path \<Rightarrow> host \<Rightarrow> host" where
  "create_dir_all fc p h =
     h\<lparr>ho_files := (\<lambda>q. if made_dir fc p h q then Some DirNode else ho_files h q)\<rparr>"

definition path_effect_on :: "file_calls \<Rightarrow> path \<Rightarrow> path_effect \<Rightarrow> host \<Rightarrow> host" where
  "path_effect_on fc p effect h =
     (case effect of
        MakeParent parent \<Rightarrow> create_dir_all fc p h
      | RemovePath \<Rightarrow> snd (remove_file fc p h))"

text \<open>
  \<open>prepare_socket_path\<close> with its effects on the host; the socket's path is looked at once its
  directory was made.
\<close>

definition with_parent :: "file_calls \<Rightarrow> path \<Rightarrow> host \<Rightarrow> host" where
  "with_parent fc p h = (case fc_create_parent fc of None \<Rightarrow> h | Some _ \<Rightarrow> create_dir_all fc p h)"

definition prepare_on :: "file_calls \<Rightarrow> path \<Rightarrow> host \<Rightarrow> unit result \<times> host" where
  "prepare_on fc p h =
     (let h1 = with_parent fc p h
      in case prepare_socket_path (fc_create_parent fc) (socket_status_of fc p h1) (fst (remove_file fc p h1)) p of
           (r, effects) \<Rightarrow> (r, fold (path_effect_on fc p) effects h))"

section \<open>Reporting readiness\<close>

text \<open>\<open>NoopStartupReporter\<close> and \<open>PipeStartupReporter\<close>, with the end of the pipe it writes to.\<close>

record pipe_reporter =
  rp_stream :: sock
  rp_pid_file :: path

definition noop_ready :: "unit \<Rightarrow> host \<Rightarrow> unit result \<times> unit \<times> host" where
  "noop_ready rep h = (Inr (), rep, h)"

definition noop_error :: "report \<Rightarrow> unit \<Rightarrow> unit result \<times> unit" where
  "noop_error err rep = (Inr (), rep)"

definition pipe_ready ::
  "env \<Rightarrow> file_calls \<Rightarrow> pipe_reporter \<Rightarrow> host \<Rightarrow> unit result \<times> pipe_reporter \<times> host" where
  "pipe_ready en fc rep h =
     (case write_file fc (rp_pid_file rep) (show_nat (unat (fc_pid fc))) h of
        (Inl e, h1) \<Rightarrow> (with_context (''writing pid file '' @ rp_pid_file rep) (Inl e), rep, h1)
      | (Inr _, h1) \<Rightarrow>
          (case write_response (en_to_vec en) ResponseDone (rp_stream rep) of
             (Inl e, k) \<Rightarrow> (Inl e, rep\<lparr>rp_stream := k\<rparr>, snd (remove_file fc (rp_pid_file rep) h1))
           | (Inr _, k) \<Rightarrow> (Inr (), rep\<lparr>rp_stream := k\<rparr>, h1)))"

definition pipe_error :: "env \<Rightarrow> report \<Rightarrow> pipe_reporter \<Rightarrow> unit result \<times> pipe_reporter" where
  "pipe_error en err rep =
     (case write_response (en_to_vec en) (ResponseError (en_render en err)) (rp_stream rep) of (r, k) \<Rightarrow>
        (r, rep\<lparr>rp_stream := k\<rparr>))"

section \<open>Binding the socket\<close>

definition UMASK_PRIVATE :: u32 where
  "UMASK_PRIVATE = 0x3F"

definition MODE_PRIVATE :: u32 where
  "MODE_PRIVATE = 0x180"

text \<open>\<open>UmaskGuard::set\<close>: the previous mask, for the guard's \<open>drop\<close>.\<close>

definition umask :: "u32 \<Rightarrow> host \<Rightarrow> u32 \<times> host" where
  "umask m h = (ho_umask h, h\<lparr>ho_umask := m AND 0x1FF\<rparr>)"

text \<open>A new socket has all the permissions the mask leaves; a path that exists is not bound over.\<close>

definition bind_socket :: "file_calls \<Rightarrow> path \<Rightarrow> host \<Rightarrow> unit result \<times> host" where
  "bind_socket fc p h =
     (case umask UMASK_PRIVATE h of (previous, h1) \<Rightarrow>
        let (r, h2) =
          (if \<not> fc_bind fc \<or> ho_files h1 (at h1 p) \<noteq> None then
             (with_context (''binding '' @ p) (external ''io''), h1)
           else (Inr (), set_node p (Some (SocketNode True (0x1FF AND NOT (ho_umask h1)))) h1))
        in (r, snd (umask previous h2)))"

definition set_permissions :: "file_calls \<Rightarrow> path \<Rightarrow> u32 \<Rightarrow> host \<Rightarrow> unit result \<times> host" where
  "set_permissions fc p mode h =
     (case ho_files h (at h p) of
        Some (SocketNode live _) \<Rightarrow>
          if fc_chmod fc then (Inr (), set_node p (Some (SocketNode live mode)) h) else (external ''io'', h)
      | _ \<Rightarrow> (external ''io'', h))"

text \<open>The listener is closed when its owner returns; the socket's path, if it is still there, is dead then.\<close>

definition close_listener :: "path \<Rightarrow> host \<Rightarrow> host" where
  "close_listener p h =
     (case ho_files h (at h p) of
        Some (SocketNode _ mode) \<Rightarrow> set_node p (Some (SocketNode False mode)) h
      | _ \<Rightarrow> h)"

text \<open>\<open>bind_listener\<close> for any startup reporter, given by its two operations.\<close>

definition bind_listener ::
  "('r \<Rightarrow> host \<Rightarrow> unit result \<times> 'r \<times> host) \<Rightarrow> (report \<Rightarrow> 'r \<Rightarrow> unit result \<times> 'r) \<Rightarrow> file_calls \<Rightarrow> path \<Rightarrow>
    'r \<Rightarrow> host \<Rightarrow> unit result \<times> 'r \<times> host" where
  "bind_listener ready error fc socket rep h =
     (case (case prepare_on fc socket h of
              (Inl e, h1) \<Rightarrow> (Inl e, h1)
            | (Inr _, h1) \<Rightarrow> bind_socket fc socket h1) of
        (Inl err, h1) \<Rightarrow> (Inl err, snd (error err rep), h1)
      | (Inr _, h1) \<Rightarrow>
          (case set_permissions fc socket MODE_PRIVATE h1 of
             (Inl e, h2) \<Rightarrow>
               let err = with_context (''setting permissions on '' @ socket) (Inl e) in
               (err, snd (error (projl err) rep), close_listener socket (snd (remove_file fc socket h2)))
           | (Inr _, h2) \<Rightarrow>
               (case ready rep h2 of
                  (Inl err, rep', h3) \<Rightarrow>
                    (Inl err, rep', close_listener socket (snd (remove_file fc socket h3)))
                | (Inr _, rep', h3) \<Rightarrow> (Inr (), rep', h3))))"


section \<open>Running\<close>

text \<open>\<open>Drop for RuntimeCleanup\<close>.\<close>

definition runtime_cleanup :: "file_calls \<Rightarrow> path \<Rightarrow> path option \<Rightarrow> host \<Rightarrow> host" where
  "runtime_cleanup fc socket pid_file h =
     (let h1 = snd (remove_file fc socket h)
      in case pid_file of None \<Rightarrow> h1 | Some f \<Rightarrow> snd (remove_file fc f h1))"

text \<open>How the calls of \<open>run\<close> after the socket is bound ended.\<close>

record run_calls =
  rc_signals :: signal_calls
  rc_runtime :: bool
  rc_turns :: "accept_turn list"

text \<open>
  \<open>run\<close> from the point where it has a reporter. The values it owns are dropped in the reverse
  order: the handlers before the clean-up, and the listener with the accept loop that took it,
  or last when the loop is never entered. \<open>None\<close>: it still serves.
\<close>

definition run_with ::
  "('r \<Rightarrow> host \<Rightarrow> unit result \<times> 'r \<times> host) \<Rightarrow> (report \<Rightarrow> 'r \<Rightarrow> unit result \<times> 'r) \<Rightarrow> env \<Rightarrow> file_calls \<Rightarrow>
    run_calls \<Rightarrow> path \<Rightarrow> path option \<Rightarrow> 'r \<Rightarrow> host \<Rightarrow> unit result option \<times> 'r \<times> host" where
  "run_with ready error en fc rc socket pid_file rep h =
     (case bind_listener ready error fc socket rep h of
        (Inl e, rep1, h1) \<Rightarrow> (Some (Inl e), rep1, h1)
      | (Inr _, rep1, h1) \<Rightarrow>
          (case install (rc_signals rc) (ho_process h1) of
             (Inl e, p) \<Rightarrow>
               (Some (Inl e), rep1,
                close_listener socket (runtime_cleanup fc socket pid_file (h1\<lparr>ho_process := p\<rparr>)))
           | (Inr sh, p) \<Rightarrow>
               if \<not> rc_runtime rc then
                 (Some (with_context ''building daemon runtime'' (external ''tokio'')), rep1,
                  close_listener socket
                    (runtime_cleanup fc socket pid_file (h1\<lparr>ho_process := drop_signals sh p\<rparr>)))
               else
                 (case serve_connections en (rc_turns rc) p (limiter_new MAX_CONNECTIONS) of
                    (None, p', _) \<Rightarrow> (None, rep1, h1\<lparr>ho_process := p'\<rparr>)
                  | (Some r, p', _) \<Rightarrow>
                      (Some r, rep1, runtime_cleanup fc socket pid_file
                         ((close_listener socket h1)\<lparr>ho_process := drop_signals sh p'\<rparr>)))))"

definition clear_request :: "host \<Rightarrow> host" where
  "clear_request h = h\<lparr>ho_process := (ho_process h)\<lparr>pr_requested := False\<rparr>\<rparr>"

text \<open>\<open>run\<close> in the foreground.\<close>

definition run_foreground ::
  "env \<Rightarrow> file_calls \<Rightarrow> run_calls \<Rightarrow> path \<Rightarrow> host \<Rightarrow> unit result option \<times> host" where
  "run_foreground en fc rc socket h =
     (case run_with noop_ready noop_error en fc rc socket None () (clear_request h) of (r, _, h') \<Rightarrow> (r, h'))"

section \<open>Detaching\<close>

record detach_calls =
  dc_pair :: bool
  dc_fork :: int
  dc_setsid :: int
  dc_second_fork :: int
  dc_chdir :: bool
  dc_dev_null :: "int result"
  dc_duplicate :: int
  dc_dup2 :: "int \<Rightarrow> bool"

text \<open>A process that goes on with a reporter, or has exited.\<close>

datatype detached = Exits int pipe_reporter host | Continues pipe_reporter host

definition exit_after_startup_error :: "env \<Rightarrow> pipe_reporter \<Rightarrow> report \<Rightarrow> host \<Rightarrow> detached" where
  "exit_after_startup_error en rep err h = Exits 1 (snd (pipe_error en err rep)) h"

text \<open>\<open>daemonize\<close> in the process that is to become the daemon.\<close>

definition daemonize_child :: "env \<Rightarrow> detach_calls \<Rightarrow> pipe_reporter \<Rightarrow> host \<Rightarrow> detached" where
  "daemonize_child en dc rep h =
     (if dc_setsid dc < 0 then exit_after_startup_error en rep (Report [] (Message ''setsid failed'')) h
      else if dc_second_fork dc < 0 then
        exit_after_startup_error en rep (Report [] (Message ''second fork failed'')) h
      else if \<not> dc_chdir dc then
        exit_after_startup_error en rep (Report [''changing daemon working directory to /''] (External ''io'')) h
      else
        let h1 = h\<lparr>ho_cwd := ''/''\<rparr>
        in case redirect_stdio_to_dev_null (dc_dev_null dc) (dc_duplicate dc) (dc_dup2 dc) (ho_process h1) of
             (Inl e, p) \<Rightarrow> exit_after_startup_error en rep e (h1\<lparr>ho_process := p\<rparr>)
           | (Inr _, p) \<Rightarrow> Continues rep (h1\<lparr>ho_process := p\<rparr>))"

text \<open>What the waiting process prints and its exit status.\<close>

record parent_exit =
  pe_stdout :: string
  pe_stderr :: string
  pe_code :: int

record parent_calls =
  pc_from_str :: "string \<Rightarrow> response result"
  pc_debug_response :: "response \<Rightarrow> string"
  pc_debug_report :: "report \<Rightarrow> string"

definition says :: "string \<Rightarrow> parent_exit" where
  "says message = \<lparr>pe_stdout = [], pe_stderr = message @ [newline], pe_code = 1\<rparr>"

text \<open>\<open>bytes\<close> is what was written to the pipe until its first newline or its end.\<close>

definition wait_for_readiness :: "parent_calls \<Rightarrow> path \<Rightarrow> string \<Rightarrow> parent_exit" where
  "wait_for_readiness pc socket bytes =
     (let line = line_of bytes;
          result = and_then
            (if valid_utf8 line then Inr line else with_context ''reading daemon readiness'' (external ''utf8''))
            (\<lambda>line. with_context ''parsing daemon readiness'' (pc_from_str pc (trim line)))
      in case result of
           Inr ResponseDone \<Rightarrow> \<lparr>pe_stdout = socket @ [newline], pe_stderr = [], pe_code = 0\<rparr>
         | Inr (ResponseError message) \<Rightarrow> says message
         | Inr other \<Rightarrow> says (''unexpected daemon readiness response: '' @ pc_debug_response pc other)
         | Inl err \<Rightarrow> says (pc_debug_report pc err))"

text \<open>
  \<open>run\<close> in the background: the calling process returns an error when it could not fork, and
  exits with what the daemon reported otherwise; the daemon has exited while it detached, or
  has the result of the rest of \<open>run\<close>.
\<close>

datatype launch = NotLaunched report | Launched parent_exit "unit result option option" host

definition empty_pipe :: sock where
  "empty_pipe = \<lparr>k_out = [], k_room = None\<rparr>"

definition run_background ::
  "env \<Rightarrow> parent_calls \<Rightarrow> detach_calls \<Rightarrow> file_calls \<Rightarrow> run_calls \<Rightarrow> path \<Rightarrow> path \<Rightarrow> host \<Rightarrow> launch" where
  "run_background en pc dc fc rc socket pid_file h =
     (if \<not> dc_pair dc then NotLaunched (Report [''creating daemon readiness pipe''] (External ''io''))
      else if dc_fork dc < 0 then NotLaunched (Report [] (Message ''fork failed''))
      else
        (case daemonize_child en dc \<lparr>rp_stream = empty_pipe, rp_pid_file = pid_file\<rparr> (clear_request h) of
           Exits _ rep h1 \<Rightarrow> Launched (wait_for_readiness pc socket (k_out (rp_stream rep))) None h1
         | Continues rep h1 \<Rightarrow>
             (case run_with (pipe_ready en fc) (pipe_error en) en fc rc socket (Some pid_file) rep h1 of
                (r, rep1, h2) \<Rightarrow>
                  Launched (wait_for_readiness pc socket (k_out (rp_stream rep1))) (Some r) h2)))"

section \<open>The program\<close>

text \<open>
  \<open>evixd\<close>: worker processes re-execute the program with \<open>EVIX_WORKER\<close> in their environment.
  The verbosity is a difference of two bytes as an \<open>i16\<close>.
\<close>

definition log_level :: "8 word \<Rightarrow> 8 word \<Rightarrow> string" where
  "log_level verbose quiet =
     (let d = (ucast verbose :: 16 word) - ucast quiet
      in if sint d \<le> - 3 then ''off''
         else if sint d = - 2 then ''error''
         else if sint d = - 1 then ''warn''
         else if sint d = 0 then ''info''
         else if sint d = 1 then ''debug''
         else ''trace'')"

record evixd_args =
  ev_socket :: "path option"
  ev_foreground :: bool
  ev_verbose :: "8 word"
  ev_quiet :: "8 word"

datatype evixd_plan = RunWorker string | RunDaemon string path bool

definition evixd_main :: "string option \<Rightarrow> (unit \<Rightarrow> evixd_args) \<Rightarrow> u32 \<Rightarrow> path option \<Rightarrow> evixd_plan" where
  "evixd_main worker_env parse uid env_socket =
     (if worker_env \<noteq> None then RunWorker (log_level 0 0)
      else
        let args = parse ()
        in RunDaemon (log_level (ev_verbose args) (ev_quiet args))
             (socket_path uid env_socket (ev_socket args)) (ev_foreground args))"


section \<open>What a startup reporter promises\<close>

text \<open>
  The trait \<open>StartupReporter\<close>: reporting readiness touches at most the files the reporter
  owns. This is all that binding the socket needs of it.
\<close>

locale startup_reporter =
  fixes ready :: "'r \<Rightarrow> host \<Rightarrow> unit result \<times> 'r \<times> host"
    and error :: "report \<Rightarrow> 'r \<Rightarrow> unit result \<times> 'r"
    and owned :: "'r \<Rightarrow> path set"
  assumes ready_frame: "ready rep h = (r, rep', h') \<Longrightarrow>
    \<exists>files. h' = h\<lparr>ho_files := files\<rparr> \<and> (\<forall>q. q \<notin> at h ` owned rep \<longrightarrow> files q = ho_files h q)"
begin

lemma ready_other:
  "ready rep h = (r, rep', h') \<Longrightarrow> q \<notin> at h ` owned rep \<Longrightarrow> ho_files h' q = ho_files h q"
  using ready_frame by fastforce

lemma ready_rest:
  assumes "ready rep h = (r, rep', h')"
  shows "ho_cwd h' = ho_cwd h" "ho_umask h' = ho_umask h" "ho_process h' = ho_process h"
  using ready_frame [OF assms] by auto

end

lemma set_node_simps [simp]:
  "ho_cwd (set_node p n h) = ho_cwd h" "ho_umask (set_node p n h) = ho_umask h"
  "ho_process (set_node p n h) = ho_process h"
  "ho_files (set_node p n h) q = (if q = at h p then n else ho_files h q)"
  by (simp_all add: set_node_def)

lemma remove_file_simps [simp]:
  "ho_cwd (snd (remove_file fc p h)) = ho_cwd h" "ho_umask (snd (remove_file fc p h)) = ho_umask h"
  "ho_process (snd (remove_file fc p h)) = ho_process h"
  "q \<noteq> at h p \<Longrightarrow> ho_files (snd (remove_file fc p h)) q = ho_files h q"
  "fc_remove fc p \<Longrightarrow> ho_files (snd (remove_file fc p h)) (at h p) = None"
  by (auto simp: remove_file_def)

lemma close_listener_simps [simp]:
  "ho_cwd (close_listener p h) = ho_cwd h" "ho_umask (close_listener p h) = ho_umask h"
  "ho_process (close_listener p h) = ho_process h"
  "q \<noteq> at h p \<Longrightarrow> ho_files (close_listener p h) q = ho_files h q"
  "ho_files (close_listener p h) (at h p) = None \<longleftrightarrow> ho_files h (at h p) = None"
  by (auto simp: close_listener_def split: option.splits node.splits)

lemma set_permissions_simps:
  assumes "set_permissions fc p mode h = (r, h')"
  shows "ho_cwd h' = ho_cwd h" "ho_umask h' = ho_umask h" "ho_process h' = ho_process h"
    and "q \<noteq> at h p \<Longrightarrow> ho_files h' q = ho_files h q"
  using assms by (auto simp: set_permissions_def split: option.splits node.splits if_splits)

lemma with_parent_simps [simp]:
  "ho_cwd (with_parent fc p h) = ho_cwd h" "ho_umask (with_parent fc p h) = ho_umask h"
  "ho_process (with_parent fc p h) = ho_process h"
  "ho_files h q = Some n \<Longrightarrow> ho_files (with_parent fc p h) q = Some n"
  "\<not> above q (at h p) \<Longrightarrow> ho_files (with_parent fc p h) q = ho_files h q"
  by (auto simp: with_parent_def create_dir_all_def made_dir_def split: option.split)

lemma with_parent_files:
  "ho_files (with_parent fc p h) q = ho_files h q \<or>
   ho_files h q = None \<and> ho_files (with_parent fc p h) q = Some DirNode \<and> above q (at h p)"
  by (auto simp: with_parent_def create_dir_all_def made_dir_def split: option.split)

lemma not_above_self [simp]: "\<not> above p p"
  by (simp add: above_def)

lemma prepare_socket_path_effects:
  fixes create_parent
  defines "made \<equiv> (case create_parent of None \<Rightarrow> [] | Some (parent, _) \<Rightarrow> [MakeParent parent])"
  shows "snd (prepare_socket_path create_parent status remove p) = made \<or>
    status = PathSocket ProbeRefused \<and>
      snd (prepare_socket_path create_parent status remove p) = made @ [RemovePath]"
  unfolding prepare_socket_path_def made_def Let_def
  by (simp split: socket_status.split probe.split sum.split)

lemma prepare_on_cases:
  assumes "prepare_on fc p h = (r, h')"
  shows "h' = with_parent fc p h \<or>
    (\<exists>live m. ho_files h (at h p) = Some (SocketNode live m) \<and> fc_connect fc live = ProbeRefused \<and>
      h' = snd (remove_file fc p (with_parent fc p h)))"
proof -
  have made: "fold (path_effect_on fc p) (case fc_create_parent fc of None \<Rightarrow> [] | Some (parent, _) \<Rightarrow> [MakeParent parent]) h =
      with_parent fc p h"
    by (auto simp: with_parent_def path_effect_on_def split: option.split)
  have removed: "path_effect_on fc p RemovePath = (\<lambda>h. snd (remove_file fc p h))"
    by (simp add: path_effect_on_def fun_eq_iff)
  have "socket_status_of fc p (with_parent fc p h) = socket_status_of fc p h"
    by (simp add: socket_status_of_def)
  moreover have "socket_status_of fc p h = PathSocket ProbeRefused \<Longrightarrow>
      \<exists>live m. ho_files h (at h p) = Some (SocketNode live m) \<and> fc_connect fc live = ProbeRefused"
    by (auto simp: socket_status_of_def split: if_splits option.splits node.splits)
  ultimately show ?thesis
    using assms prepare_socket_path_effects [of "fc_create_parent fc" "socket_status_of fc p h"
        "fst (remove_file fc p (with_parent fc p h))" p]
    by (auto simp: prepare_on_def Let_def made removed split: prod.splits)
qed

lemma prepare_on_simps:
  assumes "prepare_on fc p h = (r, h')"
  shows "ho_cwd h' = ho_cwd h" "ho_umask h' = ho_umask h" "ho_process h' = ho_process h"
    and "q \<noteq> at h p \<Longrightarrow> ho_files h' q = ho_files (with_parent fc p h) q"
  using prepare_on_cases [OF assms] by auto

text \<open>The mask of a process has nine bits, so the guard gives back what it took.\<close>

definition mask_ok :: "host \<Rightarrow> bool" where
  "mask_ok h \<longleftrightarrow> ho_umask h AND 0x1FF = ho_umask h"

lemma bind_socket_simps:
  assumes "bind_socket fc p h = (r, h')" and "mask_ok h"
  shows "ho_cwd h' = ho_cwd h" "ho_umask h' = ho_umask h" "ho_process h' = ho_process h"
    and "q \<noteq> at h p \<Longrightarrow> ho_files h' q = ho_files h q"
    and "ho_files h' (at h p) = (if r = Inr () then Some (SocketNode True 0x1C0) else ho_files h (at h p))"
proof -
  have "(0x1FF :: u32) AND NOT (UMASK_PRIVATE AND 0x1FF) = 0x1C0"
    by (simp add: UMASK_PRIVATE_def)
  moreover obtain e where "with_context (''binding '' @ p) (external ''io'' :: unit result) = Inl e"
    by (simp add: external_def)
  ultimately show "ho_cwd h' = ho_cwd h" "ho_umask h' = ho_umask h" "ho_process h' = ho_process h"
    and "q \<noteq> at h p \<Longrightarrow> ho_files h' q = ho_files h q"
    and "ho_files h' (at h p) = (if r = Inr () then Some (SocketNode True 0x1C0) else ho_files h (at h p))"
    using assms by (auto simp: bind_socket_def umask_def mask_ok_def Let_def split: if_splits)
qed


text \<open>A node that start-up may replace: a socket that refuses connections.\<close>

definition refused :: "file_calls \<Rightarrow> node \<Rightarrow> bool" where
  "refused fc n \<longleftrightarrow> (case n of SocketNode live _ \<Rightarrow> fc_connect fc live = ProbeRefused | _ \<Rightarrow> False)"

lemma prepare_on_kept:
  assumes "ho_files h (at h p) = Some n" and "\<not> refused fc n" and "prepare_on fc p h = (r, h')"
  shows "h' = with_parent fc p h"
  using prepare_on_cases [OF assms(3)] assms(1,2) by (auto simp: refused_def)

lemma bind_socket_occupied:
  assumes "ho_files h (at h p) = Some n" and "mask_ok h"
  shows "\<exists>e. bind_socket fc p h = (Inl e, h)"
  using assms by (cases h) (auto simp: bind_socket_def umask_def mask_ok_def Let_def external_def)

context startup_reporter
begin

lemma bind_listener_kept:
  assumes "ho_files h (at h socket) = Some n" and "\<not> refused fc n" and "mask_ok h"
  shows "\<exists>e rep'. bind_listener ready error fc socket rep h = (Inl e, rep', with_parent fc socket h)"
proof -
  let ?h = "with_parent fc socket h"
  obtain r h1 where prep: "prepare_on fc socket h = (r, h1)" by force
  then have h1: "h1 = ?h" using prepare_on_kept [OF assms(1,2)] by blast
  have "mask_ok ?h" using assms(3) by (simp add: mask_ok_def)
  with assms(1) obtain e where "bind_socket fc socket ?h = (Inl e, ?h)"
    using bind_socket_occupied [of ?h socket n fc] by auto
  with prep h1 show ?thesis by (cases r) (auto simp: bind_listener_def)
qed

lemma bind_listener_frame:
  assumes "bind_listener ready error fc socket rep h = (r, rep', h')" and "mask_ok h"
  shows "ho_cwd h' = ho_cwd h \<and> ho_umask h' = ho_umask h \<and> ho_process h' = ho_process h \<and>
    (\<forall>q. q \<noteq> at h socket \<longrightarrow> q \<notin> at h ` owned rep \<longrightarrow> ho_files h' q = ho_files (with_parent fc socket h) q)"
proof -
  obtain r1 h1 where prep: "prepare_on fc socket h = (r1, h1)" by force
  obtain r2 h2 where bind: "bind_socket fc socket h1 = (r2, h2)" by force
  obtain r3 h3 where perm: "set_permissions fc socket MODE_PRIVATE h2 = (r3, h3)" by force
  obtain r4 rep4 h4 where rdy: "ready rep h3 = (r4, rep4, h4)" by (metis prod_cases3)
  note p = prepare_on_simps [OF prep]
  have "mask_ok h1" using assms(2) p by (simp add: mask_ok_def)
  note b = bind_socket_simps [OF bind this] and s = set_permissions_simps [OF perm]
    and y = ready_rest [OF rdy] ready_other [OF rdy]
  have "h' \<in> {h1, h2, close_listener socket (snd (remove_file fc socket h3)), h4,
      close_listener socket (snd (remove_file fc socket h4))}"
    using assms(1) prep bind perm rdy
    by (auto simp: bind_listener_def Let_def split: sum.splits)
  then show ?thesis using p b s y by auto
qed

lemma bind_listener_ok:
  assumes "bind_listener ready error fc socket rep h = (Inr (), rep', h')" and "mask_ok h"
    and "at h socket \<notin> at h ` owned rep"
  shows "ho_files h' (at h socket) = Some (SocketNode True MODE_PRIVATE)"
proof -
  obtain h1 h2 h3 where prep: "prepare_on fc socket h = (Inr (), h1)"
    and bind: "bind_socket fc socket h1 = (Inr (), h2)"
    and perm: "set_permissions fc socket MODE_PRIVATE h2 = (Inr (), h3)"
    and rdy: "ready rep h3 = (Inr (), rep', h')"
    using assms(1) by (auto simp: bind_listener_def Let_def external_def split: sum.splits prod.splits)
  note p = prepare_on_simps [OF prep] and s = set_permissions_simps [OF perm]
  have "mask_ok h1" using assms(2) p by (simp add: mask_ok_def)
  note b = bind_socket_simps [OF bind this]
  have "ho_files h2 (at h2 socket) = Some (SocketNode True 0x1C0)" using b by simp
  then have "ho_files h3 (at h2 socket) = Some (SocketNode True MODE_PRIVATE)"
    using perm by (auto simp: set_permissions_def external_def split: if_splits)
  with ready_other [OF rdy, of "at h socket"] assms(3) p b s show ?thesis by simp
qed

end

interpretation noop: startup_reporter noop_ready noop_error "\<lambda>_. {}"
proof
  fix rep :: unit and h r rep' h'
  assume "noop_ready rep h = (r, rep', h')"
  then show "\<exists>files. h' = h\<lparr>ho_files := files\<rparr> \<and> (\<forall>q. q \<notin> at h ` {} \<longrightarrow> files q = ho_files h q)"
    by (intro exI [of _ "ho_files h"]) (simp add: noop_ready_def)
qed

interpretation pipe: startup_reporter "pipe_ready en fc" "pipe_error en" "\<lambda>rep. {rp_pid_file rep}" for en fc
proof
  fix rep h r rep' h'
  assume *: "pipe_ready en fc rep h = (r, rep', h')"
  have w: "write_file fc p t h = (r1, h1) \<Longrightarrow>
      \<exists>files. h1 = h\<lparr>ho_files := files\<rparr> \<and> (\<forall>q. q \<noteq> at h p \<longrightarrow> files q = ho_files h q)" for p t r1 h1
    by (cases h) (auto simp: write_file_def set_node_def split: option.splits)
  obtain r1 h1 where 1: "write_file fc (rp_pid_file rep) (show_nat (unat (fc_pid fc))) h = (r1, h1)" by force
  from w [OF this] obtain files where files: "h1 = h\<lparr>ho_files := files\<rparr>"
    "\<forall>q. q \<noteq> at h (rp_pid_file rep) \<longrightarrow> files q = ho_files h q" by blast
  have "h' = h1 \<or> h' = snd (remove_file fc (rp_pid_file rep) h1)"
    using * 1 by (auto simp: pipe_ready_def split: sum.splits prod.splits)
  then show "\<exists>files. h' = h\<lparr>ho_files := files\<rparr> \<and>
      (\<forall>q. q \<notin> at h ` {rp_pid_file rep} \<longrightarrow> files q = ho_files h q)"
    using files by (cases h) (auto simp: remove_file_def set_node_def)
qed


section \<open>What start-up promises\<close>

text \<open>
  C23. The daemon's socket is private from the moment it exists: it is bound with a mask that
  leaves no permission to group and others, has mode \<open>0600\<close> once the daemon is ready, and the
  process has its own mask again.
\<close>

theorem daemon_socket_private:
  assumes "mask_ok h" and "at h socket \<noteq> at h (rp_pid_file rep)"
    and "bind_listener (pipe_ready en fc) (pipe_error en) fc socket rep h = (Inr (), rep', h')"
  shows "(\<exists>h1 h2 m. prepare_on fc socket h = (Inr (), h1) \<and> bind_socket fc socket h1 = (Inr (), h2) \<and>
      ho_files h2 (at h socket) = Some (SocketNode True m) \<and> m AND 0x3F = 0) \<and>
    ho_files h' (at h socket) = Some (SocketNode True MODE_PRIVATE) \<and> ho_umask h' = ho_umask h"
proof -
  obtain h1 h2 where prep: "prepare_on fc socket h = (Inr (), h1)"
    and bind: "bind_socket fc socket h1 = (Inr (), h2)"
    using assms(3) by (auto simp: bind_listener_def split: sum.splits prod.splits)
  have "mask_ok h1" using prepare_on_simps(2) [OF prep] assms(1) by (simp add: mask_ok_def)
  from bind_socket_simps [OF bind this] prepare_on_simps(1) [OF prep]
  have "ho_files h2 (at h socket) = Some (SocketNode True 0x1C0)" by simp
  moreover have "(0x1C0 :: u32) AND 0x3F = 0" by simp
  ultimately show ?thesis
    using prep bind pipe.bind_listener_ok [OF assms(3,1)] pipe.bind_listener_frame [OF assms(3,1)] assms(2)
    by blast
qed

definition ex_file_calls :: file_calls where
  "ex_file_calls = \<lparr>fc_create_parent = Some (''/r'', Inr ()), fc_made = [''/r''], fc_metadata = True,
     fc_connect = (\<lambda>live. if live then ProbeConnected else ProbeRefused), fc_remove = (\<lambda>_. True),
     fc_bind = True, fc_chmod = True, fc_write = Some 10, fc_pid = 42\<rparr>"

definition ex_host :: host where
  "ex_host = \<lparr>ho_files = (\<lambda>p. if p = ''/r/s'' then Some (SocketNode False 0x180) else None),
     ho_cwd = ''/home'', ho_umask = 0x12, ho_process = ex_process\<rparr>"

definition ex_reporter :: pipe_reporter where
  "ex_reporter = \<lparr>rp_stream = empty_pipe, rp_pid_file = ''/r/p''\<rparr>"


lemma ex_bind_listener:
  "fst (bind_listener (pipe_ready ex_env ex_file_calls) (pipe_error ex_env) ex_file_calls ''/r/s'' ex_reporter ex_host) =
     Inr ()"
  by code_simp

theorem daemon_socket_private_witness:
  "ho_files (snd (snd (bind_listener (pipe_ready ex_env ex_file_calls) (pipe_error ex_env) ex_file_calls
     ''/r/s'' ex_reporter ex_host))) (at ex_host ''/r/s'') = Some (SocketNode True MODE_PRIVATE)"
proof -
  have "mask_ok ex_host" "at ex_host ''/r/s'' \<noteq> at ex_host (rp_pid_file ex_reporter)"
    by (simp_all add: mask_ok_def ex_host_def ex_reporter_def path_join_def is_absolute_def starts_with_def)
  from daemon_socket_private [OF this, of ex_env ex_file_calls] ex_bind_listener show ?thesis
    by (metis prod.collapse)
qed

text \<open>
  C22. Starting the daemon takes nothing from anyone: whatever comes of it, besides the socket's
  path and the pid file nothing changes but missing directories above the socket, which can
  have been made; and what is at the socket's path stays, start-up fails, and no more than
  those directories was made, unless it is a socket that refuses connections.
\<close>

theorem start_takes_only_dead_socket:
  assumes "mask_ok h"
    and "bind_listener (pipe_ready en fc) (pipe_error en) fc socket rep h = (r, rep', h')"
  shows "(q \<noteq> at h socket \<longrightarrow> q \<noteq> at h (rp_pid_file rep) \<longrightarrow> ho_files h' q = ho_files h q \<or>
      ho_files h q = None \<and> ho_files h' q = Some DirNode \<and> above q (at h socket)) \<and>
    (ho_files h (at h socket) = Some n \<longrightarrow> \<not> refused fc n \<longrightarrow>
      isl r \<and> ho_files h' (at h socket) = Some n \<and> h' = with_parent fc socket h)"
proof (intro conjI impI)
  assume "q \<noteq> at h socket" "q \<noteq> at h (rp_pid_file rep)"
  then have "ho_files h' q = ho_files (with_parent fc socket h) q"
    using pipe.bind_listener_frame [OF assms(2,1)] by simp
  then show "ho_files h' q = ho_files h q \<or>
      ho_files h q = None \<and> ho_files h' q = Some DirNode \<and> above q (at h socket)"
    using with_parent_files [of fc socket h q] by simp
next
  assume n: "ho_files h (at h socket) = Some n" and "\<not> refused fc n"
  then obtain e rep1 where
    "bind_listener (pipe_ready en fc) (pipe_error en) fc socket rep h = (Inl e, rep1, with_parent fc socket h)"
    using pipe.bind_listener_kept [OF _ _ assms(1)] by blast
  then show "isl r" "h' = with_parent fc socket h" "ho_files h' (at h socket) = Some n"
    using assms(2) n by simp_all
qed

theorem start_takes_only_dead_socket_witness:
  "\<exists>e rep'. bind_listener (pipe_ready ex_env ex_file_calls) (pipe_error ex_env) ex_file_calls ''/r/s'' ex_reporter
     (ex_host\<lparr>ho_files := (\<lambda>_. Some (SocketNode True 0x180))\<rparr>) =
   (Inl e, rep', ex_host\<lparr>ho_files := (\<lambda>_. Some (SocketNode True 0x180))\<rparr>)"
proof -
  let ?h = "ex_host\<lparr>ho_files := (\<lambda>_. Some (SocketNode True 0x180))\<rparr>"
  have full: "with_parent ex_file_calls ''/r/s'' ?h = ?h"
    by (simp add: with_parent_def create_dir_all_def made_dir_def split: option.split)
  obtain r rep' h' where b: "bind_listener (pipe_ready ex_env ex_file_calls) (pipe_error ex_env) ex_file_calls
      ''/r/s'' ex_reporter ?h = (r, rep', h')" by (metis prod_cases3)
  have "mask_ok ?h" by (simp add: mask_ok_def ex_host_def)
  from start_takes_only_dead_socket [OF this b, of "[]" "SocketNode True 0x180"] b full show ?thesis
    by (auto simp: refused_def ex_file_calls_def isl_def)
qed









definition ex_run_calls :: run_calls where
  "ex_run_calls = \<lparr>rc_signals = ex_signal_calls\<lparr>sc_sigaction := (\<lambda>_. True)\<rparr>, rc_runtime = True,
     rc_turns = [ex_accept_turn [SIGTERM] [ConnectionComes]]\<rparr>"


section \<open>What the parent reports\<close>

text \<open>A response is read back from the line it is written as.\<close>

definition reads_back :: "env \<Rightarrow> parent_calls \<Rightarrow> response \<Rightarrow> bool" where
  "reads_back en pc r \<longleftrightarrow> (\<exists>line. en_to_vec en r = Inr line \<and> newline \<notin> set line \<and>
     valid_utf8 (line @ [newline]) \<and> pc_from_str pc (trim (line @ [newline])) = Inr r)"

lemma position_newline: "newline \<notin> set line \<Longrightarrow> position (\<lambda>b. b = newline) (line @ [newline]) = Some (length line)"
  by (induction line) auto

lemma line_of_line: "newline \<notin> set line \<Longrightarrow> line_of (line @ [newline]) = line @ [newline]"
  by (simp add: line_of_def position_newline)

text \<open>One response written to the empty pipe is what the parent sees.\<close>

lemma one_response:
  assumes "reads_back en pc r"
  obtains k where "write_response (en_to_vec en) r empty_pipe = (Inr (), k)"
    and "wait_for_readiness pc socket (k_out k) =
      (case r of
         ResponseDone \<Rightarrow> \<lparr>pe_stdout = socket @ [newline], pe_stderr = [], pe_code = 0\<rparr>
       | ResponseError message \<Rightarrow> says message
       | other \<Rightarrow> says (''unexpected daemon readiness response: '' @ pc_debug_response pc other))"
  using assms
  by (auto simp: reads_back_def write_response_def response_line_def write_all_def empty_pipe_def
      wait_for_readiness_def line_of_line Let_def split: response.splits)

lemma silent_pipe:
  assumes "isl (pc_from_str pc [])"
  shows "pe_code (wait_for_readiness pc socket []) = 1" "pe_stdout (wait_for_readiness pc socket []) = []"
proof -
  obtain e where "pc_from_str pc [] = Inl e" using assms by (auto simp: isl_def)
  then obtain e' where "with_context ''parsing daemon readiness'' (pc_from_str pc []) = Inl e'" by (cases e) simp
  then show "pe_code (wait_for_readiness pc socket []) = 1" "pe_stdout (wait_for_readiness pc socket []) = []"
    by (simp_all add: wait_for_readiness_def line_of_def trim_def says_def)
qed

lemma daemonize_child_cases:
  assumes "daemonize_child en dc rep h = d"
  shows "(\<exists>e h'. d = Exits 1 (snd (pipe_error en e rep)) h') \<or>
    (\<exists>h'. d = Continues rep h' \<and> ho_cwd h' = ''/'' \<and> ho_files h' = ho_files h \<and> ho_umask h' = ho_umask h)"
  using assms
  by (auto simp: daemonize_child_def exit_after_startup_error_def Let_def split: if_splits prod.splits sum.splits)

text \<open>How the pipe looks once the socket is bound, or could not be.\<close>

lemma bind_listener_pipe:
  assumes "bind_listener (pipe_ready en fc) (pipe_error en) fc socket rep h = (r, rep', h')"
  shows "(r = Inr () \<and> rp_stream rep' = snd (write_response (en_to_vec en) ResponseDone (rp_stream rep)) \<and>
      fst (write_response (en_to_vec en) ResponseDone (rp_stream rep)) = Inr ()) \<or>
    (isl r \<and> ((\<exists>e. rep' = snd (pipe_error en e rep)) \<or> rep' = rep \<or>
       isl (fst (write_response (en_to_vec en) ResponseDone (rp_stream rep)))))"
proof -
  have "\<exists>e. with_context (''setting permissions on '' @ socket) (Inl e' :: unit result) = Inl e" for e'
    by (cases e') simp
  then show ?thesis
    using assms
    by (auto simp: bind_listener_def pipe_ready_def Let_def external_def split: sum.splits prod.splits)
qed


lemma run_with_reporter:
  "fst (snd (run_with ready error en fc rc socket pid_file rep h)) =
     fst (snd (bind_listener ready error fc socket rep h))"
proof -
  obtain r rep1 h1 where bind: "bind_listener ready error fc socket rep h = (r, rep1, h1)" by (metis prod_cases3)
  obtain i p where inst: "install (rc_signals rc) (ho_process h1) = (i, p)" by force
  obtain sr p' rest where serve:
    "serve_connections en (rc_turns rc) p (limiter_new MAX_CONNECTIONS) = (sr, p', rest)" by (metis prod_cases3)
  from bind inst serve show ?thesis
    by (cases r; cases i; cases sr) (simp_all add: run_with_def)
qed

abbreviation fresh_reporter :: "path \<Rightarrow> pipe_reporter" where
  "fresh_reporter pid_file \<equiv> \<lparr>rp_stream = empty_pipe, rp_pid_file = pid_file\<rparr>"

lemma error_seen:
  assumes "\<And>e. reads_back en pc (ResponseError (en_render en e))" and "rp_stream rep = empty_pipe"
  shows "wait_for_readiness pc socket (k_out (rp_stream (snd (pipe_error en e rep)))) = says (en_render en e)"
proof -
  obtain k where "write_response (en_to_vec en) (ResponseError (en_render en e)) empty_pipe = (Inr (), k)"
    and "wait_for_readiness pc socket (k_out k) = says (en_render en e)"
    by (rule one_response [OF assms(1) [of e], of socket]) simp
  then show ?thesis by (simp add: pipe_error_def assms(2))
qed

lemma bind_listener_seen:
  assumes "reads_back en pc ResponseDone" and "\<And>e. reads_back en pc (ResponseError (en_render en e))" and "isl (pc_from_str pc [])"
    and "bind_listener (pipe_ready en fc) (pipe_error en) fc socket (fresh_reporter pid_file) h = (r, rep', h')"
  shows "let pe = wait_for_readiness pc socket (k_out (rp_stream rep')) in
    if r = Inr () then pe = \<lparr>pe_stdout = socket @ [newline], pe_stderr = [], pe_code = 0\<rparr>
    else pe_code pe = 1 \<and> pe_stdout pe = []"
proof -
  obtain k where k: "write_response (en_to_vec en) ResponseDone empty_pipe = (Inr (), k)"
    "wait_for_readiness pc socket (k_out k) = \<lparr>pe_stdout = socket @ [newline], pe_stderr = [], pe_code = 0\<rparr>"
    using one_response [OF assms(1), of socket] by auto
  from bind_listener_pipe [OF assms(4)] show ?thesis
  proof (elim disjE conjE exE)
    fix e assume "isl r" "rep' = snd (pipe_error en e (fresh_reporter pid_file))"
    with error_seen [OF assms(2), of "fresh_reporter pid_file" socket e] show ?thesis
      by (auto simp: says_def isl_def)
  qed (use k silent_pipe [of pc socket, OF assms(3)] in \<open>auto simp: isl_def Let_def empty_pipe_def\<close>)
qed

text \<open>
  C20. The process that starts a background daemon tells the truth about it: it prints the
  socket's path and exits with status 0 exactly when the daemon has detached and its socket is
  bound and ready, and prints nothing and exits with status 1 otherwise.
\<close>

theorem background_start_reports_truth:
  assumes "reads_back en pc ResponseDone" and "\<And>e. reads_back en pc (ResponseError (en_render en e))" and "isl (pc_from_str pc [])"
    and "run_background en pc dc fc rc socket pid_file h = Launched pe r h'"
  shows "if \<exists>h1. daemonize_child en dc (fresh_reporter pid_file) (clear_request h) = Continues (fresh_reporter pid_file) h1 \<and>
        fst (bind_listener (pipe_ready en fc) (pipe_error en) fc socket (fresh_reporter pid_file) h1) = Inr ()
    then pe = \<lparr>pe_stdout = socket @ [newline], pe_stderr = [], pe_code = 0\<rparr>
    else pe_code pe = 1 \<and> pe_stdout pe = []"
  using daemonize_child_cases [OF refl, of en dc "fresh_reporter pid_file" "clear_request h"]
proof (elim disjE exE conjE)
  fix e h1
  assume "daemonize_child en dc (fresh_reporter pid_file) (clear_request h) =
    Exits 1 (snd (pipe_error en e (fresh_reporter pid_file))) h1"
  then have "pe = says (en_render en e)"
    using assms(4) error_seen [OF assms(2), of "fresh_reporter pid_file" socket e]
    by (simp add: run_background_def split: if_splits)
  with \<open>daemonize_child en dc _ _ = _\<close> show ?thesis by (simp add: says_def)
next
  fix h1
  assume child: "daemonize_child en dc (fresh_reporter pid_file) (clear_request h) = Continues (fresh_reporter pid_file) h1"
  obtain b rep1 h2 where bind:
    "bind_listener (pipe_ready en fc) (pipe_error en) fc socket (fresh_reporter pid_file) h1 = (b, rep1, h2)"
    by (metis prod_cases3)
  have "pe = wait_for_readiness pc socket (k_out (rp_stream rep1))"
    using assms(4) child bind
      run_with_reporter [of "pipe_ready en fc" "pipe_error en" en fc rc socket "Some pid_file" "fresh_reporter pid_file" h1]
    by (auto simp: run_background_def split: if_splits prod.splits)
  with bind_listener_seen [OF assms(1-3) bind] child bind show ?thesis
    by (auto simp: Let_def split: if_splits)
qed

definition ex_start_env :: env where
  "ex_start_env = ex_env\<lparr>en_to_vec := (\<lambda>r. if r = ResponseDone then Inr ''D'' else Inr ''E'')\<rparr>"

definition ex_parent :: parent_calls where
  "ex_parent = \<lparr>pc_from_str = (\<lambda>s. if s = ''D'' then Inr ResponseDone
     else if s = ''E'' then Inr (ResponseError ''e'') else external ''json''),
     pc_debug_response = (\<lambda>_. []), pc_debug_report = (\<lambda>_. ''eof'')\<rparr>"

definition ex_detach :: detach_calls where
  "ex_detach = \<lparr>dc_pair = True, dc_fork = 7, dc_setsid = 0, dc_second_fork = 0, dc_chdir = True,
     dc_dev_null = Inr 5, dc_duplicate = 6, dc_dup2 = (\<lambda>_. True)\<rparr>"

definition ex_serving :: run_calls where
  "ex_serving = ex_run_calls\<lparr>rc_turns := []\<rparr>"

lemma ex_reads_back:
  "reads_back ex_start_env ex_parent ResponseDone"
  "reads_back ex_start_env ex_parent (ResponseError (en_render ex_start_env e))"
  "isl (pc_from_str ex_parent [])"
proof -
  have "trim (''D'' @ [newline]) = ''D''" "trim (''E'' @ [newline]) = ''E''"
    "valid_utf8 (''D'' @ [newline])" "valid_utf8 (''E'' @ [newline])"
    by (simp_all add: trim_def white_piece_def is_whitespace_def)
  then show "reads_back ex_start_env ex_parent ResponseDone"
    "reads_back ex_start_env ex_parent (ResponseError (en_render ex_start_env e))"
    "isl (pc_from_str ex_parent [])"
    by (simp_all add: reads_back_def ex_start_env_def ex_parent_def ex_env_def external_def)
qed

theorem background_start_reports_truth_witness:
  "\<exists>pe r h'. run_background ex_start_env ex_parent (ex_detach\<lparr>dc_setsid := - 1\<rparr>) ex_file_calls ex_serving ''/r/s'' ''/r/p''
     ex_host = Launched pe r h' \<and> pe_code pe = 1"
proof -
  let ?d = "ex_detach\<lparr>dc_setsid := - 1\<rparr>"
  obtain rep h1 where exits: "daemonize_child ex_start_env ?d (fresh_reporter ''/r/p'') (clear_request ex_host) = Exits 1 rep h1"
    by (simp add: daemonize_child_def ex_detach_def exit_after_startup_error_def)
  have fork: "dc_pair ?d" "\<not> dc_fork ?d < 0" by (simp_all add: ex_detach_def)
  have run: "run_background ex_start_env ex_parent ?d ex_file_calls ex_serving ''/r/s'' ''/r/p'' ex_host =
      Launched (wait_for_readiness ex_parent ''/r/s'' (k_out (rp_stream rep))) None h1"
    unfolding run_background_def exits using fork by simp
  from background_start_reports_truth [OF ex_reads_back run] exits run show ?thesis by simp
qed

lemma not_above_relative:
  assumes "\<not> is_absolute socket"
  shows "\<not> above (path_join cwd socket) (''/'' @ socket)"
proof -
  let ?names = "\<lambda>s. map component_of (filter (\<lambda>piece. piece \<noteq> [] \<and> piece \<noteq> ''.'') (split_char CHR ''/'' s))"
  have joined: "split_char CHR ''/'' (a @ CHR ''/'' # s) = split_char CHR ''/'' a @ split_char CHR ''/'' s" for a s
    by (induction a) (auto split: list.split)
  have root: "path_components (''/'' @ socket) = RootDir # ?names socket"
    by (simp add: path_components_def starts_with_def)
  have "\<exists>lead. path_components (path_join cwd socket) = lead @ ?names socket"
  proof (cases "cwd = []")
    case True
    then show ?thesis by (simp add: path_join_def path_components_def Let_def)
  next
    case False
    then have "\<exists>a. path_join cwd socket = a @ CHR ''/'' # socket"
      using assms by (cases cwd rule: rev_cases) (auto simp: path_join_def)
    then show ?thesis by (auto simp: path_components_def Let_def joined)
  qed
  then obtain lead where lead: "path_components (path_join cwd socket) = lead @ ?names socket" by blast
  have cut: "lead @ xs = x # xs" if "lead @ xs \<noteq> []" "prefix (lead @ xs) (x # xs)" "x \<notin> set xs"
    for lead xs and x :: component
    using that by (cases lead) (auto simp: prefix_def Cons_eq_append_conv dest: arg_cong [of _ _ length])
  have "RootDir \<notin> set (?names socket)" by (auto simp: component_of_def)
  from cut [OF _ _ this, of lead] show ?thesis
    unfolding above_def path_starts_with_def starts_with_iff_prefix root lead by blast
qed

text \<open>
  C25. A relative socket path means another file to the daemon than to its caller: the daemon
  has changed to the root directory before it binds, so a background daemon that serves
  listens under the root, the caller is told the path it gave, and the file this path names
  for the caller is untouched.
\<close>

theorem relative_socket_bound_at_root:
  assumes "\<not> is_absolute socket" and "is_absolute pid_file" and "mask_ok h"
    and "at h socket \<notin> {''/'' @ socket, pid_file}" and "''/'' @ socket \<noteq> pid_file"
    and "reads_back en pc ResponseDone"
    and "run_background en pc dc fc rc socket pid_file h = Launched pe (Some None) h'"
  shows "pe_stdout pe = socket @ [newline] \<and> ho_files h' (''/'' @ socket) = Some (SocketNode True MODE_PRIVATE) \<and>
    ho_files h' (at h socket) = ho_files h (at h socket)"
proof -
  let ?rep = "fresh_reporter pid_file"
  obtain h1 where child: "daemonize_child en dc ?rep (clear_request h) = Continues ?rep h1"
    and h1: "ho_cwd h1 = ''/''" "ho_files h1 = ho_files h" "ho_umask h1 = ho_umask h"
    using daemonize_child_cases [OF refl, of en dc ?rep "clear_request h"] assms(7)
    by (auto simp: run_background_def clear_request_def split: if_splits prod.splits)
  obtain rep1 h2 p where run: "run_with (pipe_ready en fc) (pipe_error en) en fc rc socket (Some pid_file) ?rep h1 =
      (None, rep1, h')" and pe: "pe = wait_for_readiness pc socket (k_out (rp_stream rep1))"
    using assms(7) child by (auto simp: run_background_def split: if_splits prod.splits)
  obtain h2 where bind: "bind_listener (pipe_ready en fc) (pipe_error en) fc socket ?rep h1 = (Inr (), rep1, h2)"
    and files: "ho_files h' = ho_files h2"
    using run by (auto simp: run_with_def split: sum.splits prod.splits option.splits if_splits)
  have at: "at h1 socket = ''/'' @ socket" "at h1 pid_file = pid_file"
    using assms(1,2) by (simp_all add: h1(1) path_join_def)
  have "mask_ok h1" using assms(3) h1 by (simp add: mask_ok_def)
  note frame = pipe.bind_listener_frame [OF bind this] and ok = pipe.bind_listener_ok [OF bind this]
  obtain k where "write_response (en_to_vec en) ResponseDone empty_pipe = (Inr (), k)"
    and "wait_for_readiness pc socket (k_out k) = \<lparr>pe_stdout = socket @ [newline], pe_stderr = [], pe_code = 0\<rparr>"
    using one_response [OF assms(6), of socket] by auto
  with bind_listener_pipe [OF bind] pe have "pe_stdout pe = socket @ [newline]" by simp
  moreover have "ho_files (with_parent fc socket h1) (at h socket) = ho_files h (at h socket)"
    using not_above_relative [OF assms(1), of "ho_cwd h"] by (simp add: at h1(2))
  ultimately show ?thesis using frame ok at files assms(4,5) by simp
qed


definition ex_detached :: host where
  "ex_detached = ex_host\<lparr>ho_cwd := ''/'',
     ho_process := snd (redirect_stdio_to_dev_null (Inr 5) 6 (\<lambda>_. True) ex_process)\<rparr>"

lemma ex_detached:
  "daemonize_child ex_start_env ex_detach rep (clear_request ex_host) = Continues rep ex_detached"
  by (simp add: daemonize_child_def ex_detach_def ex_detached_def clear_request_def ex_host_def ex_process_def
      redirect_stdio_to_dev_null_def stable_source_fd_def dup2_def Let_def)

lemma ex_detached_bind:
  "fst (bind_listener (pipe_ready ex_start_env ex_file_calls) (pipe_error ex_start_env) ex_file_calls ''s''
     (fresh_reporter ''/r/p'') ex_detached) = Inr ()"
  by code_simp

lemma ex_detached_run:
  "fst (run_with (pipe_ready ex_start_env ex_file_calls) (pipe_error ex_start_env) ex_start_env ex_file_calls
     ex_serving ''s'' (Some ''/r/p'') (fresh_reporter ''/r/p'') ex_detached) = None"
proof -
  obtain rep1 h1 where bind: "bind_listener (pipe_ready ex_start_env ex_file_calls) (pipe_error ex_start_env)
      ex_file_calls ''s'' (fresh_reporter ''/r/p'') ex_detached = (Inr (), rep1, h1)"
    using ex_detached_bind by (metis prod.collapse)
  have "mask_ok ex_detached" by (simp add: mask_ok_def ex_detached_def ex_host_def)
  from pipe.bind_listener_frame [OF bind this]
  have "ho_process h1 = snd (redirect_stdio_to_dev_null (Inr 5) 6 (\<lambda>_. True) ex_process)"
    by (simp add: ex_detached_def)
  moreover have "\<exists>sh p. install (rc_signals ex_serving)
      (snd (redirect_stdio_to_dev_null (Inr 5) 6 (\<lambda>_. True) ex_process)) = (Inr sh, p)"
    by (simp add: ex_serving_def ex_run_calls_def ex_signal_calls_def ex_process_def install_def fresh_end_def
        configure_signal_pipe_def set_fd_cloexec_def set_fd_nonblocking_def install_shutdown_handler_def Let_def)
  ultimately show ?thesis
    using bind by (auto simp: run_with_def ex_serving_def ex_run_calls_def)
qed

theorem relative_socket_bound_at_root_witness:
  "\<exists>pe h'. run_background ex_start_env ex_parent ex_detach ex_file_calls ex_serving ''s'' ''/r/p'' ex_host =
     Launched pe (Some None) h' \<and> pe_stdout pe = ''s'' @ [newline] \<and>
     ho_files h' ''/s'' = Some (SocketNode True MODE_PRIVATE) \<and> ho_files h' ''/home/s'' = None"
proof -
  have fork: "dc_pair ex_detach" "\<not> dc_fork ex_detach < 0" by (simp_all add: ex_detach_def)
  obtain rep1 h' where "run_with (pipe_ready ex_start_env ex_file_calls) (pipe_error ex_start_env) ex_start_env
      ex_file_calls ex_serving ''s'' (Some ''/r/p'') (fresh_reporter ''/r/p'') ex_detached = (None, rep1, h')"
    using ex_detached_run by (metis prod.collapse)
  then have run: "run_background ex_start_env ex_parent ex_detach ex_file_calls ex_serving ''s'' ''/r/p'' ex_host =
      Launched (wait_for_readiness ex_parent ''s'' (k_out (rp_stream rep1))) (Some None) h'"
    unfolding run_background_def ex_detached using fork by simp
  have "\<not> is_absolute ''s''" "is_absolute ''/r/p''" "mask_ok ex_host"
    "at ex_host ''s'' \<notin> {''/'' @ ''s'', ''/r/p''}" "''/'' @ ''s'' \<noteq> ''/r/p''"
    by (simp_all add: is_absolute_def starts_with_def mask_ok_def ex_host_def path_join_def)
  from relative_socket_bound_at_root [OF this ex_reads_back(1) run] run show ?thesis
    by (simp add: ex_host_def path_join_def is_absolute_def starts_with_def)
qed

lemma sint_byte: "sint (ucast v :: 16 word) = uint (v :: 8 word)"
proof -
  have "uint v < 256" using uint_lt2p [of v] by simp
  moreover have "uint (ucast v :: 16 word) = uint v" by (simp add: uint_up_ucast is_up)
  moreover have "signed_take_bit 15 (uint v) = uint v"
    using calculation(1) by (intro signed_take_bit_int_eq_self) (simp_all, rule order_trans [OF _ uint_ge_0], simp)
  ultimately show ?thesis by (simp add: sint_uint)
qed

text \<open>The difference of two bytes fits an \<open>i16\<close>: counting flags never wraps the level around.\<close>

lemma log_level_difference:
  "sint ((ucast verbose :: 16 word) - ucast quiet) = uint (verbose :: 8 word) - uint (quiet :: 8 word)"
proof -
  have "uint verbose < 256" "uint quiet < 256" "0 \<le> uint verbose" "0 \<le> uint quiet"
    using uint_lt2p [of verbose] uint_lt2p [of quiet] by simp_all
  then have "signed_take_bit 15 (uint verbose - uint quiet) = uint verbose - uint quiet"
    by (intro signed_take_bit_int_eq_self; simp; linarith)
  then show ?thesis by (simp add: sint_word_ariths sint_byte)
qed

end
