(* ===== verification/Spec2Isabelle.thy ===== *)
theory Spec2Isabelle
  imports Cli_Main Worker_Task Daemon_Start Serde_Config
begin

text \<open>
  A verification library for evix, an evaluator that walks the attribute tree of a Nix
  expression with a pool of local and remote workers, keeps the result as a warm graph that
  can be queried, diffed and watched, and serves all of this from a daemon.

  \<^bold>\<open>The program and its theories.\<close> A \<open>run_evaluation\<close> validates a configuration, forks a task for
  every worker it specifies and coordinates them until no attribute is left; a session keeps
  the warm state of such runs; the command line program and the daemon drive sessions.

  \<^item> \<open>Prelude\<close>: machine integers, reports and the \<open>?\<close> operator, ordered maps, string
    operations, and \<open>inductive_invariant\<close>, the safety argument of all state machines.
    \<open>Std_Text\<close>: characters, white space, lossy UTF-8, number parsing, lines. \<open>Paths\<close>: components,
    joining and the order of paths. \<open>Descriptors\<close>: descriptor tables and \<open>dup2\<close>.
  \<^item> \<open>Protocol\<close> (\<open>evix-protocol/src/lib.rs\<close>, \<open>evix/src/config.rs\<close>): configurations and their builder,
    derivations, errors, events, diffs, filters, requests, responses. \<open>Serde_Config\<close>
    (\<open>serde_config.rs\<close> and the derived instances): the JSON documents of configurations and
    requests, both ways; \<open>Serde_Response\<close> (the derived instances of \<open>lib.rs\<close>): those of responses.
    \<open>Json_Events\<close> (\<open>evix/src/json.rs\<close>): the flat lines of events and diffs.
  \<^item> \<open>Warm_State\<close> (\<open>state.rs\<close>): the graph, diffs, filters and the wildcard matcher.
  \<^item> \<open>Scheduler\<close>, \<open>Coordinator\<close>, \<open>Worker_Task\<close> (\<open>async_master.rs\<close>): \<open>Scheduler\<close> is the record
    \<open>scheduler\<close> with \<open>next_for\<close> and \<open>complete\<close>; \<open>Coordinator\<close> is the \<open>coordinate\<close> loop, one iteration
    per \<open>coordinate_turn\<close>, first alone and then with the pool it talks to (\<open>sys_turn\<close>);
    \<open>Worker_Task\<close> is the other half, the task of one worker with its restarts, reconnections and
    time-outs, and \<open>run_evaluation\<close>, from the validation to the shutdown.
  \<^item> \<open>Worker_Wire\<close> (\<open>remote_proto.rs\<close>, \<open>worker_config.rs\<close>): both message types. \<open>Worker_Process\<close>
    (\<open>worker_process.rs\<close>): the coordinator's handle on a process. \<open>Worker\<close> (\<open>worker.rs\<close>): the process
    itself. \<open>Fork\<close> (\<open>fork.rs\<close>): forking it. \<open>Remote_Worker\<close> (\<open>remote_worker.rs\<close>): both ends of a
    remote connection. \<open>Eval\<close> (\<open>eval.rs\<close>): the evaluation of one attribute, \<open>process_attr\<close>.
  \<^item> \<open>Watch\<close> (\<open>watch.rs\<close>, \<open>run.rs\<close>, \<open>error.rs\<close>) and \<open>Session\<close> (\<open>session.rs\<close>): the record \<open>session\<close> and its
    operations, as functions from the state before to a result and the state after.
  \<^item> \<open>Session_Cache\<close> (\<open>session_cache.rs\<close>, \<open>connection_limit.rs\<close>), \<open>Daemon\<close> (the requests of
    \<open>evix-daemon/src/lib.rs\<close>), \<open>Daemon_Signals\<close> and \<open>Daemon_Start\<close> (its accept loop, shutdown
    handlers, start-up and clean-up, and \<open>evixd.rs\<close>).
  \<^item> \<open>Cli_Args\<close> and \<open>Cli_Main\<close> (\<open>evix-cli/src/args.rs\<close>, \<open>main.rs\<close>): argument packing, plans, the client
    of the daemon and the commands.
  \<^item> this theory: the properties that span components.

  \<^bold>\<open>How the code is read.\<close> A struct is a record with the struct's fields, an enum a datatype, a
  handler one function that contains every early return of the source; state is passed
  explicitly; a fallible function returns a \<open>result\<close> (a report under its contexts, or a value) and
  a panic is an error of its own. Integers that can overflow are words of the source's width.
  Concurrency is made of sequences: the coordinator's messages, a worker's replies, a watch's
  turns, the daemon's connections and signals arrive in an order that the theorems quantify
  over. What is outside the sources (the Nix library, the operating system, the Cap'n Proto
  runtime, the text of JSON, sockets, clocks) is a parameter, mostly a record of functions or of
  call results; where a theorem needs more of it than its type says, the law is a hypothesis, as
  for a parser that reads back what its printer wrote.

  \<^bold>\<open>What is shown.\<close>
  \<^item> Scheduling and the run: a worker holds at most one item and every item is somewhere; the
    loop never waits without a message to come; with workers that answer it ends within one
    turn per attribute, one per worker and one more, and then the sink got exactly the
    attribute tree; a task answers every command it is sent, across restarts and reconnections.
  \<^item> Evaluation: an answer belongs to its path, its children are attributes of the value and stop
    at \<open>MAX_ATTR_DEPTH\<close>; JSON conversion is bounded; roots are created inside their directory only.
  \<^item> Processes and connections: replies come in the order of the commands and are evaluations of
    the configuration that was set up; a remote worker serves only an authorised setup; messages
    are read back as written.
  \<^item> Sessions: the invariant of the warm state under every interleaving, failing spawns included,
    re-evaluation that is all or nothing as its run decides, what a watch subscriber can
    reconstruct, and diffs as patches.
  \<^item> Daemon: the cache invariant, replays that repeat their evaluation, sessions that are not
    shared, requests that survive their encoding, bounded request lines, a start-up that takes
    only a dead socket's path and makes only missing directories above it, keeps its socket
    private and reports the truth, shutdown requests that are not lost because the handler's byte
    ends the wait, and a clean-up that leaves nothing but those directories.
  \<^item> Command line: a run through the daemon prints what a local run prints, through the documents
    of its responses and up to a \<open>meta\<close> of \<open>null\<close>, which the daemon's client loses
    (\<open>null_meta_is_lost\<close>); and requests name the same things in the daemon's working directory,
    up to the parent directory \<open>..\<close>, which is not resolved (\<open>parent_reference_is_not_resolved\<close>).

  \<^bold>\<open>Interfaces.\<close> \<open>inductive_invariant\<close> is interpreted for the coordinator with its pool, sessions, the
  daemon and the connection limiter; \<open>session_store\<close> for the session registry; \<open>codec\<close> for every
  message and document; \<open>worker_contract\<close> for the worker process and for the process of a host;
  \<open>remote_contract\<close> for the remote service; \<open>worker_machine\<close> for the machine of a task, on the two
  contracts before; \<open>startup_reporter\<close> for both reporters of the daemon.

  \<^bold>\<open>Bounds and fuel.\<close> Functions are total. Loops over outside events recurse on the list of these
  events, and a result \<open>None\<close> says that the loop still runs when the list ends; theorems about
  such a loop ending say how many events it takes. Descending attributes ends at
  \<open>MAX_ATTR_DEPTH\<close> (64), which bounds the tree of a cyclic value; forking ends with the slots.

  \<^bold>\<open>Not modelled.\<close> \<open>generated/worker_capnp.rs\<close> is the output of the Cap'n Proto compiler, and
  \<open>build.rs\<close> runs that compiler. Logging, the allocator and the tests have no behaviour to
  state. The derived text of help pages and the argument parser belong to a library, as do the
  JSON printer and parser, the watcher and the asynchronous runtime. \<open>unsafe\<close> blocks are modelled
  by what their system calls do.
\<close>

section \<open>A run of the real evaluator\<close>

text \<open>The answers of a pool whose workers all evaluate one root value.\<close>

definition pool_answer ::
  "'v nix \<Rightarrow> 'f gc_fs \<Rightarrow> (report \<Rightarrow> string) \<Rightarrow> 'v \<Rightarrow> eval_options \<Rightarrow> (attr_path \<Rightarrow> 'f) \<Rightarrow> attr_path \<Rightarrow> event" where
  "pool_answer nx fs render root opts st p = fst (process_attr nx fs render root opts p (st p))"

lemma pool_answer_answers: "answers_path p (pool_answer nx fs render root opts st p)"
  unfolding pool_answer_def by (rule process_attr_answers)

lemma answers_path_path: "answers_path p e \<Longrightarrow> event_attr_path e = p"
  by (simp add: answers_path_def)

lemma answers_path_leaf: "answers_path p e \<Longrightarrow> MAX_ATTR_DEPTH \<le> length p \<Longrightarrow> child_paths p e = []"
  by (cases e) (simp_all add: answers_path_def)

lemma answers_path_accepted:
  "answers_path p e \<Longrightarrow> w \<in> set specs \<Longrightarrow> (\<And>system. worker_accepts_system w system) \<Longrightarrow> accepted specs e"
  by (cases e) (auto simp: answers_path_def accepted_def list_ex_iff)

lemma pool_answer_bounded: "depth_bounded (pool_answer nx fs render root opts st) MAX_ATTR_DEPTH"
  unfolding depth_bounded_def
  by (intro allI impI, rule answers_path_leaf [OF pool_answer_answers])

text \<open>
  C1. Evaluation ends for every value, cyclic ones included: with a local worker in the
  configuration, a run whose workers answer with what \<open>process_attr\<close> gives them returns
  \<open>Completed\<close> within one turn per attribute down to \<open>MAX_ATTR_DEPTH\<close>, one per worker and
  one more, and the sink got exactly these answers, whatever the order of the workers.
\<close>

theorem every_value_is_evaluated:
  assumes "worker_specs open_slot c = Inr specs"
    and "local_workers c \<noteq> 0"
    and "turns_ok (pool_answer nx fs render root opts st) render specs ts (initial_sys specs)"
    and "turns_live render specs ts (initial_sys specs)"
    and "length (attr_tree (pool_answer nx fs render root opts st) MAX_ATTR_DEPTH) + length specs < length ts"
  shows "\<exists>y. sys_run render specs ts (initial_sys specs) = (y, Some (Inr Completed)) \<and>
    mset (y_emitted y) = mset (map (pool_answer nx fs render root opts st)
      (attr_tree (pool_answer nx fs render root opts st) MAX_ATTR_DEPTH))"
proof -
  let ?answer = "pool_answer nx fs render root opts st"
  from worker_specs_first_local [OF assms(1,2)] obtain w where w: "w \<in> set specs" "\<And>system. worker_accepts_system w system"
    by (auto simp: worker_accepts_system_def)
  have accepted: "accepted specs (?answer p)" for p by (rule answers_path_accepted [OF pool_answer_answers w])
  from w have "specs \<noteq> []" by auto
  moreover have "work_left ?answer MAX_ATTR_DEPTH (initial_sys specs) < length ts"
    using assms(5) length_filter_le [of "\<lambda>id. is_forked (specs ! id)" "[0..<length specs]"]
    by (simp add: work_left_def initial_sys_def)
  ultimately obtain y where run: "sys_run render specs ts (initial_sys specs) = (y, Some (Inr Completed))"
    using sys_run_terminates [OF sys_inv_initial assms(3,4) _ accepted pool_answer_bounded] by auto
  note done' = sys_run_completed [OF sys_inv_initial assms(3) run]
  have "mset (map fst (y_done y)) = mset (attr_tree ?answer MAX_ATTR_DEPTH)"
    by (rule closed_paths_tree [OF conjunct2 [OF done'] pool_answer_bounded])
  then have "mset (map ?answer (map fst (y_done y))) = mset (map ?answer (attr_tree ?answer MAX_ATTR_DEPTH))"
    by (simp only: mset_map)
  with done' run show ?thesis by simp
qed

section \<open>From a run to a query\<close>

lemma find_rev_unique:
  assumes "\<And>e. e \<in> set xs \<Longrightarrow> x \<in> set xs \<Longrightarrow> key e = key x \<Longrightarrow> e = x"
  shows "find (\<lambda>e. key e = key x) (rev xs) = Some x \<longleftrightarrow> x \<in> set xs"
proof
  assume "find (\<lambda>e. key e = key x) (rev xs) = Some x"
  then show "x \<in> set xs" by (metis find_Some_iff length_rev nth_mem set_rev)
next
  assume x: "x \<in> set xs"
  then obtain y where y: "find (\<lambda>e. key e = key x) (rev xs) = Some y"
    by (cases "find (\<lambda>e. key e = key x) (rev xs)") (auto simp: find_None_iff)
  then have "y \<in> set xs" "key y = key x"
    by (metis find_Some_iff length_rev nth_mem set_rev, metis (mono_tags) find_Some_iff)
  with assms x y show "find (\<lambda>e. key e = key x) (rev xs) = Some x" by blast
qed

lemma derivation_in_events: "d \<in> set (event_derivations evs) \<longleftrightarrow> Derivation d \<in> set evs"
  by (auto simp: event_derivations_def split: event.splits)

text \<open>
  C2. From the evaluator to the answer of a query: when a run on which the workers evaluate
  one root value has completed and its events were streamed into a fresh session, a query
  returns exactly the derivations of the attribute tree that match the filter, none missing
  and none left over, whatever the number, kind and order of the workers.
\<close>

theorem query_sees_evaluated_tree:
  assumes "run_evaluation render na absolute joined open_slot ts joins c = (events, Some (Inr Completed))"
    and "\<forall>specs. worker_specs open_slot c = Inr specs \<longrightarrow>
      turns_ok (pool_answer nx fs render root opts st) render specs ts (initial_sys specs)"
    and "ss_initial s = InitIdle"
    and "s' = snd (stream render True readable writable (events, Inr Completed) s)"
  shows "\<exists>ds. query_snapshot f s' = Inr ds \<and> (\<forall>d. d \<in> set ds \<longleftrightarrow> matches_filter d f \<and>
    (\<exists>p \<in> set (attr_tree (pool_answer nx fs render root opts st) MAX_ATTR_DEPTH).
       pool_answer nx fs render root opts st p = Derivation d))"
proof -
  let ?answer = "pool_answer nx fs render root opts st"
  let ?tree = "attr_tree ?answer MAX_ATTR_DEPTH"
  have "mset events = mset (map ?answer ?tree)"
    using run_evaluation_completed [OF assms(1,2) pool_answer_bounded] by simp
  then have events: "set events = ?answer ` set ?tree" by (metis list.set_map mset_eq_setD)
  have own: "d_attr_path d = p" if "?answer p = Derivation d" for p d
    using answers_path_path [OF pool_answer_answers, of nx fs render root opts st p] that by simp
  have unique: "e = d" if d: "Derivation d \<in> set events" and e: "Derivation e \<in> set events"
    and same: "d_attr_path e = d_attr_path d" for d e
  proof -
    obtain p where p: "Derivation d = ?answer p" by (rule imageE [OF d [unfolded events]])
    obtain q where q: "Derivation e = ?answer q" by (rule imageE [OF e [unfolded events]])
    from own [OF p [symmetric]] own [OF q [symmetric]] same have "p = q" by simp
    with p q have "Derivation e = Derivation d" by (simp only:)
    then show ?thesis by simp
  qed
  have last: "find (\<lambda>e. d_attr_path e = d_attr_path d) (rev (event_derivations events)) = Some d \<longleftrightarrow>
      (\<exists>p \<in> set ?tree. ?answer p = Derivation d)" for d
  proof -
    have "find (\<lambda>e. d_attr_path e = d_attr_path d) (rev (event_derivations events)) = Some d \<longleftrightarrow>
        Derivation d \<in> ?answer ` set ?tree"
      unfolding events [symmetric] derivation_in_events [symmetric]
      by (rule find_rev_unique) (simp add: derivation_in_events unique)
    then show ?thesis by (simp only: image_iff eq_commute [of "Derivation d"])
  qed
  from query_after_stream [OF assms(3) _ assms(4), of f] obtain ds where "query_snapshot f s' = Inr ds"
    "\<forall>d. d \<in> set ds \<longleftrightarrow> matches_filter d f \<and>
      find (\<lambda>e. d_attr_path e = d_attr_path d) (rev (event_derivations events)) = Some d" by auto
  then show ?thesis unfolding last by (intro exI [of _ ds] conjI)
qed

section \<open>Flake references across components\<close>





text \<open>
  The parent directory is a local flake to the evaluator, but the client does not resolve it
  for the daemon: \<open>..\<close>, with or without a fragment, goes to the daemon as it is, to be looked up
  in the daemon's own working directory, while \<open>./..\<close> is resolved by the client.
\<close>

theorem parent_reference_is_not_resolved:
  "daemon_flake_ref canonicalize ''..'' = Inr ''..'' \<and>
   daemon_flake_ref canonicalize (''..#'' @ fragment) = Inr (''..#'' @ fragment) \<and>
   is_local_flake_reference ''..'' \<and> is_local_flake_reference (''..#'' @ fragment) \<and>
   daemon_flake_ref canonicalize ''./..'' =
     and_then (canonical_flake_path canonicalize ''./..'') (\<lambda>canonical. Inr (''path:'' @ canonical))"
proof -
  have [simp]: "strip_prefix ''path:'' (CHR ''.'' # s) = None" for s
    by (simp add: strip_prefix_def starts_with_def)
  show ?thesis
    by (simp add: daemon_flake_ref_def split_flake_fragment_def is_relative_flake_path_def starts_with_def
        is_absolute_def is_local_flake_reference_def)
qed

section \<open>A concrete run\<close>

definition ex_pool :: "attr_path \<Rightarrow> event" where
  "ex_pool = pool_answer ex_nix ex_fs ex_render ex_root ex_options (\<lambda>_. [])"

definition ex_pool_turns :: "turn list" where
  "ex_pool_turns = map ex_turn
     [Some (WorkResult 0 (WorkItem []) (Inr (ex_pool []))), Some (Ready 1),
      Some (WorkResult 1 (WorkItem [''s'']) (Inr (ex_pool [''s'']))),
      Some (WorkResult 0 (WorkItem [''a'']) (Inr (ex_pool [''a'']))), None, None]"

lemma ex_pool_tree: "attr_tree ex_pool MAX_ATTR_DEPTH = [[], [''a''], [''s'']]"
  by code_simp

lemma ex_pool_turns_ok: "turns_ok ex_pool ex_render ex_specs ex_pool_turns (initial_sys ex_specs)"
  by code_simp

lemma ex_pool_turns_live: "turns_live ex_render ex_specs ex_pool_turns (initial_sys ex_specs)"
  unfolding ex_pool_turns_def by (rule ex_all_live_turns) code_simp

theorem every_value_is_evaluated_witness:
  "\<exists>y. sys_run ex_render ex_specs ex_pool_turns (initial_sys ex_specs) = (y, Some (Inr Completed)) \<and>
    mset (y_emitted y) = mset (map ex_pool [[], [''a''], [''s'']])"
proof -
  have "local_workers ex_config \<noteq> 0" by code_simp
  moreover have "length (attr_tree ex_pool MAX_ATTR_DEPTH) + length ex_specs < length ex_pool_turns"
    unfolding ex_pool_tree by (simp add: ex_specs_def ex_pool_turns_def)
  ultimately show ?thesis
    using every_value_is_evaluated [OF ex_worker_specs _ ex_pool_turns_ok [unfolded ex_pool_def] ex_pool_turns_live,
        folded ex_pool_def]
    unfolding ex_pool_tree by blast
qed

theorem query_sees_evaluated_tree_witness:
  "\<exists>ds d. query_snapshot default_filter (snd (stream ex_render True True True
      (fst (run_evaluation ex_render ex_api Inr (Inr ()) Inr ex_pool_turns ex_joins ex_config), Inr Completed)
      (session_open ex_config))) = Inr ds \<and> ex_pool [''a''] = Derivation d \<and> d \<in> set ds"
proof -
  let ?run = "run_evaluation ex_render ex_api Inr (Inr ()) Inr ex_pool_turns ex_joins ex_config"
  have "snd (sys_run ex_render ex_specs ex_pool_turns (initial_sys ex_specs)) = Some (Inr Completed)" by code_simp
  then have "snd ?run = Some (Inr Completed)" by (rule ex_run_joined)
  then have run: "?run = (fst ?run, Some (Inr Completed))" by (simp add: prod_eq_iff)
  have turns: "\<forall>specs. worker_specs Inr ex_config = Inr specs \<longrightarrow>
      turns_ok (pool_answer ex_nix ex_fs ex_render ex_root ex_options (\<lambda>_. [])) ex_render specs ex_pool_turns
        (initial_sys specs)"
    using ex_pool_turns_ok by (simp add: ex_worker_specs ex_pool_def)
  have idle: "ss_initial (session_open ex_config) = InitIdle" by (simp add: session_open_def)
  have "(case ex_pool [''a''] of Derivation d \<Rightarrow> matches_filter d default_filter | _ \<Rightarrow> False)" by code_simp
  then obtain d where d: "ex_pool [''a''] = Derivation d" "matches_filter d default_filter"
    by (auto split: event.splits)
  from query_sees_evaluated_tree [OF run turns idle refl, where f = default_filter and readable = True and writable = True, folded ex_pool_def] d
  show ?thesis unfolding ex_pool_tree by fastforce
qed


section \<open>What a cached session stands for\<close>

text \<open>The text of a configuration's document: \<open>serde_json::to_string\<close> with its printer.\<close>

definition config_text :: "(json \<Rightarrow> string) \<Rightarrow> wire_config \<Rightarrow> string result" where
  "config_text print c = and_then (config_json c) (\<lambda>j. Inr (print j))"

text \<open>
  C27. Two configurations never share a cached session: with a printer whose text can be
  parsed back, configurations with the same session key agree in every field that affects an
  evaluation, so a replay or a query is never answered from another configuration's session.
\<close>

theorem sessions_are_not_shared:
  assumes "session_key (config_text print) c = Inr key" and "session_key (config_text print) c' = Inr key"
    and "\<And>d j. d \<in> {c, c'} \<Longrightarrow> config_json (wire_of_config d) = Inr j \<Longrightarrow> parse (print j) = Inr j"
  shows "wire_of_config c = wire_of_config c'"
proof -
  have doc: "\<exists>j. config_json (wire_of_config d) = Inr j \<and> print j = key"
    if "session_key (config_text print) d = Inr key" for d
    using that by (cases "config_json (wire_of_config d)")
      (auto simp: session_key_def config_text_def elim!: with_context.elims)
  obtain j where j: "config_json (wire_of_config c) = Inr j" "print j = key" using doc [OF assms(1)] by blast
  obtain j' where j': "config_json (wire_of_config c') = Inr j'" "print j' = key" using doc [OF assms(2)] by blast
  have "parse key = Inr j" "parse key = Inr j'"
    using assms(3) [OF _ j(1)] assms(3) [OF _ j'(1)] j(2) j'(2) by simp_all
  then have "j = j'" by simp
  moreover have "paths_utf8 (wire_of_config c)" "paths_utf8 (wire_of_config c')"
    using config_json_cases [of "wire_of_config c"] config_json_cases [of "wire_of_config c'"] j(1) j'(1)
    by (auto split: if_splits)
  ultimately show ?thesis using j(1) j'(1) by (intro config_document.enc_inj) simp_all
qed

theorem sessions_are_not_shared_witness:
  "wire_of_config default_config = wire_of_config (builder_worker_exe ''/evix'' default_config)"
proof -
  let ?c = "default_config" and ?c' = "builder_worker_exe ''/evix'' default_config"
  have same: "wire_of_config ?c' = wire_of_config ?c" by (simp add: builder_worker_exe_def wire_of_config_def)
  have "paths_utf8 (wire_of_config ?c)" by (simp add: paths_utf8_def wire_of_config_def default_config_def)
  then obtain j where j: "config_json (wire_of_config ?c) = Inr j"
    using config_json_cases [of "wire_of_config ?c"] by auto
  show ?thesis
  proof (rule sessions_are_not_shared [of "\<lambda>_. ''key''" ?c "''key''" ?c' "\<lambda>_. Inr j"])
    show "session_key (config_text (\<lambda>_. ''key'')) ?c = Inr ''key''"
      "session_key (config_text (\<lambda>_. ''key'')) ?c' = Inr ''key''"
      using j same by (simp_all add: session_key_def config_text_def)
  qed (use j same in auto)
qed

end
